(* ===== verification/Go_Prelude.thy ===== *)
theory Go_Prelude
  imports Complex_Main "HOL-Library.Word" "HOL-Library.Multiset" "HOL-Library.Signed_Division"
    "HOL-Library.AList" "HOL-Library.Sublist"
begin

text \<open>
  Shared vocabulary of the development: the parts of the Go language and of its standard
  packages \<^verbatim>\<open>strings\<close>, \<^verbatim>\<open>strconv\<close> and \<^verbatim>\<open>sort\<close> that the modelled sources call, and the generic
  lemmas the component theories rest on.

  Conventions. A Go string is a byte string, here a \<open>char list\<close>; case mapping and white space
  are those of ASCII, which is what the sources compare (host names, header names, country
  codes). A Go \<open>int\<close> or \<open>int64\<close> counter is an \<open>int\<close>; where the source can overflow the
  wrap-around is written out with \<open>wrap64\<close>. Instants and durations are \<open>int\<close> nanoseconds.
  Division and remainder of the source truncate towards zero, which is \<open>sdiv\<close> and \<open>smod\<close>.
  A Go map is an association list whose keys are distinct; the order in which a \<^verbatim>\<open>range\<close>
  loop visits it is left open and, where it can be observed, is an explicit argument.
\<close>

section \<open>Types and collections of rules\<close>

named_theorems go_inv \<open>preservation of well-formedness invariants\<close>
named_theorems go_frame \<open>fields an operation leaves alone\<close>

type_synonym byte = "8 word"
type_synonym instant = int
type_synonym duration = int

definition nanosPerSec :: int where
  "nanosPerSec = 1000000000"

definition Unix :: "instant \<Rightarrow> int" where
  "Unix t = t div 1000000000"

definition wrap64 :: "int \<Rightarrow> int" where
  "wrap64 n = (n + 2 ^ 63) mod 2 ^ 64 - 2 ^ 63"

section \<open>Package strings\<close>

definition char_code :: "char \<Rightarrow> nat" where
  "char_code c = of_char c"

definition is_digit :: "char \<Rightarrow> bool" where
  "is_digit c \<longleftrightarrow> 48 \<le> char_code c \<and> char_code c \<le> 57"

definition is_space :: "char \<Rightarrow> bool" where
  "is_space c \<longleftrightarrow> (9 \<le> char_code c \<and> char_code c \<le> 13) \<or> char_code c = 32"

definition lower_char :: "char \<Rightarrow> char" where
  "lower_char c = (if 65 \<le> char_code c \<and> char_code c \<le> 90 then char_of (char_code c + 32) else c)"

definition upper_char :: "char \<Rightarrow> char" where
  "upper_char c = (if 97 \<le> char_code c \<and> char_code c \<le> 122 then char_of (char_code c - 32) else c)"

definition ToLower :: "string \<Rightarrow> string" where
  "ToLower s = map lower_char s"

definition ToUpper :: "string \<Rightarrow> string" where
  "ToUpper s = map upper_char s"

definition EqualFold :: "string \<Rightarrow> string \<Rightarrow> bool" where
  "EqualFold a b \<longleftrightarrow> ToLower a = ToLower b"

definition TrimRightFunc :: "(char \<Rightarrow> bool) \<Rightarrow> string \<Rightarrow> string" where
  "TrimRightFunc p s = rev (dropWhile p (rev s))"

definition TrimFunc :: "(char \<Rightarrow> bool) \<Rightarrow> string \<Rightarrow> string" where
  "TrimFunc p s = TrimRightFunc p (dropWhile p s)"

definition Trim :: "string \<Rightarrow> string \<Rightarrow> string" where
  "Trim s cutset = TrimFunc (\<lambda>c. c \<in> set cutset) s"

definition TrimRight :: "string \<Rightarrow> string \<Rightarrow> string" where
  "TrimRight s cutset = TrimRightFunc (\<lambda>c. c \<in> set cutset) s"

definition TrimSpace :: "string \<Rightarrow> string" where
  "TrimSpace s = TrimFunc is_space s"

definition HasPrefix :: "string \<Rightarrow> string \<Rightarrow> bool" where
  "HasPrefix s p \<longleftrightarrow> take (length p) s = p"

definition HasSuffix :: "string \<Rightarrow> string \<Rightarrow> bool" where
  "HasSuffix s p \<longleftrightarrow> length p \<le> length s \<and> drop (length s - length p) s = p"

definition TrimPrefix :: "string \<Rightarrow> string \<Rightarrow> string" where
  "TrimPrefix s p = (if HasPrefix s p then drop (length p) s else s)"

definition TrimSuffix :: "string \<Rightarrow> string \<Rightarrow> string" where
  "TrimSuffix s p = (if HasSuffix s p then take (length s - length p) s else s)"

definition CutPrefix :: "string \<Rightarrow> string \<Rightarrow> string option" where
  "CutPrefix s p = (if HasPrefix s p then Some (drop (length p) s) else None)"

text \<open>\<^verbatim>\<open>strings.IndexByte\<close>; \<open>None\<close> is the result \<open>-1\<close>.\<close>

fun IndexByte :: "string \<Rightarrow> char \<Rightarrow> nat option" where
  "IndexByte [] c = None"
| "IndexByte (x # xs) c = (if x = c then Some 0 else map_option Suc (IndexByte xs c))"

text \<open>\<^verbatim>\<open>strings.Cut\<close> and \<^verbatim>\<open>strings.Split\<close> for the one-byte separators the sources use.\<close>

definition Cut :: "string \<Rightarrow> char \<Rightarrow> (string \<times> string) option" where
  "Cut s c = (case IndexByte s c of None \<Rightarrow> None | Some i \<Rightarrow> Some (take i s, drop (Suc i) s))"

fun Split :: "string \<Rightarrow> char \<Rightarrow> string list" where
  "Split [] c = [[]]"
| "Split (x # xs) c =
     (if x = c then [] # Split xs c
      else (case Split xs c of [] \<Rightarrow> [[x]] | y # ys \<Rightarrow> (x # y) # ys))"

fun Contains :: "string \<Rightarrow> string \<Rightarrow> bool" where
  "Contains [] sub = (sub = [])"
| "Contains (x # xs) sub = (HasPrefix (x # xs) sub \<or> Contains xs sub)"

section \<open>Package strconv\<close>

definition digit_char :: "nat \<Rightarrow> char" where
  "digit_char n = char_of (48 + n)"

definition digit_val :: "char \<Rightarrow> nat" where
  "digit_val c = char_code c - 48"

fun dec_digits :: "nat \<Rightarrow> string" where
  "dec_digits n = (if n < 10 then [digit_char n] else dec_digits (n div 10) @ [digit_char (n mod 10)])"

declare dec_digits.simps [simp del]

definition Itoa :: "int \<Rightarrow> string" where
  "Itoa i = (if i < 0 then CHR ''-'' # dec_digits (nat (- i)) else dec_digits (nat i))"

definition dec_value :: "string \<Rightarrow> nat" where
  "dec_value s = foldl (\<lambda>a c. a * 10 + digit_val c) 0 s"

definition parse_digits :: "string \<Rightarrow> nat option" where
  "parse_digits s = (if s \<noteq> [] \<and> list_all is_digit s then Some (dec_value s) else None)"

text \<open>\<^verbatim>\<open>strconv.Atoi\<close>: an optional sign, at least one digit, and a value that fits in 64 bits;
  anything else is an error, here \<open>None\<close>.\<close>

definition Atoi :: "string \<Rightarrow> int option" where
  "Atoi s =
     (let neg = HasPrefix s ''-'';
          body = (if neg \<or> HasPrefix s ''+'' then drop 1 s else s)
      in case parse_digits body of
           None \<Rightarrow> None
         | Some n \<Rightarrow>
             (let v = (if neg then - int n else int n)
              in if - (2 ^ 63) \<le> v \<and> v < 2 ^ 63 then Some v else None))"

section \<open>Package sort\<close>

text \<open>
  \<^verbatim>\<open>sort.Slice\<close> with a comparison \<open>lt\<close>. The insertion sort below is stable; an unstable
  sort of a slice in some order returns what a stable sort returns on another order of it, so
  the sources' sorts of map contents are this function on the arbitrary iteration order.
\<close>

fun insort_less :: "('a \<Rightarrow> 'a \<Rightarrow> bool) \<Rightarrow> 'a \<Rightarrow> 'a list \<Rightarrow> 'a list" where
  "insort_less lt x [] = [x]"
| "insort_less lt x (y # ys) = (if lt y x then y # insort_less lt x ys else x # y # ys)"

fun sort_slice :: "('a \<Rightarrow> 'a \<Rightarrow> bool) \<Rightarrow> 'a list \<Rightarrow> 'a list" where
  "sort_slice lt [] = []"
| "sort_slice lt (x # xs) = insort_less lt x (sort_slice lt xs)"

text \<open>An iteration order of a Go map visits every entry exactly once, in any order.\<close>

definition range_order :: "('a list \<Rightarrow> 'a list) \<Rightarrow> bool" where
  "range_order rng \<longleftrightarrow> (\<forall>xs. mset (rng xs) = mset xs)"

text \<open>\<^verbatim>\<open>Get\<close> of a header or of a query: the first value of a name, empty when there is none.\<close>

definition Get :: "(string \<times> string) list \<Rightarrow> string \<Rightarrow> string" where
  "Get kvs k = (case map_of kvs k of None \<Rightarrow> [] | Some v \<Rightarrow> v)"

text \<open>\<^verbatim>\<open>m[k] += d\<close> on a map of counters.\<close>

definition bump :: "string \<Rightarrow> int \<Rightarrow> (string \<times> int) list \<Rightarrow> (string \<times> int) list" where
  "bump k d m = AList.update k ((case map_of m k of None \<Rightarrow> 0 | Some v \<Rightarrow> v) + d) m"

section \<open>Lemmas: arithmetic\<close>

lemma sdiv_nonneg [simp]: "0 \<le> a \<Longrightarrow> 0 < b \<Longrightarrow> a sdiv b = (a :: int) div b"
  by (cases "a = 0") (simp_all add: signed_divide_int_def sgn_mult)

lemma smod_nonneg [simp]: "0 \<le> a \<Longrightarrow> 0 < b \<Longrightarrow> a smod b = (a :: int) mod b"
  by (cases "a = 0") (simp_all add: signed_modulo_int_def sgn_if)

lemma wrap64_bounds: "- (2 ^ 63) \<le> wrap64 n" "wrap64 n < 2 ^ 63"
  by (simp_all add: wrap64_def)

lemma wrap64_id: "- (2 ^ 63) \<le> n \<Longrightarrow> n < 2 ^ 63 \<Longrightarrow> wrap64 n = n"
  by (simp add: wrap64_def)

section \<open>Lemmas: strings\<close>

lemma char_code_less [simp]: "char_code c < 256"
  by (simp add: char_code_def)

lemma char_of_char_code [simp]: "char_of (char_code c) = c"
  by (simp add: char_code_def)

lemma char_code_char_of [simp]: "char_code (char_of n) = n mod 256"
  by (simp add: char_code_def)

lemma char_code_inject: "char_code a = char_code b \<longleftrightarrow> a = b"
  by (metis char_of_char_code)

lemma lower_char_idem [simp]: "lower_char (lower_char c) = lower_char c"
  by (auto simp: lower_char_def)

lemma lower_char_fixed: "\<not> (65 \<le> char_code c \<and> char_code c \<le> 90) \<Longrightarrow> lower_char c = c"
  by (auto simp: lower_char_def)

lemma lower_char_eq_nonletter:
  assumes "char_code d < 97" "\<not> (65 \<le> char_code d \<and> char_code d \<le> 90)"
  shows "lower_char c = d \<longleftrightarrow> c = d"
proof
  assume l: "lower_char c = d"
  show "c = d"
  proof (cases "65 \<le> char_code c \<and> char_code c \<le> 90")
    case True
    then have "char_code (lower_char c) = char_code c + 32" by (simp add: lower_char_def)
    with l True assms(1) show ?thesis by simp
  next
    case False
    with l show ?thesis by (simp add: lower_char_fixed)
  qed
next
  assume "c = d"
  with assms(2) show "lower_char c = d" by (simp add: lower_char_fixed)
qed

lemma lower_char_dot [simp]: "lower_char c = CHR ''.'' \<longleftrightarrow> c = CHR ''.''"
  by (rule lower_char_eq_nonletter) (simp_all add: char_code_def)

lemma ToLower_simps [simp]:
  "ToLower [] = []" "ToLower (x # xs) = lower_char x # ToLower xs"
  "ToLower (xs @ ys) = ToLower xs @ ToLower ys" "length (ToLower xs) = length xs"
  "ToLower (ToLower xs) = ToLower xs" "ToLower xs = [] \<longleftrightarrow> xs = []"
  by (simp_all add: ToLower_def)

lemma ToLower_rev: "ToLower (rev xs) = rev (ToLower xs)"
  by (simp add: ToLower_def rev_map)

lemma ToLower_dropWhile:
  "(\<And>c. p (lower_char c) = p c) \<Longrightarrow> ToLower (dropWhile p xs) = dropWhile p (ToLower xs)"
  by (induction xs) auto

lemma EqualFold_refl [simp]: "EqualFold a a"
  by (simp add: EqualFold_def)

lemma TrimRightFunc_last: "TrimRightFunc p s \<noteq> [] \<Longrightarrow> \<not> p (last (TrimRightFunc p s))"
  by (simp add: TrimRightFunc_def last_rev hd_dropWhile)

lemma TrimRightFunc_prefix: "\<exists>t. s = TrimRightFunc p s @ t \<and> (\<forall>c \<in> set t. p c)"
proof -
  have "s = rev (dropWhile p (rev s)) @ rev (takeWhile p (rev s))"
    by (metis rev_append rev_rev_ident takeWhile_dropWhile_id)
  then show ?thesis unfolding TrimRightFunc_def by (metis set_rev set_takeWhileD)
qed

lemma TrimRightFunc_id: "s = [] \<or> \<not> p (last s) \<Longrightarrow> TrimRightFunc p s = s"
  by (cases s rule: rev_cases) (simp_all add: TrimRightFunc_def)

lemma TrimFunc_last: "TrimFunc p s \<noteq> [] \<Longrightarrow> \<not> p (last (TrimFunc p s))"
  by (simp add: TrimFunc_def TrimRightFunc_last)

lemma TrimFunc_hd: "TrimFunc p s \<noteq> [] \<Longrightarrow> \<not> p (hd (TrimFunc p s))"
proof -
  assume ne: "TrimFunc p s \<noteq> []"
  obtain t where t: "dropWhile p s = TrimFunc p s @ t"
    using TrimRightFunc_prefix [of "dropWhile p s" p] by (auto simp: TrimFunc_def)
  then have "hd (dropWhile p s) = hd (TrimFunc p s)" "dropWhile p s \<noteq> []" using ne by auto
  then show ?thesis by (metis hd_dropWhile)
qed

lemma TrimFunc_id: "s = [] \<or> (\<not> p (hd s) \<and> \<not> p (last s)) \<Longrightarrow> TrimFunc p s = s"
  by (cases s) (auto simp: TrimFunc_def TrimRightFunc_id)

lemma TrimFunc_idem [simp]: "TrimFunc p (TrimFunc p s) = TrimFunc p s"
  by (rule TrimFunc_id) (use TrimFunc_hd TrimFunc_last in blast)

lemma TrimRightFunc_Nil: "TrimRightFunc p s = [] \<longleftrightarrow> (\<forall>c \<in> set s. p c)"
  by (simp add: TrimRightFunc_def)

lemma TrimFunc_Nil: "TrimFunc p s = [] \<longleftrightarrow> (\<forall>c \<in> set s. p c)"
proof -
  have "(\<forall>c \<in> set (dropWhile p s). p c) \<longleftrightarrow> (\<forall>c \<in> set s. p c)"
    by (induction s) auto
  then show ?thesis by (simp add: TrimFunc_def TrimRightFunc_Nil)
qed

lemma set_TrimFunc: "set (TrimFunc p s) \<subseteq> set s"
proof -
  have "set (TrimFunc p s) \<subseteq> set (dropWhile p s)"
    by (auto simp: TrimFunc_def TrimRightFunc_def dest: set_dropWhileD)
  then show ?thesis by (auto dest: set_dropWhileD)
qed

lemma ToLower_TrimFunc:
  "(\<And>c. p (lower_char c) = p c) \<Longrightarrow> ToLower (TrimFunc p xs) = TrimFunc p (ToLower xs)"
  by (simp add: TrimFunc_def TrimRightFunc_def ToLower_rev ToLower_dropWhile)

lemma ToLower_Trim_dot: "ToLower (Trim s ''.'') = Trim (ToLower s) ''.''"
  unfolding Trim_def by (rule ToLower_TrimFunc) simp

lemma Trim_Trim [simp]: "Trim (Trim s c) c = Trim s c"
  by (simp add: Trim_def)

lemma Trim_dot_id: "s = [] \<or> (hd s \<noteq> CHR ''.'' \<and> last s \<noteq> CHR ''.'') \<Longrightarrow> Trim s ''.'' = s"
  by (auto simp: Trim_def intro: TrimFunc_id)

lemma Trim_dot_ends:
  "Trim s ''.'' \<noteq> [] \<Longrightarrow> hd (Trim s ''.'') \<noteq> CHR ''.'' \<and> last (Trim s ''.'') \<noteq> CHR ''.''"
  using TrimFunc_hd [of "\<lambda>c. c \<in> set ''.''" s] TrimFunc_last [of "\<lambda>c. c \<in> set ''.''" s]
  by (simp add: Trim_def)

lemma IndexByte_None: "IndexByte s c = None \<longleftrightarrow> c \<notin> set s"
  by (induction s) auto

lemma IndexByte_Some:
  "IndexByte s c = Some i \<Longrightarrow> i < length s \<and> s ! i = c \<and> c \<notin> set (take i s)"
  by (induction s arbitrary: i) (auto split: if_splits)

lemma IndexByte_split:
  "IndexByte s c = Some i \<Longrightarrow> s = take i s @ c # drop (Suc i) s"
  by (metis IndexByte_Some id_take_nth_drop)

lemma IndexByte_append: "c \<notin> set p \<Longrightarrow> IndexByte (p @ c # s) c = Some (length p)"
  by (induction p) auto

lemma Cut_Some: "Cut s c = Some (a, b) \<longleftrightarrow> s = a @ c # b \<and> c \<notin> set a"
  unfolding Cut_def
  by (auto simp: IndexByte_append split: option.splits
      dest: IndexByte_Some IndexByte_split simp: IndexByte_None)

lemma HasPrefix_append [simp]: "HasPrefix (p @ s) p"
  by (simp add: HasPrefix_def)

lemma HasPrefix_iff: "HasPrefix s p \<longleftrightarrow> prefix p s"
  by (auto simp: HasPrefix_def prefix_def) (metis append_take_drop_id)

lemma HasSuffix_iff: "HasSuffix s p \<longleftrightarrow> suffix p s"
  by (auto simp: HasSuffix_def suffix_def) (metis append_take_drop_id)

lemma Split_nonempty [simp]: "Split s c \<noteq> []"
  by (cases s) (auto split: list.splits)

lemma Split_no_sep: "p \<in> set (Split s c) \<Longrightarrow> c \<notin> set p"
proof (induction s arbitrary: p)
  case Nil
  then show ?case by simp
next
  case (Cons x s)
  then show ?case by (cases "Split s c") (auto split: if_splits)
qed

lemma Split_single: "c \<notin> set s \<Longrightarrow> Split s c = [s]"
  by (induction s) auto

lemma Split_append: "c \<notin> set p \<Longrightarrow> Split (p @ c # s) c = p # Split s c"
  by (induction p) auto

section \<open>Lemmas: numbers as text\<close>

lemma is_digit_digit_char: "n < 10 \<Longrightarrow> is_digit (digit_char n)"
  by (simp add: is_digit_def digit_char_def)

lemma digit_val_digit_char: "n < 10 \<Longrightarrow> digit_val (digit_char n) = n"
  by (simp add: digit_val_def digit_char_def)

lemma dec_digits_nonempty [simp]: "dec_digits n \<noteq> []"
  by (subst dec_digits.simps) simp

lemma dec_digits_digits: "list_all is_digit (dec_digits n)"
proof (induction n rule: dec_digits.induct)
  case (1 n)
  then show ?case by (cases "n < 10") (simp_all add: dec_digits.simps [of n] is_digit_digit_char)
qed

lemma dec_value_dec_digits: "dec_value (dec_digits n) = n"
proof (induction n rule: dec_digits.induct)
  case (1 n)
  then show ?case
    by (cases "n < 10") (simp_all add: dec_digits.simps [of n] dec_value_def digit_val_digit_char)
qed

lemma parse_digits_dec_digits [simp]: "parse_digits (dec_digits n) = Some n"
  by (simp add: parse_digits_def dec_digits_digits dec_value_dec_digits)

lemma dec_digits_hd_digit: "is_digit (hd (dec_digits n))"
  using dec_digits_digits [of n] by (cases "dec_digits n") auto

lemma dec_digits_last_digit: "is_digit (last (dec_digits n))"
  using dec_digits_digits [of n] by (simp add: list_all_iff)

lemma dec_digits_no_sign: "\<not> HasPrefix (dec_digits n) ''-''" "\<not> HasPrefix (dec_digits n) ''+''"
  using dec_digits_hd_digit [of n]
  by (cases "dec_digits n"; auto simp: HasPrefix_def is_digit_def char_code_def)+

lemma HasPrefix_single: "HasPrefix s [c] \<longleftrightarrow> s \<noteq> [] \<and> hd s = c"
  by (cases s) (auto simp: HasPrefix_def)

lemma Atoi_Itoa: "- (2 ^ 63) \<le> i \<Longrightarrow> i < 2 ^ 63 \<Longrightarrow> Atoi (Itoa i) = Some i"
  using dec_digits_no_sign [of "nat i"]
  by (cases "i < 0") (auto simp: Itoa_def Atoi_def HasPrefix_single Let_def)

lemma Atoi_range: "Atoi s = Some v \<Longrightarrow> - (2 ^ 63) \<le> v \<and> v < 2 ^ 63"
  by (auto simp: Atoi_def Let_def split: option.splits if_splits)

section \<open>Lemmas: sorting\<close>

lemma mset_insort_less [simp]: "mset (insort_less lt x xs) = add_mset x (mset xs)"
  by (induction xs) auto

lemma mset_sort_slice [simp]: "mset (sort_slice lt xs) = mset xs"
  by (induction xs) auto

lemma set_sort_slice [simp]: "set (sort_slice lt xs) = set xs"
  by (metis mset_sort_slice set_mset_mset)

lemma length_sort_slice [simp]: "length (sort_slice lt xs) = length xs"
  by (metis mset_sort_slice size_mset)

lemma distinct_map_sort_slice [simp]: "distinct (map f (sort_slice lt xs)) = distinct (map f xs)"
  by (metis mset_eq_imp_distinct_iff mset_map mset_sort_slice)

lemma range_orderD:
  assumes "range_order rng"
  shows "mset (rng xs) = mset xs" "set (rng xs) = set xs" "length (rng xs) = length xs"
    "distinct (map f (rng xs)) = distinct (map f xs)"
proof -
  show m: "mset (rng xs) = mset xs" using assms by (simp add: range_order_def)
  then show "set (rng xs) = set xs" by (metis set_mset_mset)
  from m show "length (rng xs) = length xs" by (metis size_mset)
  from m show "distinct (map f (rng xs)) = distinct (map f xs)"
    by (metis mset_eq_imp_distinct_iff mset_map)
qed

lemma range_order_id [simp]: "range_order (\<lambda>xs. xs)" and range_order_rev [simp]: "range_order rev"
  by (simp_all add: range_order_def)

text \<open>
  What \<^verbatim>\<open>sort.Slice\<close> asks of its comparison, and what it then promises: the result is ordered,
  and a prefix of it holds elements that none of the rest precedes.
\<close>

locale strict_weak_order =
  fixes lt :: "'a \<Rightarrow> 'a \<Rightarrow> bool"
  assumes asym: "lt x y \<Longrightarrow> \<not> lt y x"
    and neg_trans: "\<not> lt x y \<Longrightarrow> \<not> lt y z \<Longrightarrow> \<not> lt x z"
begin

lemma sorted_insort:
  "sorted_wrt (\<lambda>x y. \<not> lt y x) xs \<Longrightarrow> sorted_wrt (\<lambda>x y. \<not> lt y x) (insort_less lt x xs)"
proof (induction xs)
  case Nil
  then show ?case by simp
next
  case (Cons y ys)
  have set_ins: "set (insort_less lt x ys) = insert x (set ys)"
    by (metis mset_insort_less set_mset_add_mset_insert set_mset_mset)
  show ?case
  proof (cases "lt y x")
    case True
    with Cons set_ins asym show ?thesis by auto
  next
    case False
    with Cons.prems neg_trans show ?thesis by (auto intro: neg_trans [rotated])
  qed
qed

lemma sorted_sort_slice: "sorted_wrt (\<lambda>x y. \<not> lt y x) (sort_slice lt xs)"
  by (induction xs) (simp_all add: sorted_insort)

lemma top_of_sort_slice:
  "a \<in> set (take n (sort_slice lt xs)) \<Longrightarrow> b \<in> set (drop n (sort_slice lt xs)) \<Longrightarrow> \<not> lt b a"
  using sorted_sort_slice [of xs]
  by (metis append_take_drop_id sorted_wrt_append)

lemma sort_slice_sorted: "sorted_wrt (\<lambda>x y. \<not> lt y x) xs \<Longrightarrow> sort_slice lt xs = xs"
proof (induction xs)
  case (Cons x xs)
  then show ?case by (cases xs) auto
qed simp

end

text \<open>Comparing by a key, larger keys first: the shape of every comparison of package stats.\<close>

definition by_key_desc :: "('a \<Rightarrow> 'k::linorder) \<Rightarrow> 'a \<Rightarrow> 'a \<Rightarrow> bool" where
  "by_key_desc k x y \<longleftrightarrow> k x > k y"

interpretation key_desc: strict_weak_order "by_key_desc k" for k :: "'a \<Rightarrow> 'k::linorder"
  by unfold_locales (auto simp: by_key_desc_def)

section \<open>Lemmas: maps of counters\<close>

lemma map_of_bump:
  "map_of (bump k d m) j = (if j = k then Some ((case map_of m k of None \<Rightarrow> 0 | Some v \<Rightarrow> v) + d) else map_of m j)"
  by (simp add: bump_def AList.update_conv')

lemma distinct_bump [go_inv]: "distinct (map fst m) \<Longrightarrow> distinct (map fst (bump k d m))"
  by (simp add: bump_def distinct_update)

lemma sum_bump: "sum_list (map snd (bump k d m)) = sum_list (map snd m) + d"
  unfolding bump_def by (induction m) auto

lemma AList_update_notin: "k \<notin> fst ` set m \<Longrightarrow> AList.update k v m = m @ [(k, v)]"
  by (induction m) auto

lemma AList_update_at:
  "distinct (map fst m) \<Longrightarrow> i < length m \<Longrightarrow> fst (m ! i) = k \<Longrightarrow> AList.update k v m = m[i := (k, v)]"
proof (induction m arbitrary: i)
  case (Cons p m)
  have "i = Suc j \<Longrightarrow> fst p \<noteq> k" for j
    using Cons.prems nth_mem [of j m] by auto
  with Cons show ?case by (cases i; cases p) auto
qed simp

section \<open>Transition systems\<close>

text \<open>
  A component that is driven by concurrent callers is a relation between states. What its steps
  preserve holds in every state they lead to.
\<close>

locale transition_invariant =
  fixes step :: "'s \<Rightarrow> 's \<Rightarrow> bool" and inv :: "'s \<Rightarrow> bool"
  assumes step_inv: "inv s \<Longrightarrow> step s t \<Longrightarrow> inv t"
begin

lemma steps_inv: "step\<^sup>*\<^sup>* s t \<Longrightarrow> inv s \<Longrightarrow> inv t"
  by (induction rule: rtranclp_induct) (auto intro: step_inv)

lemma always: "inv s \<Longrightarrow> (\<And>t. inv t \<Longrightarrow> P t) \<Longrightarrow> step\<^sup>*\<^sup>* s t \<Longrightarrow> P t"
  using steps_inv by blast

end

end
