(* ===== verification/Go_Net.thy ===== *)
theory Go_Net
  imports Go_Prelude
begin

text \<open>
  The parts of Go's package \<^verbatim>\<open>net\<close> that the router, the proxies and the API call: IP addresses
  as byte slices (\<^verbatim>\<open>net.IP\<close>, 4 or 16 bytes), \<^verbatim>\<open>ParseIP\<close> and \<^verbatim>\<open>IP.String\<close>, \<^verbatim>\<open>ParseCIDR\<close> and
  \<^verbatim>\<open>IPNet.Contains\<close>, \<^verbatim>\<open>SplitHostPort\<close> and \<^verbatim>\<open>JoinHostPort\<close>. A nil \<^verbatim>\<open>net.IP\<close> is \<open>None\<close>.
  The lemmas give the lengths of parsed addresses, the shape of the text of an address, the
  round trip of IPv4 text, and the meaning of a prefix length on the bits of an address.
\<close>

unbundle bit_operations_syntax

section \<open>Addresses\<close>

type_synonym IP = "byte list"

definition v4InV6Prefix :: IP where
  "v4InV6Prefix = [0, 0, 0, 0, 0, 0, 0, 0, 0, 0, 255, 255]"

definition To4 :: "IP \<Rightarrow> IP option" where
  "To4 ip = (if length ip = 4 then Some ip
             else if length ip = 16 \<and> take 12 ip = v4InV6Prefix then Some (drop 12 ip)
             else None)"

definition As16 :: "IP \<Rightarrow> IP" where
  "As16 a = (if length a = 4 then v4InV6Prefix @ a else a)"

definition IP_Equal :: "IP \<Rightarrow> IP \<Rightarrow> bool" where
  "IP_Equal a b \<longleftrightarrow>
     (if length a = length b then a = b
      else if length a = 4 \<and> length b = 16 then b = v4InV6Prefix @ a
      else if length a = 16 \<and> length b = 4 then a = v4InV6Prefix @ b
      else False)"

definition IsUnspecified :: "IP \<Rightarrow> bool" where
  "IsUnspecified ip \<longleftrightarrow> IP_Equal ip (v4InV6Prefix @ [0, 0, 0, 0]) \<or> IP_Equal ip (replicate 16 0)"

section \<open>Parsing addresses\<close>

definition parse_octet :: "string \<Rightarrow> byte option" where
  "parse_octet p =
     (case parse_digits p of
        None \<Rightarrow> None
      | Some n \<Rightarrow> if n \<le> 255 \<and> (length p = 1 \<or> hd p \<noteq> CHR ''0'') then Some (of_nat n) else None)"

definition parseIPv4 :: "string \<Rightarrow> IP option" where
  "parseIPv4 s =
     (case map parse_octet (Split s CHR ''.'') of
        [Some a, Some b, Some c, Some d] \<Rightarrow> Some [a, b, c, d]
      | _ \<Rightarrow> None)"

definition is_hex :: "char \<Rightarrow> bool" where
  "is_hex c \<longleftrightarrow> is_digit c \<or> (97 \<le> char_code c \<and> char_code c \<le> 102) \<or> (65 \<le> char_code c \<and> char_code c \<le> 70)"

definition hex_val :: "char \<Rightarrow> nat" where
  "hex_val c = (if is_digit c then char_code c - 48
                else if 97 \<le> char_code c then char_code c - 87 else char_code c - 55)"

definition hex_value :: "string \<Rightarrow> nat" where
  "hex_value s = foldl (\<lambda>a c. a * 16 + hex_val c) 0 s"

text \<open>
  The group loop of \<^verbatim>\<open>netip.parseIPv6\<close>: the text still to read, the bytes read so far and
  the position of the ellipsis. Every iteration adds two bytes, so it ends.
\<close>

function v6_loop :: "string \<Rightarrow> IP \<Rightarrow> nat option \<Rightarrow> (string \<times> IP \<times> nat option) option" where
  "v6_loop s ip ell =
     (if length ip < 16 then
        (let h = takeWhile is_hex s; r = dropWhile is_hex s in
         if h = [] \<or> length h > 4 then None
         else if r \<noteq> [] \<and> hd r = CHR ''.'' then
           (if (ell = None \<and> length ip \<noteq> 12) \<or> length ip + 4 > 16 then None
            else map_option (\<lambda>v4. ([], ip @ v4, ell)) (parseIPv4 s))
         else
           (let ip' = ip @ [of_nat (hex_value h div 256), of_nat (hex_value h mod 256)] in
            if r = [] then Some ([], ip', ell)
            else if hd r \<noteq> CHR '':'' \<or> length r = 1 then None
            else if hd (tl r) = CHR '':'' then
              (if ell \<noteq> None then None
               else if tl (tl r) = [] then Some ([], ip', Some (length ip'))
               else v6_loop (tl (tl r)) ip' (Some (length ip')))
            else v6_loop (tl r) ip' ell))
      else Some (s, ip, ell))"
  by pat_completeness auto
termination
  by (relation "measure (\<lambda>(s, ip, ell). 16 - length ip)") auto

declare v6_loop.simps [simp del]

definition v6_finish :: "string \<times> IP \<times> nat option \<Rightarrow> IP option" where
  "v6_finish st =
     (case st of (s, ip, ell) \<Rightarrow>
        if s \<noteq> [] then None
        else if length ip < 16 then
          (case ell of
             None \<Rightarrow> None
           | Some e \<Rightarrow> Some (take e ip @ replicate (16 - length ip) 0 @ drop e ip))
        else if ell \<noteq> None then None
        else Some ip)"

definition parseIPv6 :: "string \<Rightarrow> IP option" where
  "parseIPv6 s =
     (if CHR ''%'' \<in> set s then None
      else if HasPrefix s ''::'' then
        (if drop 2 s = [] then Some (replicate 16 0)
         else Option.bind (v6_loop (drop 2 s) [] (Some 0)) v6_finish)
      else Option.bind (v6_loop s [] None) v6_finish)"

text \<open>\<^verbatim>\<open>netip.ParseAddr\<close> without zones: the first dot, colon or percent sign selects the family.\<close>

definition ParseAddr :: "string \<Rightarrow> IP option" where
  "ParseAddr s =
     (case dropWhile (\<lambda>c. c \<notin> set ''.:%'') s of
        [] \<Rightarrow> None
      | c # _ \<Rightarrow> if c = CHR ''.'' then parseIPv4 s else if c = CHR '':'' then parseIPv6 s else None)"

definition ParseIP :: "string \<Rightarrow> IP option" where
  "ParseIP s = map_option As16 (ParseAddr s)"

section \<open>Printing addresses\<close>

definition v4_String :: "IP \<Rightarrow> string" where
  "v4_String ip =
     dec_digits (unat (ip ! 0)) @ ''.'' @ dec_digits (unat (ip ! 1)) @ ''.'' @
     dec_digits (unat (ip ! 2)) @ ''.'' @ dec_digits (unat (ip ! 3))"

definition hex_char :: "nat \<Rightarrow> char" where
  "hex_char n = (if n < 10 then digit_char n else char_of (87 + n))"

fun hex_digits :: "nat \<Rightarrow> string" where
  "hex_digits n = (if n < 16 then [hex_char n] else hex_digits (n div 16) @ [hex_char (n mod 16)])"

declare hex_digits.simps [simp del]

fun v6_groups :: "IP \<Rightarrow> nat list" where
  "v6_groups (a # b # r) = (unat a * 256 + unat b) # v6_groups r"
| "v6_groups _ = []"

fun join_colon :: "string list \<Rightarrow> string" where
  "join_colon [] = []"
| "join_colon [x] = x"
| "join_colon (x # y # r) = x @ CHR '':'' # join_colon (y # r)"

definition zero_run :: "nat list \<Rightarrow> nat \<Rightarrow> nat" where
  "zero_run gs i = length (takeWhile (\<lambda>g. g = 0) (drop i gs))"

text \<open>The first longest run of at least two zero groups, as (start, length).\<close>

definition longest_zero_run :: "nat list \<Rightarrow> nat \<times> nat" where
  "longest_zero_run gs =
     foldl (\<lambda>(st, l) i. if 2 \<le> zero_run gs i \<and> l < zero_run gs i then (i, zero_run gs i) else (st, l))
       (0, 0) [0..<length gs]"

definition v6_String :: "IP \<Rightarrow> string" where
  "v6_String ip =
     (let gs = v6_groups ip; (st, l) = longest_zero_run gs in
      if l = 0 then join_colon (map hex_digits gs)
      else join_colon (map hex_digits (take st gs)) @ ''::'' @ join_colon (map hex_digits (drop (st + l) gs)))"

text \<open>\<^verbatim>\<open>net.IP.String\<close> on an address of 4 or 16 bytes.\<close>

definition IP_String :: "IP \<Rightarrow> string" where
  "IP_String ip = (case To4 ip of Some v4 \<Rightarrow> v4_String v4 | None \<Rightarrow> v6_String ip)"

section \<open>Networks\<close>

record IPNet =
  netIP :: IP
  netMask :: "byte list"

definition mask_byte :: "nat \<Rightarrow> byte" where
  "mask_byte k = (if 8 \<le> k then 255 else of_nat (256 - 2 ^ (8 - k)))"

definition CIDRMask :: "nat \<Rightarrow> nat \<Rightarrow> byte list" where
  "CIDRMask n bits = map (\<lambda>i. mask_byte (n - 8 * i)) [0..<bits div 8]"

definition and_bytes :: "byte list \<Rightarrow> byte list \<Rightarrow> byte list" where
  "and_bytes a m = map2 (AND) a m"

text \<open>\<^verbatim>\<open>net.ParseCIDR\<close>; only the network is used by the sources.\<close>

definition ParseCIDR :: "string \<Rightarrow> IPNet option" where
  "ParseCIDR s =
     (case Cut s CHR ''/'' of
        None \<Rightarrow> None
      | Some (addr, msk) \<Rightarrow>
          (case (ParseAddr addr, parse_digits msk) of
             (Some a, Some n) \<Rightarrow>
               if n \<le> 8 * length a
               then Some \<lparr> netIP = and_bytes a (CIDRMask n (8 * length a)),
                           netMask = CIDRMask n (8 * length a) \<rparr>
               else None
           | _ \<Rightarrow> None))"

text \<open>\<^verbatim>\<open>IPNet.Contains\<close>; an inconsistent network contains nothing but the empty address.\<close>

definition networkNumberAndMask :: "IPNet \<Rightarrow> IP \<times> byte list" where
  "networkNumberAndMask n =
     (let ip = (case To4 (netIP n) of Some v4 \<Rightarrow> v4 | None \<Rightarrow> netIP n); m = netMask n in
      if length ip \<noteq> 4 \<and> length ip \<noteq> 16 then ([], [])
      else if length m = 4 then (if length ip = 4 then (ip, m) else ([], []))
      else if length m = 16 then (ip, if length ip = 4 then drop 12 m else m)
      else ([], []))"

definition IPNet_Contains :: "IPNet \<Rightarrow> IP \<Rightarrow> bool" where
  "IPNet_Contains n ip =
     (let (nn, m) = networkNumberAndMask n;
          x = (case To4 ip of Some v4 \<Rightarrow> v4 | None \<Rightarrow> ip)
      in length x = length nn \<and> and_bytes nn m = and_bytes x m)"

text \<open>Bit \<open>i\<close> of an address, counted from the most significant bit of its first byte.\<close>

definition addr_bit :: "IP \<Rightarrow> nat \<Rightarrow> bool" where
  "addr_bit ip i = bit (ip ! (i div 8)) (7 - i mod 8)"

section \<open>Host and port\<close>

text \<open>\<^verbatim>\<open>net.SplitHostPort\<close>; \<open>None\<close> is any of its errors.\<close>

definition LastIndexByte :: "string \<Rightarrow> char \<Rightarrow> nat option" where
  "LastIndexByte s c = map_option (\<lambda>i. length s - 1 - i) (IndexByte (rev s) c)"

definition SplitHostPort :: "string \<Rightarrow> (string \<times> string) option" where
  "SplitHostPort hp =
     (case LastIndexByte hp CHR '':'' of
        None \<Rightarrow> None
      | Some i \<Rightarrow>
          if hd hp = CHR ''['' then
            (case IndexByte hp CHR '']'' of
               None \<Rightarrow> None
             | Some e \<Rightarrow>
                 if e + 1 \<noteq> i then None
                 else if CHR ''['' \<in> set (drop 1 hp) then None
                 else if CHR '']'' \<in> set (drop (e + 1) hp) then None
                 else Some (drop 1 (take e hp), drop (i + 1) hp))
          else if CHR '':'' \<in> set (take i hp) then None
          else if CHR ''['' \<in> set hp then None
          else if CHR '']'' \<in> set hp then None
          else Some (take i hp, drop (i + 1) hp))"

definition JoinHostPort :: "string \<Rightarrow> string \<Rightarrow> string" where
  "JoinHostPort host port =
     (if CHR '':'' \<in> set host then ''['' @ host @ '']:'' @ port else host @ '':'' @ port)"

section \<open>Lemmas: lengths and families\<close>

lemma length_v4InV6Prefix [simp]: "length v4InV6Prefix = 12"
  by (simp add: v4InV6Prefix_def)

lemma length_To4: "To4 ip = Some v4 \<Longrightarrow> length v4 = 4"
  by (auto simp: To4_def split: if_splits)

lemma To4_len4 [simp]: "length ip = 4 \<Longrightarrow> To4 ip = Some ip"
  by (simp add: To4_def)

lemma To4_idem: "To4 ip = Some v4 \<Longrightarrow> To4 v4 = Some v4"
  by (rule To4_len4) (rule length_To4)

lemma To4_mapped [simp]: "length v4 = 4 \<Longrightarrow> To4 (v4InV6Prefix @ v4) = Some v4"
  by (simp add: To4_def)

lemma length_parseIPv4: "parseIPv4 s = Some ip \<Longrightarrow> length ip = 4"
  by (auto simp: parseIPv4_def split: list.splits option.splits)

lemma v6_loop_length:
  "v6_loop s ip ell = Some (s', ip', ell') \<Longrightarrow> length ip \<le> 16 \<Longrightarrow> even (length ip) \<Longrightarrow>
   length ip' \<le> 16"
proof (induction "16 - length ip" arbitrary: s ip ell rule: less_induct)
  case less
  show ?case
  proof (cases "length ip < 16")
    case False
    with less.prems show ?thesis by (simp add: v6_loop.simps [of s ip ell])
  next
    case True
    define h where "h = takeWhile is_hex s"
    define r where "r = dropWhile is_hex s"
    define ip2 where "ip2 = ip @ [of_nat (hex_value h div 256), of_nat (hex_value h mod 256) :: byte]"
    have len2: "length ip2 \<le> 16" "even (length ip2)" "16 - length ip2 < 16 - length ip"
      using True less.prems(3) by (simp_all add: ip2_def) presburger
    note IH = less.hyps [OF len2(3) _ len2(1,2)]
    have "v6_loop s ip ell = Some (s', ip', ell')" by (rule less.prems)
    then show ?thesis
      unfolding v6_loop.simps [of s ip ell] h_def [symmetric] r_def [symmetric] Let_def
        ip2_def [symmetric]
      using True IH len2
      by (simp split: if_splits) (auto dest: length_parseIPv4)
  qed
qed

lemma length_v6_finish: "v6_finish (s, ip, ell) = Some a \<Longrightarrow> length ip \<le> 16 \<Longrightarrow> length a = 16"
  by (auto simp: v6_finish_def min_def split: if_splits option.splits)

lemma length_parseIPv6: "parseIPv6 s = Some a \<Longrightarrow> length a = 16"
proof -
  have loop: "Option.bind (v6_loop t [] e) v6_finish = Some a \<Longrightarrow> length a = 16" for t e
    by (auto simp: Option.bind_eq_Some_conv dest: v6_loop_length length_v6_finish)
  assume "parseIPv6 s = Some a"
  then show ?thesis using loop by (auto simp: parseIPv6_def split: if_splits)
qed

lemma length_ParseAddr: "ParseAddr s = Some a \<Longrightarrow> length a = 4 \<or> length a = 16"
  unfolding ParseAddr_def
  by (cases "dropWhile (\<lambda>c. c \<notin> set ''.:%'') s")
    (simp_all del: list.set split: if_splits, auto simp: length_parseIPv4 length_parseIPv6)

lemma length_ParseIP: "ParseIP s = Some ip \<Longrightarrow> length ip = 16"
  using length_ParseAddr by (fastforce simp: ParseIP_def As16_def)

section \<open>Lemmas: the text of an address\<close>

lemma parse_octet_digits: "parse_octet p = Some b \<Longrightarrow> p \<noteq> [] \<and> list_all is_digit p"
  by (auto simp: parse_octet_def parse_digits_def split: option.splits if_splits)

lemma hd_Split: "Split s c = p # ps \<Longrightarrow> p \<noteq> [] \<Longrightarrow> s \<noteq> [] \<and> hd s = hd p"
  by (cases s) (auto split: if_splits list.splits)

lemma last_Split: "last (Split s c) \<noteq> [] \<Longrightarrow> s \<noteq> [] \<and> last s = last (last (Split s c))"
proof (induction s)
  case (Cons x s)
  then show ?case
    by (cases "Split s c"; cases "tl (Split s c)"; cases s) (auto split: if_splits list.splits)
qed simp

lemma parseIPv4_ends:
  assumes "parseIPv4 s = Some ip"
  shows "s \<noteq> [] \<and> is_digit (hd s) \<and> is_digit (last s)"
proof -
  obtain a b c d where "map parse_octet (Split s CHR ''.'') = [Some a, Some b, Some c, Some d]"
    using assms by (auto simp: parseIPv4_def split: list.splits option.splits)
  then obtain p q r t where sp: "Split s CHR ''.'' = [p, q, r, t]"
    and p: "parse_octet p = Some a" and t: "parse_octet t = Some d"
    by (auto simp: map_eq_Cons_conv)
  have "is_digit (hd p)" "p \<noteq> []" "is_digit (last t)" "t \<noteq> []"
    using parse_octet_digits [OF p] parse_octet_digits [OF t] by (auto simp: list_all_iff)
  then show ?thesis
    using hd_Split [OF sp] last_Split [of s "CHR ''.''"] sp by auto
qed

lemma ParseAddr_cases:
  assumes "ParseAddr s = Some a"
  shows "CHR '':'' \<in> set s \<or> parseIPv4 s = Some a"
proof -
  obtain c r where c: "dropWhile (\<lambda>c. c \<notin> set ''.:%'') s = c # r"
    using assms by (auto simp: ParseAddr_def split: list.splits)
  then have "c \<in> set s" by (metis list.set_intros(1) set_dropWhileD)
  with c assms show ?thesis by (auto simp: ParseAddr_def split: if_splits)
qed

lemma Split_v4_String:
  "length ip = 4 \<Longrightarrow> Split (v4_String ip) CHR ''.'' = map (\<lambda>b. dec_digits (unat b)) ip"
proof -
  have nodot: "CHR ''.'' \<notin> set (dec_digits n)" for n
    using dec_digits_digits [of n] by (auto simp: list_all_iff is_digit_def char_code_def)
  assume "length ip = 4"
  then obtain a b c d where "ip = [a, b, c, d]"
    by (auto simp: numeral_eq_Suc length_Suc_conv)
  then show ?thesis
    by (simp add: v4_String_def Split_append Split_single nodot)
qed

lemma dec_digits_leading: "hd (dec_digits n) \<noteq> CHR ''0'' \<or> length (dec_digits n) = 1"
proof (induction n rule: dec_digits.induct)
  case (1 n)
  show ?case
  proof (cases "n < 10")
    case True
    then show ?thesis by (simp add: dec_digits.simps [of n])
  next
    case False
    let ?m = "n div 10"
    have h: "hd (dec_digits n) = hd (dec_digits ?m)"
      using False by (simp add: dec_digits.simps [of n])
    show ?thesis
    proof (cases "?m < 10")
      case True
      have "1 \<le> ?m" using False by simp
      then have "char_code (digit_char ?m) \<noteq> 48" using True by (simp add: digit_char_def)
      then have "digit_char ?m \<noteq> CHR ''0''" by (auto simp: char_code_def)
      with h True show ?thesis by (simp add: dec_digits.simps [of ?m])
    next
      case False': False
      have "length (dec_digits ?m) \<noteq> 1"
        using False' by (simp add: dec_digits.simps [of ?m])
      with 1 False h show ?thesis by simp
    qed
  qed
qed

lemma parse_octet_dec_digits: "parse_octet (dec_digits (unat (b :: byte))) = Some b"
proof -
  have "unat b \<le> 255" using unsigned_less [of b, where ?'a = nat] by simp
  then show ?thesis using dec_digits_leading [of "unat b"] by (auto simp: parse_octet_def)
qed

lemma parseIPv4_v4_String: "length ip = 4 \<Longrightarrow> parseIPv4 (v4_String ip) = Some ip"
proof -
  assume len: "length ip = 4"
  then obtain a b c d where ip: "ip = [a, b, c, d]"
    by (auto simp: numeral_eq_Suc length_Suc_conv)
  show ?thesis
    using Split_v4_String [OF len] by (simp add: parseIPv4_def ip parse_octet_dec_digits)
qed

lemma set_v4_String: "length ip = 4 \<Longrightarrow> c \<in> set (v4_String ip) \<Longrightarrow> is_digit c \<or> c = CHR ''.''"
  using dec_digits_digits by (auto simp: v4_String_def list_all_iff)

lemma ParseAddr_v4_String: "length ip = 4 \<Longrightarrow> ParseAddr (v4_String ip) = Some ip"
proof -
  assume len: "length ip = 4"
  let ?d = "dropWhile (\<lambda>c. c \<notin> set ''.:%'') (v4_String ip)"
  have "CHR ''.'' \<in> set (v4_String ip)" by (simp add: v4_String_def)
  then have "?d \<noteq> []" by (auto simp: dropWhile_eq_Nil_conv)
  then obtain c r where c: "?d = c # r" by (cases ?d) auto
  then have "c \<in> set ''.:%''" "c \<in> set (v4_String ip)"
    by (metis hd_dropWhile list.sel(1) list.discI, metis list.set_intros(1) set_dropWhileD)
  then have "c = CHR ''.''"
    using set_v4_String [OF len] by (fastforce simp: is_digit_def char_code_def)
  with c show ?thesis by (simp add: ParseAddr_def parseIPv4_v4_String len)
qed

lemma ParseIP_v4_String: "length ip = 4 \<Longrightarrow> ParseIP (v4_String ip) = Some (v4InV6Prefix @ ip)"
  by (simp add: ParseIP_def ParseAddr_v4_String As16_def)

section \<open>Lemmas: prefixes\<close>

lemma bit_mask_byte: "j < 8 \<Longrightarrow> bit (mask_byte k) j \<longleftrightarrow> 8 - k \<le> j"
proof -
  assume j: "j < 8"
  consider "8 \<le> k" | "k = 0" | "k = 1" | "k = 2" | "k = 3" | "k = 4" | "k = 5" | "k = 6" | "k = 7"
    by linarith
  then show ?thesis
    using j by cases (auto simp: mask_byte_def bit_numeral_rec numeral_eq_Suc less_Suc_eq)
qed

lemma and_mask_byte_eq:
  "x AND mask_byte k = y AND mask_byte k \<longleftrightarrow> (\<forall>j < 8. 8 - k \<le> j \<longrightarrow> bit x j = bit y j)"
  (is "?l \<longleftrightarrow> ?r")
proof
  assume ?l
  show ?r
  proof (intro allI impI)
    fix j :: nat assume j: "j < 8" "8 - k \<le> j"
    have "bit (x AND mask_byte k) j = bit (y AND mask_byte k) j" using \<open>?l\<close> by simp
    with j show "bit x j = bit y j" by (simp add: bit_and_iff bit_mask_byte)
  qed
next
  assume ?r
  then show ?l by (intro bit_word_eqI) (auto simp: bit_and_iff bit_mask_byte)
qed

lemma and_bytes_CIDRMask:
  assumes len: "length a = L" "length b = L" and n: "n \<le> 8 * L"
  shows "and_bytes a (CIDRMask n (8 * L)) = and_bytes b (CIDRMask n (8 * L)) \<longleftrightarrow>
    (\<forall>i < n. addr_bit a i = addr_bit b i)"
proof -
  have "and_bytes a (CIDRMask n (8 * L)) = and_bytes b (CIDRMask n (8 * L)) \<longleftrightarrow>
      (\<forall>p < L. a ! p AND mask_byte (n - 8 * p) = b ! p AND mask_byte (n - 8 * p))"
    using len by (simp add: and_bytes_def CIDRMask_def list_eq_iff_nth_eq)
  also have "\<dots> \<longleftrightarrow> (\<forall>p < L. \<forall>j < 8. 8 - (n - 8 * p) \<le> j \<longrightarrow> bit (a ! p) j = bit (b ! p) j)"
    by (simp add: and_mask_byte_eq)
  also have "\<dots> \<longleftrightarrow> (\<forall>i < n. addr_bit a i = addr_bit b i)"
  proof (rule iffI; intro allI impI)
    fix i assume h: "\<forall>p < L. \<forall>j < 8. 8 - (n - 8 * p) \<le> j \<longrightarrow> bit (a ! p) j = bit (b ! p) j"
      and i: "i < n"
    have ieq: "i = 8 * (i div 8) + i mod 8" and imod: "i mod 8 < 8" by simp_all
    have "i div 8 < L" using i n by simp
    moreover have "7 - i mod 8 < 8" by simp
    moreover have "8 - (n - 8 * (i div 8)) \<le> 7 - i mod 8" using ieq imod i by linarith
    ultimately have "bit (a ! (i div 8)) (7 - i mod 8) = bit (b ! (i div 8)) (7 - i mod 8)"
      using h by blast
    then show "addr_bit a i = addr_bit b i" unfolding addr_bit_def .
  next
    fix p j assume h: "\<forall>i < n. addr_bit a i = addr_bit b i"
      and p: "p < L" and j: "j < 8" and m: "8 - (n - 8 * p) \<le> j"
    obtain q where q: "q < 8" "7 - q = j" "q = 7 - j" using j by auto
    let ?i = "8 * p + q"
    have "?i < n" using m q j by linarith
    moreover have "?i div 8 = p" "7 - ?i mod 8 = j" using q(1,2) by simp_all
    ultimately show "bit (a ! p) j = bit (b ! p) j" using h unfolding addr_bit_def by metis
  qed
  finally show ?thesis .
qed

lemma and_bytes_idem: "length a = length m \<Longrightarrow> and_bytes (and_bytes a m) m = and_bytes a m"
  by (simp add: and_bytes_def list_eq_iff_nth_eq)

lemma length_CIDRMask [simp]: "length (CIDRMask n bits) = bits div 8"
  by (simp add: CIDRMask_def)

lemma length_and_bytes [simp]: "length (and_bytes a m) = min (length a) (length m)"
  by (simp add: and_bytes_def)

lemma IPNet_Contains_v4:
  assumes "length a = 4" "n \<le> 32"
  shows "IPNet_Contains \<lparr>netIP = and_bytes a (CIDRMask n 32), netMask = CIDRMask n 32\<rparr> ip \<longleftrightarrow>
    (\<exists>v4. To4 ip = Some v4 \<and> (\<forall>i < n. addr_bit v4 i = addr_bit a i))"
proof (cases "To4 ip")
  case None
  then have "length ip \<noteq> 4" by (auto simp: To4_def split: if_splits)
  with None assms show ?thesis
    by (simp add: IPNet_Contains_def networkNumberAndMask_def Let_def)
next
  case (Some v4)
  then show ?thesis
    using assms and_bytes_CIDRMask [of a 4 v4 n] length_To4 [OF Some]
    by (simp add: IPNet_Contains_def networkNumberAndMask_def and_bytes_idem Let_def) metis
qed

lemma ParseCIDR_v4:
  assumes len: "length a = 4" and n: "n \<le> 32"
  shows "ParseCIDR (v4_String a @ ''/'' @ dec_digits n) =
    Some \<lparr>netIP = and_bytes a (CIDRMask n 32), netMask = CIDRMask n 32\<rparr>"
proof -
  have "CHR ''/'' \<notin> set (v4_String a)"
    using set_v4_String [OF len] by (fastforce simp: is_digit_def char_code_def)
  then have "Cut (v4_String a @ ''/'' @ dec_digits n) CHR ''/'' = Some (v4_String a, dec_digits n)"
    by (simp add: Cut_Some)
  then show ?thesis by (simp add: ParseCIDR_def ParseAddr_v4_String len n)
qed

lemma IPNet_Contains_To4: "IPNet_Contains n ip = IPNet_Contains n (case To4 ip of Some v4 \<Rightarrow> v4 | None \<Rightarrow> ip)"
  by (cases "To4 ip") (simp_all add: IPNet_Contains_def To4_idem)

end
