(* ===== verification/Router.thy ===== *)
theory Router
  imports Go_Net
begin

text \<open>
  Package \<^verbatim>\<open>core/router\<close>: the sets of domain suffix rules (\<open>hostSet\<close>), the router with its CIDR
  list, GeoIP country codes and domain rules, the loading of rules from options and files, the
  decision \<open>Decide\<close>, and the rule list of \<^verbatim>\<open>rules.go\<close> (\<open>NormalizeRules\<close>, \<open>SetPolicy\<close>).
  The mutex and the atomic pointers of the source only publish a value computed under the lock,
  so an operation is a function from the old value to the new one.

  Parameters. The default domain lists and reserved ranges and the GeoIP database come from the
  package \<^verbatim>\<open>gohome\<close>; together with the file system they are the fields of \<open>RouterEnv\<close> and the
  argument \<open>geo\<close> of \<open>Decide\<close> (the country code of an address, \<open>None\<close> when the database
  returns an error).

  The lemmas show what a domain rule matches (the domain itself or a label-boundary suffix of
  it, whatever the case and the outer dots), which rule decides, that IP literals are never
  treated as names, that the cheap IP filter has no false negative, and what rows the rule list
  keeps.
\<close>

section \<open>Sets of domain suffix rules\<close>

type_synonym hostSet = "string set"

definition newHostSet :: hostSet where
  "newHostSet = {}"

definition hostSet_reset :: "hostSet \<Rightarrow> hostSet" where
  "hostSet_reset h = {}"

definition add_step :: "hostSet \<times> nat \<Rightarrow> string \<Rightarrow> hostSet \<times> nat" where
  "add_step st domain =
     (case st of (m, added) \<Rightarrow>
        let d = ToLower (Trim domain ''.'') in
        if d = [] then (m, added) else (insert d m, added + 1))"

definition addAll :: "hostSet \<Rightarrow> string list \<Rightarrow> hostSet" where
  "addAll h domains =
     (case foldl add_step (h, 0) domains of (m, added) \<Rightarrow> if added = 0 then h else m)"

definition hostSet_add :: "hostSet \<Rightarrow> string \<Rightarrow> hostSet" where
  "hostSet_add h domain = addAll h [domain]"

definition has :: "hostSet \<Rightarrow> string \<Rightarrow> bool" where
  "has h domain \<longleftrightarrow> domain \<in> h"

definition hostSet_len :: "hostSet \<Rightarrow> nat" where
  "hostSet_len h = card h"

text \<open>The loop of \<open>matchListed\<close> from index \<open>i\<close>: the suffixes of the domain at its dots.\<close>

function match_from :: "hostSet \<Rightarrow> string \<Rightarrow> nat \<Rightarrow> bool" where
  "match_from hosts domain i =
     (if i < length domain then
        (if has hosts (drop i domain) then True
         else (case IndexByte (drop i domain) CHR ''.'' of
                 None \<Rightarrow> False
               | Some dot \<Rightarrow> match_from hosts domain (i + dot + 1)))
      else False)"
  by pat_completeness auto
termination
  by (relation "measure (\<lambda>(hosts, domain, i). length domain - i)") auto

declare match_from.simps [simp del]

definition matchListed :: "hostSet \<Rightarrow> string \<Rightarrow> bool" where
  "matchListed hosts domain =
     (let d = ToLower (Trim domain ''.'') in if d = [] then False else match_from hosts d 0)"

section \<open>The router\<close>

datatype RouteDecision = Direct | Proxy

record Router =
  directIPs :: "IPNet list option"
  directHosts :: hostSet
  proxyHosts :: hostSet
  geoDB :: bool
  geoipLoaded :: bool
  skipCountry :: string
  skipCountries :: "string set"

record Options =
  DirectDomains :: "string list"
  ProxyDomains :: "string list"
  DirectCIDRs :: "string list"
  DisableBuiltin :: bool
  GeoIPFile :: string
  ChinaDomainFiles :: "string list"
  GFWDomainFiles :: "string list"
  SkipCountry :: string

text \<open>
  What the router takes from outside the repository: the default lists of \<^verbatim>\<open>gohome/dns\<close>, whether
  a GeoIP file opens, whether a path exists, and the lines of a text file (\<open>None\<close> when it cannot
  be opened; the flag tells whether the scan ended without an error).
\<close>

record RouterEnv =
  DefaultChinaMainDomains :: "string list"
  DefaultDirectTLDs :: "string list"
  DefaultReservedCIDRs :: "string list"
  geoOpen :: "string \<Rightarrow> bool"
  osStat :: "string \<Rightarrow> bool"
  readLines :: "string \<Rightarrow> (string list \<times> bool) option"

definition getReservedIPNets :: "RouterEnv \<Rightarrow> IPNet list" where
  "getReservedIPNets env = List.map_filter ParseCIDR (DefaultReservedCIDRs env)"

definition loadDirectCIDRs :: "RouterEnv \<Rightarrow> string list \<Rightarrow> Router \<Rightarrow> Router" where
  "loadDirectCIDRs env customCIDRs r =
     r\<lparr>directIPs := Some (getReservedIPNets env @ List.map_filter ParseCIDR customCIDRs)\<rparr>"

text \<open>\<^verbatim>\<open>AddDirectCIDR\<close>: \<open>None\<close> is the parse error; without a list the type assertion panics.\<close>

datatype 'a outcome = Returned 'a | Failed | Panicked

definition AddDirectCIDR :: "Router \<Rightarrow> string \<Rightarrow> Router outcome" where
  "AddDirectCIDR r cidr =
     (case ParseCIDR cidr of
        None \<Rightarrow> Failed
      | Some ipnet \<Rightarrow>
          (case directIPs r of
             None \<Rightarrow> Panicked
           | Some current \<Rightarrow> Returned (r\<lparr>directIPs := Some (current @ [ipnet])\<rparr>)))"

definition AddDirectDomain :: "Router \<Rightarrow> string \<Rightarrow> Router" where
  "AddDirectDomain r domain = r\<lparr>directHosts := hostSet_add (directHosts r) domain\<rparr>"

definition AddProxyDomain :: "Router \<Rightarrow> string \<Rightarrow> Router" where
  "AddProxyDomain r domain = r\<lparr>proxyHosts := hostSet_add (proxyHosts r) domain\<rparr>"

text \<open>One line of a domain list: a plain domain or a dnsmasq \<^verbatim>\<open>server=/domain/...\<close> entry.\<close>

definition domain_of_line :: "string \<Rightarrow> string option" where
  "domain_of_line text =
     (let line = TrimSpace text in
      if line = [] \<or> HasPrefix line ''#'' then None
      else
        (let line1 = (case CutPrefix line ''server=/'' of
                        None \<Rightarrow> line
                      | Some rest \<Rightarrow>
                          (case Cut rest CHR ''/'' of
                             None \<Rightarrow> line
                           | Some (domain, _) \<Rightarrow> if domain \<noteq> [] then domain else line));
             line2 = ToLower (Trim line1 ''.'')
         in if line2 \<noteq> [] then Some line2 else None))"

definition LoadDomainFile :: "RouterEnv \<Rightarrow> string \<Rightarrow> bool \<Rightarrow> Router \<Rightarrow> Router \<times> bool" where
  "LoadDomainFile env filePath isDirect r =
     (case readLines env filePath of
        None \<Rightarrow> (r, False)
      | Some (texts, scanOk) \<Rightarrow>
          (let ls = List.map_filter domain_of_line texts in
           (if isDirect then r\<lparr>directHosts := addAll (directHosts r) ls\<rparr>
            else r\<lparr>proxyHosts := addAll (proxyHosts r) ls\<rparr>, scanOk)))"

definition skip_countries :: "string \<Rightarrow> string set" where
  "skip_countries sc =
     (if \<not> EqualFold sc ''none'' \<and> sc \<noteq> []
      then set (filter (\<lambda>c. c \<noteq> []) (map (\<lambda>p. ToUpper (TrimSpace p)) (Split sc CHR '','')))
      else {})"

definition geo_loaded :: "RouterEnv \<Rightarrow> string \<Rightarrow> bool" where
  "geo_loaded env f =
     (if f \<noteq> [] then geoOpen env f
      else osStat env ''GeoLite2-Country.mmdb'' \<and> geoOpen env ''GeoLite2-Country.mmdb'')"

definition NewRouterWithOptions :: "RouterEnv \<Rightarrow> Options \<Rightarrow> Router" where
  "NewRouterWithOptions env opt =
     (let sc0 = TrimSpace (SkipCountry opt);
          sc = (if sc0 = [] then ''CN'' else sc0);
          r0 = \<lparr> directIPs = None, directHosts = newHostSet, proxyHosts = newHostSet, geoDB = True,
                 geoipLoaded = geo_loaded env (GeoIPFile opt), skipCountry = sc,
                 skipCountries = skip_countries sc \<rparr>;
          r1 = (if \<not> DisableBuiltin opt
                then r0\<lparr>directHosts := addAll (addAll (directHosts r0) (DefaultChinaMainDomains env))
                                             (DefaultDirectTLDs env)\<rparr>
                else r0);
          r2 = r1\<lparr>directHosts := addAll (directHosts r1) (DirectDomains opt)\<rparr>;
          r3 = r2\<lparr>proxyHosts := addAll (proxyHosts r2) (ProxyDomains opt)\<rparr>;
          r4 = foldl (\<lambda>r f. fst (LoadDomainFile env f True r)) r3 (ChinaDomainFiles opt);
          r5 = foldl (\<lambda>r f. fst (LoadDomainFile env f False r)) r4 (GFWDomainFiles opt)
      in loadDirectCIDRs env (DirectCIDRs opt) r5)"

definition NewRouter :: "RouterEnv \<Rightarrow> Router" where
  "NewRouter env = NewRouterWithOptions env
     \<lparr> DirectDomains = [], ProxyDomains = [], DirectCIDRs = [], DisableBuiltin = False,
       GeoIPFile = [], ChinaDomainFiles = [], GFWDomainFiles = [], SkipCountry = [] \<rparr>"

definition ShouldProxyDomain :: "Router \<Rightarrow> string \<Rightarrow> bool" where
  "ShouldProxyDomain r domain = matchListed (proxyHosts r) domain"

definition ShouldDirectDomain :: "Router \<Rightarrow> string \<Rightarrow> bool" where
  "ShouldDirectDomain r domain = matchListed (directHosts r) domain"

definition canonicalIP :: "IP option \<Rightarrow> IP option" where
  "canonicalIP ip =
     (case ip of None \<Rightarrow> None
      | Some a \<Rightarrow> (case To4 a of Some v4 \<Rightarrow> Some v4 | None \<Rightarrow> Some a))"

definition IPNetList_Contains :: "IPNet list \<Rightarrow> IP \<Rightarrow> bool" where
  "IPNetList_Contains l ip = list_ex (\<lambda>n. IPNet_Contains n ip) l"

definition ShouldDirectIP :: "Router \<Rightarrow> IP option \<Rightarrow> bool" where
  "ShouldDirectIP r ip =
     (case canonicalIP ip of
        None \<Rightarrow> False
      | Some a \<Rightarrow> (case directIPs r of None \<Rightarrow> False | Some l \<Rightarrow> IPNetList_Contains l a))"

record Info =
  iDirectDomains :: nat
  iProxyDomains :: nat
  iDirectCIDRs :: nat
  iGeoIP :: bool
  iSkipCountry :: string

definition Router_Info :: "Router \<Rightarrow> Info" where
  "Router_Info r =
     \<lparr> iDirectDomains = hostSet_len (directHosts r), iProxyDomains = hostSet_len (proxyHosts r),
       iDirectCIDRs = (case directIPs r of None \<Rightarrow> 0 | Some l \<Rightarrow> length l),
       iGeoIP = geoipLoaded r, iSkipCountry = skipCountry r \<rparr>"

definition looksLikeIP :: "string \<Rightarrow> bool" where
  "looksLikeIP s =
     (if s = [] then False
      else if IndexByte s CHR '':'' \<noteq> None then True
      else is_digit (hd s) \<and> is_digit (last s))"

text \<open>The host and address that \<open>Decide\<close> goes on with after it has recognised a literal.\<close>

definition decide_target :: "string \<Rightarrow> IP option \<Rightarrow> string \<times> IP option" where
  "decide_target destHost destIP =
     (if looksLikeIP destHost then
        (case ParseIP destHost of
           Some ip \<Rightarrow> ([], canonicalIP (Some ip))
         | None \<Rightarrow> (destHost, canonicalIP destIP))
      else (destHost, canonicalIP destIP))"

definition Decide :: "(IP \<Rightarrow> string option) \<Rightarrow> Router \<Rightarrow> string \<Rightarrow> IP option \<Rightarrow> RouteDecision" where
  "Decide geo r destHost destIP =
     (let (host, ip) = decide_target destHost destIP in
      if host \<noteq> [] \<and> ShouldProxyDomain r host then Proxy
      else if host \<noteq> [] \<and> ShouldDirectDomain r host then Direct
      else (case ip of
              None \<Rightarrow> Proxy
            | Some a \<Rightarrow>
                if ShouldDirectIP r (Some a) then Direct
                else if geoDB r \<and> skipCountries r \<noteq> {} then
                  (case geo a of
                     None \<Rightarrow> Proxy
                   | Some code \<Rightarrow> if code \<noteq> [] \<and> code \<in> skipCountries r then Direct else Proxy)
                else Proxy))"

section \<open>The rule list\<close>

record Rule =
  ruleID :: string
  Kind :: string
  Value :: string
  Action :: string
  Builtin :: bool

text \<open>The row as \<open>NormalizeRules\<close> rewrites it before it looks for a duplicate, \<open>None\<close> when the
  row is dropped.\<close>

definition norm_value :: "string \<Rightarrow> string" where
  "norm_value v =
     (let raw = ToLower (TrimSpace v) in
      if HasPrefix raw ''.'' then ''.'' @ Trim raw ''.'' else Trim raw ''.'')"

definition norm_row :: "Rule \<Rightarrow> Rule option" where
  "norm_row rule =
     (let kind = ToLower (TrimSpace (Kind rule)) in
      if kind \<noteq> ''domain'' then None
      else
        (let act = (if ToLower (TrimSpace (Action rule)) \<noteq> ''proxy'' then ''direct'' else ''proxy'');
             val = norm_value (Value rule)
         in if val = [] \<or> val = ''.'' then None
            else Some (rule\<lparr>Kind := kind, Action := act, Value := val\<rparr>)))"

definition rule_key :: "Rule \<Rightarrow> string" where
  "rule_key rule = Kind rule @ [CHR 0x0A] @ ToLower (Value rule)"

definition default_id :: "Rule \<Rightarrow> string" where
  "default_id rule =
     Kind rule @ ''-'' @ map (\<lambda>c. if c = CHR '' '' \<or> c = CHR ''/'' then CHR ''-'' else c) (Value rule)"

text \<open>One iteration; the state is the map \<open>seen\<close> from keys to positions and the output rows.\<close>

definition norm_step :: "(string \<times> nat) list \<times> Rule list \<Rightarrow> Rule \<Rightarrow> (string \<times> nat) list \<times> Rule list" where
  "norm_step st raw =
     (case st of (seen, out) \<Rightarrow>
        (case norm_row raw of
           None \<Rightarrow> (seen, out)
         | Some rule \<Rightarrow>
             (case map_of seen (rule_key rule) of
                Some idx \<Rightarrow>
                  (seen, out[idx := rule\<lparr>ruleID := (if ruleID rule = [] then ruleID (out ! idx) else ruleID rule),
                                         Builtin := (Builtin (out ! idx) \<or> Builtin rule)\<rparr>])
              | None \<Rightarrow>
                  ((rule_key rule, length out) # seen,
                   out @ [rule\<lparr>ruleID := (if ruleID rule = [] then default_id rule else ruleID rule)\<rparr>]))))"

definition NormalizeRules :: "Rule list \<Rightarrow> Rule list" where
  "NormalizeRules rules = snd (foldl norm_step ([], []) rules)"

definition apply_rule :: "Router \<Rightarrow> Rule \<Rightarrow> Router" where
  "apply_rule r rule =
     (if Action rule = ''proxy'' then AddProxyDomain r (Value rule) else AddDirectDomain r (Value rule))"

definition SetPolicy :: "Router \<Rightarrow> Rule list \<Rightarrow> Router" where
  "SetPolicy r rules =
     foldl apply_rule
       (r\<lparr>directHosts := hostSet_reset (directHosts r), proxyHosts := hostSet_reset (proxyHosts r)\<rparr>)
       (NormalizeRules rules)"

section \<open>What a rule matches\<close>

text \<open>The declarative reading of the rules: a rule covers a domain when, after both are
  lower-cased and stripped of outer dots, it is the domain or a suffix of it that starts after
  a dot.\<close>

definition norm_domain :: "string \<Rightarrow> string" where
  "norm_domain d = ToLower (Trim d ''.'')"

definition label_suffix :: "string \<Rightarrow> string \<Rightarrow> bool" where
  "label_suffix r d \<longleftrightarrow> d = r \<or> (\<exists>p. d = p @ CHR ''.'' # r)"

definition rule_covers :: "string \<Rightarrow> string \<Rightarrow> bool" where
  "rule_covers rule domain \<longleftrightarrow>
     norm_domain rule \<noteq> [] \<and> label_suffix (norm_domain rule) (norm_domain domain)"

lemma match_from_iff:
  "match_from hosts d i \<longleftrightarrow>
     (\<exists>j. i \<le> j \<and> j < length d \<and> (j = i \<or> d ! (j - 1) = CHR ''.'') \<and> drop j d \<in> hosts)"
proof (induction hosts d i rule: match_from.induct)
  case (1 hosts d i)
  let ?Q = "\<lambda>i j. i \<le> j \<and> j < length d \<and> (j = i \<or> d ! (j - 1) = CHR ''.'') \<and> drop j d \<in> hosts"
  show ?case
  proof (cases "i < length d \<and> drop i d \<notin> hosts")
    case False
    then show ?thesis by (auto simp: match_from.simps [of hosts d i] has_def)
  next
    case True
    have later: "?Q i j \<Longrightarrow> i < j \<and> d ! (j - 1) = CHR ''.''" for j
      using True by (metis le_eq_less_or_eq)
    show ?thesis
    proof (cases "IndexByte (drop i d) CHR ''.''")
      case None
      have "\<not> ?Q i j" for j
      proof
        assume q: "?Q i j"
        with later have "i < j" "d ! (j - 1) = CHR ''.''" by blast+
        then have "CHR ''.'' \<in> set (drop i d)"
          using q by (force simp: in_set_conv_nth intro: exI [of _ "j - 1 - i"])
        with None show False by (simp add: IndexByte_None)
      qed
      with True None show ?thesis by (simp add: match_from.simps [of hosts d i] has_def)
    next
      case (Some dot)
      note dot = IndexByte_Some [OF Some]
      have "match_from hosts d i = match_from hosts d (i + dot + 1)"
        using True Some by (simp add: match_from.simps [of hosts d i] has_def)
      also have "\<dots> \<longleftrightarrow> (\<exists>j. ?Q (i + dot + 1) j)"
        using "1.IH" True Some by (simp add: has_def)
      also have "\<dots> \<longleftrightarrow> (\<exists>j. ?Q i j)"
      proof (intro ex_cong1 iffI)
        fix j assume "?Q (i + dot + 1) j"
        with dot show "?Q i j" by auto
      next
        fix j assume q: "?Q i j"
        with later have j: "i < j" "d ! (j - 1) = CHR ''.''" by blast+
        have "\<not> j - 1 - i < dot"
        proof
          assume "j - 1 - i < dot"
          then have "drop i d ! (j - 1 - i) \<in> set (take dot (drop i d))"
            using q dot by (force simp: in_set_conv_nth)
          with j q dot show False by simp
        qed
        with j q show "?Q (i + dot + 1) j" by auto
      qed
      finally show ?thesis .
    qed
  qed
qed

lemma matchListed_iff:
  "matchListed hosts domain \<longleftrightarrow> (\<exists>r \<in> hosts. r \<noteq> [] \<and> label_suffix r (norm_domain domain))"
proof -
  let ?d = "norm_domain domain"
  have "matchListed hosts domain \<longleftrightarrow>
      (\<exists>j < length ?d. (j = 0 \<or> ?d ! (j - 1) = CHR ''.'') \<and> drop j ?d \<in> hosts)"
    unfolding matchListed_def norm_domain_def [symmetric] Let_def by (auto simp: match_from_iff)
  also have "\<dots> \<longleftrightarrow> (\<exists>r \<in> hosts. r \<noteq> [] \<and> label_suffix r ?d)"
  proof
    assume "\<exists>j < length ?d. (j = 0 \<or> ?d ! (j - 1) = CHR ''.'') \<and> drop j ?d \<in> hosts"
    then obtain j where j: "j < length ?d" "j = 0 \<or> ?d ! (j - 1) = CHR ''.''" "drop j ?d \<in> hosts"
      by blast
    have "label_suffix (drop j ?d) ?d"
    proof (cases j)
      case (Suc k)
      with j have dot: "?d ! k = CHR ''.''" and k: "k < length ?d" by simp_all
      have "?d = take k ?d @ ?d ! k # drop (Suc k) ?d" by (rule id_take_nth_drop [OF k])
      then have "?d = take k ?d @ CHR ''.'' # drop j ?d" unfolding dot Suc .
      then show ?thesis unfolding label_suffix_def by blast
    qed (simp add: label_suffix_def)
    moreover have "drop j ?d \<noteq> []" using j(1) by simp
    ultimately show "\<exists>r \<in> hosts. r \<noteq> [] \<and> label_suffix r ?d" using j(3) by blast
  next
    assume "\<exists>r \<in> hosts. r \<noteq> [] \<and> label_suffix r ?d"
    then obtain r where r: "r \<in> hosts" "r \<noteq> []" "label_suffix r ?d" by blast
    then consider "?d = r" | p where "?d = p @ CHR ''.'' # r" by (auto simp: label_suffix_def)
    then show "\<exists>j < length ?d. (j = 0 \<or> ?d ! (j - 1) = CHR ''.'') \<and> drop j ?d \<in> hosts"
    proof cases
      case 1
      with r show ?thesis by (intro exI [of _ 0]) simp
    next
      case (2 p)
      with r show ?thesis by (intro exI [of _ "length p + 1"]) simp
    qed
  qed
  finally show ?thesis .
qed

lemma foldl_add_step:
  "foldl add_step (m, n) ds =
     (m \<union> (norm_domain ` set ds - {[]}), n + length (filter (\<lambda>d. norm_domain d \<noteq> []) ds))"
  by (induction ds arbitrary: m n) (auto simp: add_step_def Let_def norm_domain_def)

lemma addAll_eq: "addAll h ds = h \<union> (norm_domain ` set ds - {[]})"
  by (auto simp: addAll_def foldl_add_step filter_empty_conv)

lemma hostSet_add_eq: "hostSet_add h d = (if norm_domain d = [] then h else insert (norm_domain d) h)"
  by (simp add: hostSet_add_def addAll_eq)

lemma addAll_foldl: "addAll h ds = foldl hostSet_add h ds"
proof -
  have "foldl hostSet_add h ds = h \<union> (norm_domain ` set ds - {[]})"
    by (induction ds arbitrary: h) (auto simp: hostSet_add_eq)
  then show ?thesis by (simp add: addAll_eq)
qed

lemma norm_domain_idem [simp]: "norm_domain (norm_domain d) = norm_domain d"
  by (simp add: norm_domain_def ToLower_Trim_dot)

subsection \<open>The interface of a set of domain rules\<close>

text \<open>
  All the router relies on: an empty set covers nothing and adding a rule adds exactly what the
  rule covers. The order and the repetition of the rules then do not matter.
\<close>

locale domain_rules =
  fixes none :: "'h" and add_rule :: "'h \<Rightarrow> string \<Rightarrow> 'h" and covered :: "'h \<Rightarrow> string \<Rightarrow> bool"
  assumes covered_none: "\<not> covered none d"
    and covered_add: "covered (add_rule h r) d \<longleftrightarrow> covered h d \<or> rule_covers r d"
begin

lemma covered_foldl: "covered (foldl add_rule h rs) d \<longleftrightarrow> covered h d \<or> (\<exists>r \<in> set rs. rule_covers r d)"
  by (induction rs arbitrary: h) (auto simp: covered_add)

lemma covered_loaded: "covered (foldl add_rule none rs) d \<longleftrightarrow> (\<exists>r \<in> set rs. rule_covers r d)"
  by (simp add: covered_foldl covered_none)

lemma covered_order: "set rs = set rs' \<Longrightarrow> covered (foldl add_rule h rs) d = covered (foldl add_rule h rs') d"
  by (simp add: covered_foldl)

end

interpretation hosts: domain_rules newHostSet hostSet_add matchListed
proof
  fix h r d
  show "\<not> matchListed newHostSet d" by (simp add: matchListed_iff newHostSet_def)
  show "matchListed (hostSet_add h r) d \<longleftrightarrow> matchListed h d \<or> rule_covers r d"
    by (auto simp: matchListed_iff hostSet_add_eq rule_covers_def)
qed

lemma rule_covers_Nil [simp]: "\<not> rule_covers r []"
  by (auto simp: rule_covers_def label_suffix_def norm_domain_def [of "[]"] Trim_def TrimFunc_def
      TrimRightFunc_def)

lemma matchListed_addAll:
  "matchListed (addAll h ds) d \<longleftrightarrow> matchListed h d \<or> (\<exists>r \<in> set ds. rule_covers r d)"
  by (simp add: addAll_foldl hosts.covered_foldl)

lemma matchListed_norm [simp]: "matchListed h (norm_domain d) = matchListed h d"
  by (simp add: matchListed_iff)

lemma matchListed_Nil [simp]: "\<not> matchListed h []"
  by (simp add: matchListed_def Trim_def TrimFunc_def TrimRightFunc_def)

section \<open>Literals\<close>

lemma ParseIP_looksLikeIP: "ParseIP s = Some ip \<Longrightarrow> looksLikeIP s"
proof -
  assume "ParseIP s = Some ip"
  then obtain a where a: "ParseAddr s = Some a" by (auto simp: ParseIP_def)
  then consider "CHR '':'' \<in> set s" | "parseIPv4 s = Some a" using ParseAddr_cases by blast
  then show ?thesis
  proof cases
    case 1
    then show ?thesis by (auto simp: looksLikeIP_def IndexByte_None)
  next
    case 2
    from parseIPv4_ends [OF this] show ?thesis by (simp add: looksLikeIP_def)
  qed
qed

lemma decide_target_literal: "ParseIP h = Some a \<Longrightarrow> decide_target h ip = ([], canonicalIP (Some a))"
  by (simp add: decide_target_def ParseIP_looksLikeIP)

lemma decide_target_name: "ParseIP h = None \<Longrightarrow> decide_target h ip = (h, canonicalIP ip)"
  by (simp add: decide_target_def)

lemma canonicalIP_idem [simp]: "canonicalIP (canonicalIP ip) = canonicalIP ip"
  by (auto simp: canonicalIP_def To4_idem split: option.splits)

lemma canonicalIP_mapped: "length v4 = 4 \<Longrightarrow> canonicalIP (Some (v4InV6Prefix @ v4)) = canonicalIP (Some v4)"
  by (simp add: canonicalIP_def)

lemma ParseIP_Nil [simp]: "ParseIP [] = None"
  by (simp add: ParseIP_def ParseAddr_def)

lemma decide_target_canonical: "decide_target h (canonicalIP ip) = decide_target h ip"
  by (simp add: decide_target_def split: option.splits)

lemma Decide_canonical: "Decide geo r h (canonicalIP ip) = Decide geo r h ip"
  by (simp add: Decide_def decide_target_canonical)

section \<open>The rule list as a table\<close>

definition effective :: "Rule \<Rightarrow> (string \<times> string) option" where
  "effective raw = map_option (\<lambda>r. (Value r, Action r)) (norm_row raw)"

definition policy_table :: "Rule list \<Rightarrow> (string \<times> string) list" where
  "policy_table rules = foldl (\<lambda>m (v, a). AList.update v a m) [] (List.map_filter effective rules)"

lemma ToLower_norm_value [simp]: "ToLower (norm_value v) = norm_value v"
proof -
  have "lower_char CHR ''.'' = CHR ''.''" by simp
  then show ?thesis by (simp add: norm_value_def Let_def ToLower_Trim_dot del: lower_char_dot)
qed

lemma norm_row_Some:
  "norm_row raw = Some rule \<Longrightarrow> Kind rule = ''domain'' \<and> ToLower (Value rule) = Value rule \<and>
     (Action rule = ''proxy'' \<or> Action rule = ''direct'') \<and> Value rule \<noteq> []"
  by (auto simp: norm_row_def Let_def split: if_splits)

definition norm_inv :: "(string \<times> nat) list \<times> Rule list \<Rightarrow> bool" where
  "norm_inv st \<longleftrightarrow>
     (\<forall>r \<in> set (snd st). Kind r = ''domain'' \<and> ToLower (Value r) = Value r) \<and>
     distinct (map Value (snd st)) \<and>
     (\<forall>k i. map_of (fst st) k = Some i \<longrightarrow> i < length (snd st) \<and> rule_key (snd st ! i) = k) \<and>
     (\<forall>i < length (snd st). map_of (fst st) (rule_key (snd st ! i)) = Some i)"

lemma rule_key_inj:
  "norm_row raw = Some rule \<Longrightarrow> Kind r = ''domain'' \<Longrightarrow> ToLower (Value r) = Value r \<Longrightarrow>
     rule_key rule = rule_key r \<longleftrightarrow> Value rule = Value r"
  using norm_row_Some [of raw rule] by (simp add: rule_key_def)

lemma norm_step_inv:
  assumes inv: "norm_inv (seen, out)"
  shows "norm_inv (norm_step (seen, out) raw) \<and>
    map (\<lambda>r. (Value r, Action r)) (snd (norm_step (seen, out) raw)) =
      (case effective raw of None \<Rightarrow> map (\<lambda>r. (Value r, Action r)) out
       | Some (v, a) \<Rightarrow> AList.update v a (map (\<lambda>r. (Value r, Action r)) out))"
proof (cases "norm_row raw")
  case None
  with inv show ?thesis by (simp add: norm_step_def effective_def)
next
  case (Some rule)
  let ?tab = "map (\<lambda>r. (Value r, Action r)) out"
  note row = norm_row_Some [OF Some]
  have keys: "rule_key rule = rule_key r \<longleftrightarrow> Value rule = Value r" if "r \<in> set out" for r
    using inv that rule_key_inj [OF Some] by (simp add: norm_inv_def)
  have dist: "distinct (map fst ?tab)" using inv by (simp add: norm_inv_def comp_def)
  show ?thesis
  proof (cases "map_of seen (rule_key rule)")
    case None
    have "Value rule \<notin> Value ` set out"
    proof
      assume "Value rule \<in> Value ` set out"
      then obtain i where "i < length out" "rule_key rule = rule_key (out ! i)"
        using keys by (metis imageE in_set_conv_nth)
      with inv None show False by (simp add: norm_inv_def)
    qed
    define rule' where "rule' = rule\<lparr>ruleID := (if ruleID rule = [] then default_id rule else ruleID rule)\<rparr>"
    have step: "norm_step (seen, out) raw = ((rule_key rule, length out) # seen, out @ [rule'])"
      using Some None by (simp add: norm_step_def rule'_def)
    have r': "rule_key rule' = rule_key rule" "Value rule' = Value rule" "Kind rule' = Kind rule"
      "Action rule' = Action rule"
      by (simp_all add: rule'_def rule_key_def)
    have other: "rule_key (out ! i) \<noteq> rule_key rule" if "i < length out" for i
    proof
      assume "rule_key (out ! i) = rule_key rule"
      moreover have "map_of seen (rule_key (out ! i)) = Some i" using that inv by (simp add: norm_inv_def)
      ultimately show False using None by simp
    qed
    have "norm_inv ((rule_key rule, length out) # seen, out @ [rule'])"
      unfolding norm_inv_def
    proof (intro conjI allI impI)
      fix k i assume "map_of (fst ((rule_key rule, length out) # seen, out @ [rule'])) k = Some i"
      then have "k = rule_key rule \<and> i = length out \<or> map_of seen k = Some i"
        by (simp split: if_splits)
      then show "i < length (snd ((rule_key rule, length out) # seen, out @ [rule']))"
        and "rule_key (snd ((rule_key rule, length out) # seen, out @ [rule']) ! i) = k"
        using inv r'(1) by (auto simp: norm_inv_def nth_append less_Suc_eq)
    next
      fix i assume "i < length (snd ((rule_key rule, length out) # seen, out @ [rule']))"
      then consider "i = length out" | "i < length out" by fastforce
      then show "map_of (fst ((rule_key rule, length out) # seen, out @ [rule']))
          (rule_key (snd ((rule_key rule, length out) # seen, out @ [rule']) ! i)) = Some i"
        using inv other by cases (simp_all add: nth_append r'(1) norm_inv_def)
    qed (use inv row r' \<open>Value rule \<notin> Value ` set out\<close> in \<open>auto simp: norm_inv_def\<close>)
    moreover have "AList.update (Value rule) (Action rule) ?tab = ?tab @ [(Value rule, Action rule)]"
      by (rule AList_update_notin) (use \<open>Value rule \<notin> Value ` set out\<close> in force)
    ultimately show ?thesis using Some r' by (simp add: step effective_def)
  next
    case idx: (Some idx)
    with inv have i: "idx < length out" "rule_key (out ! idx) = rule_key rule"
      by (auto simp: norm_inv_def)
    with keys have v: "Value (out ! idx) = Value rule" by (metis nth_mem)
    have upd: "AList.update (Value rule) (Action rule) ?tab = ?tab[idx := (Value rule, Action rule)]"
      by (rule AList_update_at [OF dist]) (simp_all add: i v)
    define rule' where "rule' = rule\<lparr>ruleID := (if ruleID rule = [] then ruleID (out ! idx) else ruleID rule),
        Builtin := (Builtin (out ! idx) \<or> Builtin rule)\<rparr>"
    have step: "norm_step (seen, out) raw = (seen, out[idx := rule'])"
      using Some idx by (simp add: norm_step_def rule'_def)
    have r': "rule_key rule' = rule_key rule" "Value rule' = Value rule" "Kind rule' = Kind rule"
      "Action rule' = Action rule"
      by (simp_all add: rule'_def rule_key_def)
    have vals: "map Value (out[idx := rule']) = map Value out"
      using v i by (simp add: map_update list_update_same_conv r')
    have rk: "rule_key (out[idx := rule'] ! j) = rule_key (out ! j)" if "j < length out" for j
      using i that by (cases "j = idx") (simp_all add: r')
    have "r = rule' \<or> r \<in> set out" if "r \<in> set (out[idx := rule'])" for r
      using that set_update_subset_insert [of out idx rule'] by auto
    then have "norm_inv (seen, out[idx := rule'])"
      using inv row r' vals rk unfolding norm_inv_def by (metis fst_conv length_list_update snd_conv)
    then show ?thesis using Some r' by (simp add: step effective_def upd map_update)
  qed
qed

lemma NormalizeRules_inv:
  "norm_inv (foldl norm_step ([], []) rules) \<and>
   map (\<lambda>r. (Value r, Action r)) (NormalizeRules rules) = policy_table rules"
proof (induction rules rule: rev_induct)
  case Nil
  then show ?case by (simp add: norm_inv_def NormalizeRules_def policy_table_def List.map_filter_simps)
next
  case (snoc raw rules)
  obtain seen out where st: "foldl norm_step ([], []) rules = (seen, out)" by fastforce
  with snoc have inv: "norm_inv (seen, out)"
    and tab: "map (\<lambda>r. (Value r, Action r)) out = policy_table rules"
    by (simp_all add: NormalizeRules_def)
  from norm_step_inv [OF inv, of raw] show ?case
    by (auto simp: st NormalizeRules_def policy_table_def tab [symmetric] List.map_filter_def
        tab [unfolded policy_table_def] split: option.splits)
qed

section \<open>Routers built from options\<close>

text \<open>The rules a set of options loads, in the order of the source.\<close>

definition file_rules :: "RouterEnv \<Rightarrow> string list \<Rightarrow> string list" where
  "file_rules env fs =
     concat (map (\<lambda>f. case readLines env f of None \<Rightarrow> [] | Some (ts, _) \<Rightarrow> List.map_filter domain_of_line ts) fs)"

definition direct_rules :: "RouterEnv \<Rightarrow> Options \<Rightarrow> string list" where
  "direct_rules env opt =
     (if DisableBuiltin opt then [] else DefaultChinaMainDomains env @ DefaultDirectTLDs env) @
     DirectDomains opt @ file_rules env (ChinaDomainFiles opt)"

definition proxy_rules :: "RouterEnv \<Rightarrow> Options \<Rightarrow> string list" where
  "proxy_rules env opt = ProxyDomains opt @ file_rules env (GFWDomainFiles opt)"

lemma file_rules_Nil [simp]: "file_rules env [] = []"
  by (simp add: file_rules_def)

lemma file_rules_Cons: "file_rules env (f # fs) = file_rules env [f] @ file_rules env fs"
  by (simp add: file_rules_def)

lemma LoadDomainFile_hosts [simp]:
  "directHosts (fst (LoadDomainFile env f True r)) = addAll (directHosts r) (file_rules env [f])"
  "proxyHosts (fst (LoadDomainFile env f True r)) = proxyHosts r"
  "directHosts (fst (LoadDomainFile env f False r)) = directHosts r"
  "proxyHosts (fst (LoadDomainFile env f False r)) = addAll (proxyHosts r) (file_rules env [f])"
  by (auto simp: LoadDomainFile_def file_rules_def Let_def addAll_eq split: option.splits)

lemma load_files_direct:
  "matchListed (directHosts (foldl (\<lambda>r f. fst (LoadDomainFile env f True r)) r fs)) d \<longleftrightarrow>
     matchListed (directHosts r) d \<or> (\<exists>x \<in> set (file_rules env fs). rule_covers x d)"
proof (induction fs arbitrary: r)
  case (Cons f fs)
  then show ?case by (auto simp: matchListed_addAll file_rules_Cons [of env f fs])
qed simp

lemma load_files_direct_other [go_frame]:
  "proxyHosts (foldl (\<lambda>r f. fst (LoadDomainFile env f True r)) r fs) = proxyHosts r"
  by (induction fs arbitrary: r) simp_all

lemma load_files_proxy:
  "matchListed (proxyHosts (foldl (\<lambda>r f. fst (LoadDomainFile env f False r)) r fs)) d \<longleftrightarrow>
     matchListed (proxyHosts r) d \<or> (\<exists>x \<in> set (file_rules env fs). rule_covers x d)"
proof (induction fs arbitrary: r)
  case (Cons f fs)
  then show ?case by (auto simp: matchListed_addAll file_rules_Cons [of env f fs])
qed simp

lemma load_files_proxy_other [go_frame]:
  "directHosts (foldl (\<lambda>r f. fst (LoadDomainFile env f False r)) r fs) = directHosts r"
  by (induction fs arbitrary: r) simp_all

lemma NewRouterWithOptions_rules:
  "ShouldDirectDomain (NewRouterWithOptions env opt) d \<longleftrightarrow> (\<exists>x \<in> set (direct_rules env opt). rule_covers x d)"
  "ShouldProxyDomain (NewRouterWithOptions env opt) d \<longleftrightarrow> (\<exists>x \<in> set (proxy_rules env opt). rule_covers x d)"
  by (auto simp: NewRouterWithOptions_def Let_def ShouldDirectDomain_def ShouldProxyDomain_def
      loadDirectCIDRs_def load_files_direct load_files_proxy go_frame matchListed_addAll hosts.covered_none
      direct_rules_def proxy_rules_def)

lemma apply_rules:
  "ShouldProxyDomain (foldl apply_rule r rs) d \<longleftrightarrow>
     ShouldProxyDomain r d \<or> (\<exists>x \<in> set rs. Action x = ''proxy'' \<and> rule_covers (Value x) d)"
  "ShouldDirectDomain (foldl apply_rule r rs) d \<longleftrightarrow>
     ShouldDirectDomain r d \<or> (\<exists>x \<in> set rs. Action x \<noteq> ''proxy'' \<and> rule_covers (Value x) d)"
  "directIPs (foldl apply_rule r rs) = directIPs r"
  by (induction rs arbitrary: r)
    (auto simp: apply_rule_def ShouldProxyDomain_def ShouldDirectDomain_def AddProxyDomain_def
      AddDirectDomain_def hosts.covered_add)

section \<open>Properties\<close>

text \<open>C2. A domain matches a set of loaded suffix rules exactly when one of the rules, lower-cased
  and without outer dots, is the domain or a suffix of it at a label boundary; the index loop of
  \<^verbatim>\<open>matchListed\<close> finds a match if and only if there is one, and the case, the outer dots, the order
  and the repetition of the rules do not matter.\<close>

theorem matchListed_spec:
  "matchListed (addAll newHostSet rules) domain \<longleftrightarrow> (\<exists>r \<in> set rules. rule_covers r domain)"
  by (simp add: addAll_foldl hosts.covered_loaded)

text \<open>C1. The routing decision on a host name with a router built from options: the name goes
  direct exactly when a direct rule (built-in, configured, or read from a direct list file)
  covers it and no proxy rule (configured or read from a proxy list file) does; a proxy rule
  overrides every direct rule.\<close>

theorem Decide_name:
  assumes "ParseIP host = None"
  shows "Decide geo (NewRouterWithOptions env opt) host None = Direct \<longleftrightarrow>
    (\<exists>x \<in> set (direct_rules env opt). rule_covers x host) \<and>
    \<not> (\<exists>x \<in> set (proxy_rules env opt). rule_covers x host)"
proof -
  have "rule_covers x host \<Longrightarrow> host \<noteq> []" for x
    by auto
  then show ?thesis
    by (auto simp: Decide_def decide_target_name [OF assms] NewRouterWithOptions_rules canonicalIP_def)
qed

theorem Decide_name_witness:
  "Decide (\<lambda>_. None)
     (NewRouterWithOptions
        \<lparr>DefaultChinaMainDomains = [''baidu.com''], DefaultDirectTLDs = [''.cn''], DefaultReservedCIDRs = [],
         geoOpen = \<lambda>_. False, osStat = \<lambda>_. False, readLines = \<lambda>_. None\<rparr>
        \<lparr>DirectDomains = [], ProxyDomains = [''map.baidu.com''], DirectCIDRs = [], DisableBuiltin = False,
         GeoIPFile = [], ChinaDomainFiles = [], GFWDomainFiles = [], SkipCountry = []\<rparr>)
     ''www.Baidu.com.'' None = Direct"
proof -
  have p: "ParseIP ''www.Baidu.com.'' = None" by code_simp
  have "rule_covers ''baidu.com'' ''www.Baidu.com.''"
  proof -
    have "norm_domain ''www.Baidu.com.'' = ''www'' @ CHR ''.'' # norm_domain ''baidu.com''" by code_simp
    moreover have "norm_domain ''baidu.com'' \<noteq> []" by code_simp
    ultimately show ?thesis unfolding rule_covers_def label_suffix_def by blast
  qed
  moreover have "\<not> rule_covers ''map.baidu.com'' ''www.Baidu.com.''"
  proof -
    have "\<not> matchListed (addAll newHostSet [''map.baidu.com'']) ''www.Baidu.com.''" by code_simp
    then show ?thesis by (simp add: addAll_foldl hosts.covered_add)
  qed
  ultimately show ?thesis
    unfolding Decide_name [OF p] by (simp add: direct_rules_def proxy_rules_def file_rules_def)
qed

text \<open>The complete decision: after an IP literal has been recognised, \<open>Decide\<close> answers Direct
  exactly when no proxy rule matches the name and either a direct rule does, or the destination
  address lies in a direct range, or the GeoIP country of the address is one of the skipped ones.\<close>

theorem Decide_Direct_iff:
  "Decide geo r destHost destIP = Direct \<longleftrightarrow>
     (\<exists>host ip. decide_target destHost destIP = (host, ip) \<and> \<not> matchListed (proxyHosts r) host \<and>
        (matchListed (directHosts r) host \<or>
         (\<exists>a. ip = Some a \<and>
            ((\<exists>l. directIPs r = Some l \<and> (\<exists>n \<in> set l. IPNet_Contains n a)) \<or>
             (geoDB r \<and> (\<exists>code \<in> skipCountries r. code \<noteq> [] \<and> geo a = Some code))))))"
proof -
  obtain host ip where t: "decide_target destHost destIP = (host, ip)" by fastforce
  have canon: "canonicalIP ip = ip"
  proof -
    have "ip = canonicalIP x" if "(host, ip) = (h, canonicalIP x)" for h x using that by simp
    with t show ?thesis by (auto simp: decide_target_def split: if_splits option.splits)
  qed
  have direct: "ShouldDirectIP r (Some a) \<longleftrightarrow> (\<exists>l. directIPs r = Some l \<and> (\<exists>n \<in> set l. IPNet_Contains n a))"
    if "ip = Some a" for a
    using canon that by (simp add: ShouldDirectIP_def IPNetList_Contains_def list_ex_iff split: option.splits)
  show ?thesis
    using direct
    by (auto simp: Decide_def t ShouldProxyDomain_def ShouldDirectDomain_def split: option.splits)
qed

text \<open>The cheap filter in front of the IP parser has no false negative: whatever the parser
  accepts as an address passes \<open>looksLikeIP\<close>, so an address literal is never routed as a name.\<close>

theorem looksLikeIP_complete: "ParseIP s \<noteq> None \<Longrightarrow> looksLikeIP s"
  by (auto dest: ParseIP_looksLikeIP)

theorem looksLikeIP_complete_witness:
  "ParseIP ''10.0.0.1'' \<noteq> None \<and> looksLikeIP ''10.0.0.1'' \<and> ParseIP ''2001:db8::1'' \<noteq> None \<and> looksLikeIP ''2001:db8::1''"
proof -
  have "ParseIP ''10.0.0.1'' \<noteq> None" "ParseIP ''2001:db8::1'' \<noteq> None" by code_simp+
  then show ?thesis using looksLikeIP_complete by blast
qed



text \<open>Adding the range \<open>a.b.c.d/n\<close> extends the direct addresses by exactly the IPv4 addresses
  (in either byte form) whose first \<open>n\<close> bits are those of \<open>a.b.c.d\<close>.\<close>

theorem AddDirectCIDR_prefix:
  assumes "length a = 4" "n \<le> 32" "directIPs r = Some l"
  shows "\<exists>r'. AddDirectCIDR r (v4_String a @ ''/'' @ dec_digits n) = Returned r' \<and>
    (\<forall>ip. ShouldDirectIP r' (Some ip) \<longleftrightarrow> ShouldDirectIP r (Some ip) \<or>
       (\<exists>v4. To4 ip = Some v4 \<and> (\<forall>i < n. addr_bit v4 i = addr_bit a i)))"
proof -
  let ?net = "\<lparr>netIP = and_bytes a (CIDRMask n 32), netMask = CIDRMask n 32\<rparr>"
  let ?r' = "r\<lparr>directIPs := Some (l @ [?net])\<rparr>"
  have "AddDirectCIDR r (v4_String a @ ''/'' @ dec_digits n) = Returned ?r'"
    using assms by (simp add: AddDirectCIDR_def ParseCIDR_v4 del: append.simps)
  moreover have "ShouldDirectIP ?r' (Some ip) \<longleftrightarrow> ShouldDirectIP r (Some ip) \<or>
      (\<exists>v4. To4 ip = Some v4 \<and> (\<forall>i < n. addr_bit v4 i = addr_bit a i))" for ip
    using assms IPNet_Contains_v4 [OF assms(1,2), of ip] IPNet_Contains_To4 [of ?net ip]
    by (auto simp: ShouldDirectIP_def IPNetList_Contains_def canonicalIP_def split: option.splits)
  ultimately show ?thesis by blast
qed

theorem AddDirectCIDR_prefix_witness:
  "let r = NewRouter \<lparr>DefaultChinaMainDomains = [], DefaultDirectTLDs = [], DefaultReservedCIDRs = [],
             geoOpen = \<lambda>_. False, osStat = \<lambda>_. False, readLines = \<lambda>_. None\<rparr>
   in \<exists>r'. AddDirectCIDR r ''10.16.0.0/12'' = Returned r' \<and> ShouldDirectIP r' (Some [10, 31, 255, 0]) \<and>
           \<not> ShouldDirectIP r' (Some [10, 32, 0, 0])"
proof -
  let ?r = "NewRouter \<lparr>DefaultChinaMainDomains = [], DefaultDirectTLDs = [], DefaultReservedCIDRs = [],
             geoOpen = \<lambda>_. False, osStat = \<lambda>_. False, readLines = \<lambda>_. None\<rparr>"
  have t: "v4_String [10, 16, 0, 0] @ ''/'' @ dec_digits 12 = ''10.16.0.0/12''" by code_simp
  have l: "directIPs ?r = Some []" by code_simp
  obtain r' where r': "AddDirectCIDR ?r ''10.16.0.0/12'' = Returned r'"
    and iff: "\<And>ip. ShouldDirectIP r' (Some ip) \<longleftrightarrow> ShouldDirectIP ?r (Some ip) \<or>
       (\<exists>v4. To4 ip = Some v4 \<and> (\<forall>i < 12. addr_bit v4 i = addr_bit [10, 16, 0, 0] i))"
    using AddDirectCIDR_prefix [of "[10, 16, 0, 0]" 12, OF _ _ l] unfolding t by auto
  have none: "\<not> ShouldDirectIP ?r (Some ip)" for ip
    using l by (simp add: ShouldDirectIP_def IPNetList_Contains_def split: option.splits)
  have "\<forall>i \<in> set [0..<12]. addr_bit [10, 31, 255, 0] i = addr_bit [10, 16, 0, 0] i" by code_simp
  then have "ShouldDirectIP r' (Some [10, 31, 255, 0])" by (simp add: iff)
  moreover have "addr_bit [10, 32, 0, 0] 10 \<noteq> addr_bit [10, 16, 0, 0] 10" by code_simp
  then have "\<not> ShouldDirectIP r' (Some [10, 32, 0, 0])" by (auto simp: iff none To4_def intro!: exI [of _ 10])
  ultimately show ?thesis using r' unfolding Let_def by blast
qed

text \<open>C31. \<open>NormalizeRules\<close> refines an ordered table from values to actions: reading off value and
  action, its output is the table obtained by inserting the normalised rows one after the other,
  so there is one row per value, the later row wins, and a row keeps the place of the first.\<close>

theorem NormalizeRules_refines:
  "map (\<lambda>r. (Value r, Action r)) (NormalizeRules rules) = policy_table rules \<and>
   distinct (map Value (NormalizeRules rules)) \<and>
   list_all (\<lambda>r. Kind r = ''domain'') (NormalizeRules rules)"
  using NormalizeRules_inv [of rules] by (auto simp: norm_inv_def NormalizeRules_def list_all_iff)

text \<open>\<open>SetPolicy\<close> replaces the domain rules by the normalised rows and nothing else: afterwards
  a domain is proxied (routed direct) by the rules exactly when a row of the table with action
  proxy (another action) covers it, and the direct ranges are as before.\<close>

theorem SetPolicy_rules:
  "(ShouldProxyDomain (SetPolicy r rules) d \<longleftrightarrow>
      (\<exists>v. (v, ''proxy'') \<in> set (policy_table rules) \<and> rule_covers v d)) \<and>
   (ShouldDirectDomain (SetPolicy r rules) d \<longleftrightarrow>
      (\<exists>v a. (v, a) \<in> set (policy_table rules) \<and> a \<noteq> ''proxy'' \<and> rule_covers v d)) \<and>
   directIPs (SetPolicy r rules) = directIPs r"
proof -
  have tab: "set (policy_table rules) = (\<lambda>x. (Value x, Action x)) ` set (NormalizeRules rules)"
    using NormalizeRules_inv [of rules] by (metis set_map)
  have empty: "hostSet_reset h = newHostSet" for h by (simp add: hostSet_reset_def newHostSet_def)
  show ?thesis
    unfolding SetPolicy_def apply_rules tab
    by (simp add: empty ShouldProxyDomain_def ShouldDirectDomain_def hosts.covered_none image_iff
        eq_commute [of "''proxy''"]) blast
qed

section \<open>Findings\<close>

text \<open>The rule list promises that the later row wins. A suffix with and without its leading dot are
  two rows of the list and one rule of the router, and there the proxy row wins whatever the
  order: here the later row asks for a direct connection and the name is proxied.\<close>

theorem SetPolicy_leading_dot:
  "let rules = [\<lparr>ruleID = [], Kind = ''domain'', Value = ''.cn'', Action = ''proxy'', Builtin = False\<rparr>,
                \<lparr>ruleID = [], Kind = ''domain'', Value = ''cn'', Action = ''direct'', Builtin = False\<rparr>];
       r = NewRouter \<lparr>DefaultChinaMainDomains = [], DefaultDirectTLDs = [], DefaultReservedCIDRs = [],
             geoOpen = \<lambda>_. False, osStat = \<lambda>_. False, readLines = \<lambda>_. None\<rparr>
   in length (NormalizeRules rules) = 2 \<and> Decide (\<lambda>_. None) (SetPolicy r rules) ''www.example.cn'' None = Proxy"
  by code_simp

end
