(* ===== verification/Stats_Data.thy ===== *)
theory Stats_Data
  imports Go_Prelude
begin

text \<open>
  Package \<^verbatim>\<open>core/stats\<close>, the data: counters, history buckets, per-domain and per-node rows,
  sessions, and the collector that owns them all. The theories \<open>Stats_History\<close>,
  \<open>Stats_Collector\<close>, \<open>Stats_Views\<close> and \<open>Stats_Persist\<close> hold the operations.

  The maps of the collector are association lists with distinct keys. A \<^verbatim>\<open>*Session\<close> is its id:
  \<open>sessions\<close> is the store of every session created so far and \<open>active\<close> the keys of the map of
  the same name, so that a session that has ended can still be used, as the pointer can. The
  capacity of the slice \<^verbatim>\<open>buckets\<close> is the field \<open>bcap\<close>. Clock readings are arguments; an
  operation that reads the clock several times reads one instant. Formatted times are kept as
  the instant that is formatted. Nil collectors and nil sessions, on which every method of the
  source returns at once, are not represented.
\<close>

section \<open>Constants\<close>

definition DefaultHistoryMinutes :: int where "DefaultHistoryMinutes = 1440"
definition DefaultBucketInterval :: duration where "DefaultBucketInterval = 60000000000"
definition DefaultSaveInterval :: duration where "DefaultSaveInterval = 60000000000"
definition DefaultDomainLimit :: int where "DefaultDomainLimit = 3000"
definition DefaultErrorLimit :: int where "DefaultErrorLimit = 200"
definition rateSlots :: int where "rateSlots = 60"
definition maxSeriesPoints :: int where "maxSeriesPoints = 2000"
definition flushThreshold :: int where "flushThreshold = 1048576"
definition minRateSample :: duration where "minRateSample = 500000000"

section \<open>Rows\<close>

datatype Proto = ProtoSOCKS5 | ProtoHTTP | ProtoUDP | ProtoDNS

fun Proto_string :: "Proto \<Rightarrow> string" where
  "Proto_string ProtoSOCKS5 = ''socks5''"
| "Proto_string ProtoHTTP = ''http''"
| "Proto_string ProtoUDP = ''udp''"
| "Proto_string ProtoDNS = ''dns''"

datatype Decision = DecisionDirect | DecisionProxy | DecisionNone

fun Decision_string :: "Decision \<Rightarrow> string" where
  "Decision_string DecisionDirect = ''direct''"
| "Decision_string DecisionProxy = ''proxy''"
| "Decision_string DecisionNone = ''''"

record Counters =
  cUpload :: int
  cDownload :: int
  cConns :: int
  cErrors :: int

definition zero_counters :: Counters where
  "zero_counters = \<lparr>cUpload = 0, cDownload = 0, cConns = 0, cErrors = 0\<rparr>"

definition Counters_Total :: "Counters \<Rightarrow> int" where
  "Counters_Total c = cUpload c + cDownload c"

definition addUpload :: "int \<Rightarrow> Counters \<Rightarrow> Counters" where
  "addUpload n c = c\<lparr>cUpload := cUpload c + n\<rparr>"

definition addDownload :: "int \<Rightarrow> Counters \<Rightarrow> Counters" where
  "addDownload n c = c\<lparr>cDownload := cDownload c + n\<rparr>"

record Bucket =
  bT :: int
  bUpload :: int
  bDownload :: int
  bConns :: int
  bErrors :: int
  bDirectUpload :: int
  bDirectDownload :: int
  bProxyUpload :: int
  bProxyDownload :: int
  bDirectConns :: int
  bProxyConns :: int
  bDNSQueries :: int

definition new_bucket :: "int \<Rightarrow> Bucket" where
  "new_bucket t = \<lparr>bT = t, bUpload = 0, bDownload = 0, bConns = 0, bErrors = 0, bDirectUpload = 0,
     bDirectDownload = 0, bProxyUpload = 0, bProxyDownload = 0, bDirectConns = 0, bProxyConns = 0,
     bDNSQueries = 0\<rparr>"

record DomainStat =
  dDomain :: string
  dUpload :: int
  dDownload :: int
  dConns :: int
  dDirectConns :: int
  dProxyConns :: int
  dErrors :: int
  dLastSeen :: int

definition new_domain :: "string \<Rightarrow> DomainStat" where
  "new_domain h = \<lparr>dDomain = h, dUpload = 0, dDownload = 0, dConns = 0, dDirectConns = 0,
     dProxyConns = 0, dErrors = 0, dLastSeen = 0\<rparr>"

definition DomainStat_Total :: "DomainStat \<Rightarrow> int" where
  "DomainStat_Total d = dUpload d + dDownload d"

record NodeStat =
  nName :: string
  nUpload :: int
  nDownload :: int
  nConns :: int
  nLastSeen :: int

definition new_node :: "string \<Rightarrow> NodeStat" where
  "new_node name = \<lparr>nName = name, nUpload = 0, nDownload = 0, nConns = 0, nLastSeen = 0\<rparr>"

record ErrorEntry =
  eT :: int
  eTime :: instant
  eScope :: string
  eHost :: string
  eMessage :: string

record Rate =
  rUpload :: int
  rDownload :: int

record DNSStat =
  qQueries :: int
  qCacheHits :: int
  qFailures :: int
  qDirect :: int
  qDoH :: int
  qByType :: "(string \<times> int) list"
  qByUpstream :: "(string \<times> int) list"
  qTopDomains :: "DomainStat list"

definition zero_dns :: DNSStat where
  "zero_dns = \<lparr>qQueries = 0, qCacheHits = 0, qFailures = 0, qDirect = 0, qDoH = 0, qByType = [],
     qByUpstream = [], qTopDomains = []\<rparr>"

section \<open>Sessions\<close>

record Session =
  sId :: int
  sProto :: Proto
  sClient :: string
  sHost :: string
  sPort :: int
  sDecision :: Decision
  sNode :: "string option"
  sStart :: instant
  sUpload :: int
  sDownload :: int
  sPendingUp :: int
  sPendingDown :: int
  sDone :: bool
  sRateAt :: "instant option"
  sRateUp :: int
  sRateDown :: int
  sCurUpBps :: int
  sCurDownBps :: int

section \<open>The collector\<close>

record Config =
  HistoryMinutes :: int
  BucketInterval :: duration
  File :: string
  SaveInterval :: duration
  DomainLimit :: int
  ErrorLimit :: int

record Collector =
  cfg :: Config
  start :: instant
  sessions :: "(int \<times> Session) list"
  active :: "int list"
  totals :: Counters
  direct :: Counters
  proxy :: Counters
  dns :: DNSStat
  dnsNames :: "(string \<times> DomainStat) list"
  domains :: "(string \<times> DomainStat) list"
  nodes :: "(string \<times> NodeStat) list"
  errs :: "ErrorEntry list"
  buckets :: "Bucket list"
  bcap :: nat
  head :: nat
  cur :: Bucket
  rateSec :: int
  rateUp :: "int list"
  rateDown :: "int list"
  peakUp :: int
  peakDown :: int
  nextID :: int

definition default_config :: "Config \<Rightarrow> Config" where
  "default_config g = g
     \<lparr>HistoryMinutes := (if HistoryMinutes g \<le> 0 then DefaultHistoryMinutes else HistoryMinutes g),
      BucketInterval := (if BucketInterval g \<le> 0 then DefaultBucketInterval else BucketInterval g),
      DomainLimit := (if DomainLimit g \<le> 0 then DefaultDomainLimit else DomainLimit g),
      ErrorLimit := (if ErrorLimit g \<le> 0 then DefaultErrorLimit else ErrorLimit g)\<rparr>"

text \<open>The number of whole seconds of an interval, as \<open>alignUnix\<close> and \<open>rotateLocked\<close> compute it.\<close>

definition interval_secs :: "duration \<Rightarrow> int" where
  "interval_secs interval = (let secs = interval sdiv 1000000000 in if secs \<le> 0 then 60 else secs)"

definition alignUnix :: "int \<Rightarrow> duration \<Rightarrow> int" where
  "alignUnix t interval = (let secs = interval_secs interval in (t sdiv secs) * secs)"

text \<open>\<^verbatim>\<open>New\<close> up to the loading of a snapshot, which \<open>Stats_Persist\<close> adds.\<close>

definition New_collector :: "instant \<Rightarrow> Config \<Rightarrow> Collector" where
  "New_collector now g0 =
     (let g = default_config g0 in
      \<lparr>cfg = g, start = now, sessions = [], active = [], totals = zero_counters,
       direct = zero_counters, proxy = zero_counters, dns = zero_dns, dnsNames = [], domains = [],
       nodes = [], errs = [], buckets = [], bcap = nat (HistoryMinutes g), head = 0,
       cur = new_bucket (alignUnix (Unix now) (BucketInterval g)), rateSec = Unix now,
       rateUp = replicate 60 0, rateDown = replicate 60 0, peakUp = 0, peakDown = 0, nextID = 0\<rparr>)"

section \<open>Lemmas\<close>

lemmas stats_consts = DefaultHistoryMinutes_def DefaultBucketInterval_def DefaultSaveInterval_def
  DefaultDomainLimit_def DefaultErrorLimit_def rateSlots_def maxSeriesPoints_def flushThreshold_def
  minRateSample_def

lemma interval_secs_pos [simp]: "0 < interval_secs i"
  by (simp add: interval_secs_def Let_def)

lemma interval_secs_nonneg [simp]: "0 \<le> interval_secs i" "interval_secs i \<noteq> 0"
  using interval_secs_pos [of i] by linarith+

lemma alignUnix_nonneg: "0 \<le> t \<Longrightarrow> alignUnix t i = t div interval_secs i * interval_secs i"
  by (simp add: alignUnix_def Let_def)

lemma alignUnix_dvd [simp]: "interval_secs i dvd alignUnix t i"
  by (simp add: alignUnix_def Let_def)

lemma alignUnix_le: "0 \<le> t \<Longrightarrow> alignUnix t i \<le> t"
  unfolding alignUnix_nonneg minus_mod_eq_div_mult [symmetric]
  using pos_mod_sign [OF interval_secs_pos, of t i] by linarith

lemma alignUnix_gt: "0 \<le> t \<Longrightarrow> t < alignUnix t i + interval_secs i"
  unfolding alignUnix_nonneg minus_mod_eq_div_mult [symmetric]
  using pos_mod_bound [OF interval_secs_pos, of t i] by linarith

lemma alignUnix_ge_0: "0 \<le> t \<Longrightarrow> 0 \<le> alignUnix t i"
  by (simp add: alignUnix_nonneg pos_imp_zdiv_nonneg_iff)

lemma alignUnix_pos:
  assumes "interval_secs i \<le> t"
  shows "0 < alignUnix t i"
proof -
  have "0 \<le> t" using assms interval_secs_pos [of i] by linarith
  moreover have "0 < t div interval_secs i" using assms by (simp add: pos_imp_zdiv_pos_iff)
  ultimately show ?thesis by (simp add: alignUnix_nonneg)
qed

lemma alignUnix_idem: "0 \<le> t \<Longrightarrow> interval_secs i dvd t \<Longrightarrow> alignUnix t i = t"
  by (simp add: alignUnix_nonneg)

lemma default_config_pos:
  "0 < HistoryMinutes (default_config g)" "0 < DomainLimit (default_config g)"
  "0 < ErrorLimit (default_config g)" "0 < BucketInterval (default_config g)"
  by (auto simp: default_config_def stats_consts)

end
