(* ===== verification/Stats_History.thy ===== *)
theory Stats_History
  imports Stats_Data
begin

text \<open>
  Package \<^verbatim>\<open>core/stats\<close>, the history: the ring of buckets (\<^verbatim>\<open>pushBucketLocked\<close>,
  \<^verbatim>\<open>orderedBucketsLocked\<close>, \<^verbatim>\<open>rotateLocked\<close>) and the sixty one-second rate slots
  (\<^verbatim>\<open>addRateLocked\<close>, \<^verbatim>\<open>rateLocked\<close>).

  The ring is shown to be a bounded queue that keeps the newest buckets (locale
  \<open>bounded_log\<close>, which the error log of \<open>Stats_Collector\<close> satisfies too), and the rate slots
  to hold the per-second sums of the traffic of the last minute.
\<close>

section \<open>The ring of buckets\<close>

text \<open>With no capacity at all the source would index an empty slice; \<^verbatim>\<open>New\<close> makes the capacity
  positive and \<open>ring_ok\<close> below is kept by every operation.\<close>

definition pushBucketLocked :: "Collector \<Rightarrow> Bucket \<Rightarrow> Collector" where
  "pushBucketLocked c b =
     (if length (buckets c) < bcap c then c\<lparr>buckets := buckets c @ [b]\<rparr>
      else c\<lparr>buckets := (buckets c)[head c := b], head := (head c + 1) mod length (buckets c)\<rparr>)"

definition orderedBucketsLocked :: "Collector \<Rightarrow> Bucket list" where
  "orderedBucketsLocked c =
     (let n = length (buckets c) in
      filter (\<lambda>b. 0 < bT b) (map (\<lambda>i. buckets c ! ((head c + i) mod n)) [0..<n]))"

function rotate_loop :: "int \<Rightarrow> Collector \<Rightarrow> Collector" where
  "rotate_loop want c =
     (if bT (cur c) < want
      then rotate_loop want
             ((pushBucketLocked c (cur c))
               \<lparr>cur := new_bucket (bT (cur c) + interval_secs (BucketInterval (cfg c)))\<rparr>)
      else c)"
  by pat_completeness auto
termination
proof (relation "measure (\<lambda>(want, c). nat (want - bT (cur c)))")
  fix want :: int and c :: Collector
  assume "bT (cur c) < want"
  moreover have "0 < interval_secs (BucketInterval (cfg c))" by simp
  ultimately show "((want, (pushBucketLocked c (cur c))
      \<lparr>cur := new_bucket (bT (cur c) + interval_secs (BucketInterval (cfg c)))\<rparr>), want, c)
    \<in> measure (\<lambda>(want, c). nat (want - bT (cur c)))"
    by (simp add: new_bucket_def)
qed simp

declare rotate_loop.simps [simp del]

definition rotateLocked :: "Collector \<Rightarrow> instant \<Rightarrow> Collector" where
  "rotateLocked c now =
     (let want = alignUnix (Unix now) (BucketInterval (cfg c)) in
      if bT (cur c) = 0 then c\<lparr>cur := (cur c)\<lparr>bT := want\<rparr>\<rparr>
      else rotate_loop want c)"

section \<open>Rate slots\<close>

text \<open>The loop of \<^verbatim>\<open>addRateLocked\<close> over the seconds that have passed, on one of the arrays.\<close>

definition clear_slots :: "int \<Rightarrow> nat \<Rightarrow> int list \<Rightarrow> int list" where
  "clear_slots sec gap slots =
     fold (\<lambda>i a. a[nat ((sec + int i) smod rateSlots) := 0]) [1..<Suc gap] slots"

definition age_slots :: "int \<Rightarrow> int \<Rightarrow> int list \<Rightarrow> int list" where
  "age_slots sec nowSec slots =
     (if sec < nowSec
      then (if rateSlots \<le> nowSec - sec then replicate (nat rateSlots) 0
            else clear_slots sec (nat (nowSec - sec)) slots)
      else slots)"

definition addRateLocked :: "Collector \<Rightarrow> int \<Rightarrow> int \<Rightarrow> int \<Rightarrow> Collector" where
  "addRateLocked c nowSec up down =
     (let us = age_slots (rateSec c) nowSec (rateUp c);
          ds = age_slots (rateSec c) nowSec (rateDown c);
          idx = nat (nowSec smod rateSlots);
          us = us[idx := us ! idx + up];
          ds = ds[idx := ds ! idx + down]
      in c\<lparr>rateSec := nowSec, rateUp := us, rateDown := ds,
           peakUp := (if peakUp c < us ! idx then us ! idx else peakUp c),
           peakDown := (if peakDown c < ds ! idx then ds ! idx else peakDown c)\<rparr>)"

definition rate_index :: "int \<Rightarrow> int \<Rightarrow> nat" where
  "rate_index nowSec i =
     (let idx = (nowSec - i) smod rateSlots in nat (if idx < 0 then idx + rateSlots else idx))"

definition rate_window :: "int \<Rightarrow> int" where
  "rate_window window = (if window \<le> 0 \<or> rateSlots \<le> window then rateSlots - 1 else window)"

definition rateLocked :: "Collector \<Rightarrow> int \<Rightarrow> int \<Rightarrow> Rate" where
  "rateLocked c nowSec window =
     (let w = rate_window window;
          up = sum_list (map (\<lambda>i. rateUp c ! rate_index nowSec i) [1..w]);
          down = sum_list (map (\<lambda>i. rateDown c ! rate_index nowSec i) [1..w])
      in \<lparr>rUpload = up sdiv w, rDownload = down sdiv w\<rparr>)"

section \<open>Bounded logs\<close>

definition last_n :: "nat \<Rightarrow> 'a list \<Rightarrow> 'a list" where
  "last_n n xs = drop (length xs - n) xs"

lemma last_n_simps [simp]:
  "length (last_n n xs) = min n (length xs)" "length xs \<le> n \<Longrightarrow> last_n n xs = xs"
  "last_n n (last_n n xs) = last_n n xs"
  by (simp_all add: last_n_def)

lemma last_n_append_last_n: "last_n n (last_n n xs @ ys) = last_n n (xs @ ys)"
proof (cases "length xs \<le> n")
  case False
  define zs where "zs = last_n n xs"
  obtain ws where xs: "xs = ws @ zs"
    unfolding zs_def last_n_def by (metis append_take_drop_id)
  have "length zs = n" using False by (simp add: zs_def)
  then show ?thesis
    unfolding zs_def [symmetric] by (simp add: xs last_n_def)
qed simp

lemma set_last_n: "set (last_n n xs) \<subseteq> set xs"
  by (simp add: last_n_def set_drop_subset)

lemma sorted_wrt_last_n: "sorted_wrt P xs \<Longrightarrow> sorted_wrt P (last_n n xs)"
  by (simp add: last_n_def sorted_wrt_drop)

text \<open>
  A log of bounded size: pushing keeps the newest entries. Everything a client needs to know of
  the ring of buckets and of the error log follows from these laws.
\<close>

locale bounded_log =
  fixes push :: "'s \<Rightarrow> 'b \<Rightarrow> 's" and contents :: "'s \<Rightarrow> 'b list" and capacity :: "'s \<Rightarrow> nat"
    and ok :: "'s \<Rightarrow> bool"
  assumes push_ok: "ok s \<Longrightarrow> ok (push s b)"
    and push_capacity: "ok s \<Longrightarrow> capacity (push s b) = capacity s"
    and push_contents: "ok s \<Longrightarrow> contents (push s b) = last_n (capacity s) (contents s @ [b])"
    and contents_bounded: "ok s \<Longrightarrow> length (contents s) \<le> capacity s"
begin

lemma pushes_ok: "ok s \<Longrightarrow> ok (foldl push s bs)"
  by (induction bs arbitrary: s) (simp_all add: push_ok)

lemma pushes_capacity: "ok s \<Longrightarrow> capacity (foldl push s bs) = capacity s"
  by (induction bs arbitrary: s) (simp_all add: push_ok push_capacity)

lemma pushes_contents: "ok s \<Longrightarrow> contents (foldl push s bs) = last_n (capacity s) (contents s @ bs)"
proof (induction bs arbitrary: s)
  case Nil
  then show ?case by (simp add: contents_bounded)
next
  case (Cons b bs)
  then show ?case by (simp add: push_ok push_capacity push_contents last_n_append_last_n)
qed

lemma pushes_length: "ok s \<Longrightarrow> length (contents (foldl push s bs)) = min (capacity s) (length (contents s) + length bs)"
  by (simp add: pushes_contents)

end

section \<open>The ring is a bounded log\<close>

definition ring_ok :: "Collector \<Rightarrow> bool" where
  "ring_ok c \<longleftrightarrow> 0 < bcap c \<and> length (buckets c) \<le> bcap c
     \<and> (if length (buckets c) < bcap c then head c = 0 else head c < length (buckets c))"

definition ring :: "Collector \<Rightarrow> Bucket list" where
  "ring c = rotate (head c) (buckets c)"

lemma orderedBucketsLocked_ring: "orderedBucketsLocked c = filter (\<lambda>b. 0 < bT b) (ring c)"
proof -
  have "map (\<lambda>i. buckets c ! ((head c + i) mod length (buckets c))) [0..<length (buckets c)] = ring c"
    by (rule nth_equalityI) (simp_all add: ring_def nth_rotate)
  then show ?thesis by (simp add: orderedBucketsLocked_def Let_def)
qed

lemma rotate_update:
  assumes "h < length xs"
  shows "rotate ((h + 1) mod length xs) (xs[h := b]) = tl (rotate h xs) @ [b]"
proof -
  have r: "rotate ((h + 1) mod length xs) (xs[h := b]) = rotate1 (rotate h (xs[h := b]))"
    by (metis Suc_eq_plus1 length_list_update rotate_Suc rotate_conv_mod)
  have split: "rotate h ys = drop h ys @ take h ys" if "h < length ys" for ys :: "'a list"
    using that by (simp add: rotate_drop_take)
  have "rotate h (xs[h := b]) = b # tl (rotate h xs)"
    using assms by (simp add: split Cons_nth_drop_Suc [symmetric] drop_update_cancel)
  then show ?thesis by (metis r rotate1.simps(2))
qed

lemma pushBucketLocked_ring:
  assumes "ring_ok c"
  shows "ring (pushBucketLocked c b) = last_n (bcap c) (ring c @ [b])"
proof (cases "length (buckets c) < bcap c")
  case True
  with assms show ?thesis by (simp add: ring_ok_def ring_def pushBucketLocked_def)
next
  case False
  with assms have full: "length (buckets c) = bcap c" "head c < length (buckets c)"
    by (auto simp: ring_ok_def)
  then show ?thesis
    using rotate_update [of "head c" "buckets c" b]
    by (simp add: ring_def pushBucketLocked_def last_n_def drop_Suc)
qed

interpretation history: bounded_log pushBucketLocked ring bcap ring_ok
proof
  fix c :: Collector and b
  assume ok: "ring_ok c"
  show "ring_ok (pushBucketLocked c b)"
    using ok by (auto simp: ring_ok_def pushBucketLocked_def)
  show "bcap (pushBucketLocked c b) = bcap c" by (simp add: pushBucketLocked_def)
  show "ring (pushBucketLocked c b) = last_n (bcap c) (ring c @ [b])"
    using ok by (rule pushBucketLocked_ring)
  show "length (ring c) \<le> bcap c" using ok by (simp add: ring_ok_def ring_def)
qed

lemma pushBucketLocked_frame [simp, go_frame]:
  "pushBucketLocked (c\<lparr>cur := x\<rparr>) b = (pushBucketLocked c b)\<lparr>cur := x\<rparr>"
  "cur (pushBucketLocked c b) = cur c" "cfg (pushBucketLocked c b) = cfg c"
  by (simp_all add: pushBucketLocked_def)

lemma pushes_frame [simp, go_frame]:
  "foldl pushBucketLocked (c\<lparr>cur := x\<rparr>) bs = (foldl pushBucketLocked c bs)\<lparr>cur := x\<rparr>"
  "cur (foldl pushBucketLocked c bs) = cur c" "cfg (foldl pushBucketLocked c bs) = cfg c"
  by (induction bs arbitrary: c) simp_all

lemma ring_cur [simp]: "ring (c\<lparr>cur := x\<rparr>) = ring c" "ring_ok (c\<lparr>cur := x\<rparr>) = ring_ok c"
  by (simp_all add: ring_def ring_ok_def)

section \<open>Rotation\<close>

text \<open>The buckets that \<open>k\<close> steps of the loop close: the one being filled and the empty ones of the
  intervals without traffic.\<close>

definition closed_buckets :: "Collector \<Rightarrow> nat \<Rightarrow> Bucket list" where
  "closed_buckets c k = (if k = 0 then [] else cur c #
     map (\<lambda>j. new_bucket (bT (cur c) + int j * interval_secs (BucketInterval (cfg c)))) [1..<k])"

lemma bT_new_bucket [simp]: "bT (new_bucket t) = t"
  by (simp add: new_bucket_def)

lemma closed_buckets_Suc:
  "closed_buckets c (Suc k) = cur c # closed_buckets
     (c\<lparr>cur := new_bucket (bT (cur c) + interval_secs (BucketInterval (cfg c)))\<rparr>) k"
proof (cases k)
  case (Suc m)
  have "map f [1..<Suc (Suc m)] = f 1 # map (\<lambda>j. f (Suc j)) [1..<Suc m]" for f :: "nat \<Rightarrow> Bucket"
    by (simp add: upt_conv_Cons map_Suc_upt [symmetric] comp_def del: upt_Suc)
  then show ?thesis
    unfolding Suc closed_buckets_def by (simp add: algebra_simps del: upt_Suc)
qed (simp add: closed_buckets_def)

lemma closed_buckets_frame:
  "cur c = cur c' \<Longrightarrow> cfg c = cfg c' \<Longrightarrow> closed_buckets c k = closed_buckets c' k"
  by (simp add: closed_buckets_def)

lemma rotate_loop_closed:
  assumes "bT (cur c) + int k * interval_secs (BucketInterval (cfg c)) = want"
  shows "rotate_loop want c = (foldl pushBucketLocked c (closed_buckets c k))
    \<lparr>cur := if k = 0 then cur c else new_bucket want\<rparr>"
  using assms
proof (induction k arbitrary: c)
  case 0
  then show ?case by (simp add: rotate_loop.simps [of want c] closed_buckets_def)
next
  case (Suc k)
  define i where "i = interval_secs (BucketInterval (cfg c))"
  define c' where "c' = (pushBucketLocked c (cur c))\<lparr>cur := new_bucket (bT (cur c) + i)\<rparr>"
  have i: "0 < i" by (simp add: i_def)
  have want: "bT (cur c) + i + int k * i = want" using Suc.prems by (simp add: i_def algebra_simps)
  then have lt: "bT (cur c) < want"
    using i by (smt (verit) mult_nonneg_nonneg of_nat_0_le_iff)
  have "rotate_loop want c = rotate_loop want c'"
    using lt by (simp add: rotate_loop.simps [of want c] c'_def i_def)
  also have "\<dots> = (foldl pushBucketLocked c' (closed_buckets c' k))
      \<lparr>cur := if k = 0 then cur c' else new_bucket want\<rparr>"
    by (rule Suc.IH) (use want in \<open>simp add: c'_def i_def\<close>)
  also have "closed_buckets c' k = tl (closed_buckets c (Suc k))"
    unfolding closed_buckets_Suc by (simp add: c'_def i_def closed_buckets_frame)
  finally show ?case
    using want by (auto simp: c'_def closed_buckets_Suc)
qed

text \<open>The history is in order: intervals are aligned, in strictly increasing order, and the bucket
  being filled is the newest.\<close>

definition history_ok :: "Collector \<Rightarrow> bool" where
  "history_ok c \<longleftrightarrow> ring_ok c \<and> 0 < bT (cur c) \<and> interval_secs (BucketInterval (cfg c)) dvd bT (cur c)
     \<and> sorted_wrt (<) (map bT (ring c @ [cur c])) \<and> (\<forall>b \<in> set (ring c). 0 < bT b)"

lemma closed_buckets_bT: 
  "map bT (closed_buckets c k) =
     map (\<lambda>j. bT (cur c) + int j * interval_secs (BucketInterval (cfg c))) [0..<k]"
proof (cases k)
  case (Suc m)
  then show ?thesis
    by (simp add: closed_buckets_def upt_conv_Cons comp_def del: upt_Suc)
qed (simp add: closed_buckets_def)

lemma rotateLocked_closed:
  assumes "history_ok c" "0 \<le> Unix now"
  defines "want \<equiv> alignUnix (Unix now) (BucketInterval (cfg c))"
  defines "k \<equiv> nat ((want - bT (cur c)) div interval_secs (BucketInterval (cfg c)))"
  shows "rotateLocked c now = (foldl pushBucketLocked c (closed_buckets c k))
    \<lparr>cur := if k = 0 then cur c else new_bucket want\<rparr>"
    and "k \<noteq> 0 \<Longrightarrow> bT (cur c) + int k * interval_secs (BucketInterval (cfg c)) = want"
    and "k = 0 \<longleftrightarrow> want \<le> bT (cur c)"
proof -
  define i where "i = interval_secs (BucketInterval (cfg c))"
  have i: "0 < i" by (simp add: i_def)
  have "i dvd want - bT (cur c)"
    using assms by (simp add: history_ok_def i_def want_def)
  then obtain m where m: "want - bT (cur c) = i * m" by blast
  then have k: "k = nat m" using i by (simp add: k_def i_def [symmetric])
  show *: "k = 0 \<longleftrightarrow> want \<le> bT (cur c)"
  proof -
    have "k = 0 \<longleftrightarrow> m \<le> 0" by (simp add: k)
    also have "\<dots> \<longleftrightarrow> i * m \<le> 0" using i by (auto simp: mult_le_0_iff)
    finally show ?thesis by (simp add: m [symmetric])
  qed
  show **: "bT (cur c) + int k * interval_secs (BucketInterval (cfg c)) = want" if "k \<noteq> 0"
    using that k m by (simp add: i_def [symmetric] algebra_simps)
  have nz: "bT (cur c) \<noteq> 0" using assms by (simp add: history_ok_def)
  show "rotateLocked c now = (foldl pushBucketLocked c (closed_buckets c k))
    \<lparr>cur := if k = 0 then cur c else new_bucket want\<rparr>"
  proof (cases "k = 0")
    case True
    then have "\<not> bT (cur c) < want" using * by simp
    then show ?thesis
      using True nz by (simp add: rotateLocked_def Let_def want_def [symmetric] closed_buckets_def
          rotate_loop.simps [of want c])
  next
    case False
    then show ?thesis
      using rotate_loop_closed [OF ** [OF False]] nz
      by (simp add: rotateLocked_def Let_def want_def [symmetric])
  qed
qed

lemma rotateLocked_ring:
  assumes "history_ok c" "0 \<le> Unix now"
  defines "want \<equiv> alignUnix (Unix now) (BucketInterval (cfg c))"
  defines "k \<equiv> nat ((want - bT (cur c)) div interval_secs (BucketInterval (cfg c)))"
  shows "ring (rotateLocked c now) = last_n (bcap c) (ring c @ closed_buckets c k)"
    and "cur (rotateLocked c now) = (if k = 0 then cur c else new_bucket want)"
    and "ring_ok (rotateLocked c now)" and "bcap (rotateLocked c now) = bcap c"
    and "cfg (rotateLocked c now) = cfg c"
proof -
  note closed = rotateLocked_closed(1) [OF assms(1,2), folded want_def, folded k_def]
  have ok: "ring_ok c" using assms by (simp add: history_ok_def)
  show "ring (rotateLocked c now) = last_n (bcap c) (ring c @ closed_buckets c k)"
    using history.pushes_contents [OF ok] by (simp add: closed)
  show "ring_ok (rotateLocked c now)" using history.pushes_ok [OF ok] by (simp add: closed)
  show "bcap (rotateLocked c now) = bcap c" using history.pushes_capacity [OF ok] by (simp add: closed)
qed (simp_all add: rotateLocked_closed(1) [OF assms(1,2), folded want_def, folded k_def])

lemma closed_buckets_sorted:
  assumes "k \<noteq> 0 \<Longrightarrow> t = bT (cur c) + int k * interval_secs (BucketInterval (cfg c))"
  shows "sorted_wrt (<) (map bT (closed_buckets c k))"
    and "b \<in> set (closed_buckets c k) \<Longrightarrow> bT (cur c) \<le> bT b \<and> bT b < t"
proof -
  let ?i = "interval_secs (BucketInterval (cfg c))"
  show "sorted_wrt (<) (map bT (closed_buckets c k))"
    unfolding closed_buckets_bT by (auto simp: sorted_wrt_map intro: sorted_wrt_mono_rel [OF _ sorted_wrt_upt])
  assume "b \<in> set (closed_buckets c k)"
  then have "bT b \<in> set (map bT (closed_buckets c k))" by simp
  then obtain j where j: "j < k" "bT b = bT (cur c) + int j * ?i"
    unfolding closed_buckets_bT by auto
  then have "int j * ?i < int k * ?i" by simp
  with j assms show "bT (cur c) \<le> bT b \<and> bT b < t" by simp
qed

lemma history_ok_rotateLocked [go_inv]:
  assumes h: "history_ok c" and now: "0 \<le> Unix now"
  shows "history_ok (rotateLocked c now)"
proof -
  define want where "want = alignUnix (Unix now) (BucketInterval (cfg c))"
  define k where "k = nat ((want - bT (cur c)) div interval_secs (BucketInterval (cfg c)))"
  note r = rotateLocked_ring [OF h now, folded want_def, folded k_def]
  note w = rotateLocked_closed(2,3) [OF h now, folded want_def, folded k_def]
  have pos: "0 < bT (cur c)" and sorted: "sorted_wrt (<) (map bT (ring c @ [cur c]))"
    and dvd: "interval_secs (BucketInterval (cfg c)) dvd bT (cur c)"
    and ring_pos: "\<forall>b \<in> set (ring c). 0 < bT b"
    using h by (auto simp: history_ok_def)
  define t where "t = (if k = 0 then bT (cur c) else want)"
  have t: "k \<noteq> 0 \<Longrightarrow> t = bT (cur c) + int k * interval_secs (BucketInterval (cfg c))"
    using w by (simp add: t_def)
  note closed = closed_buckets_sorted [of k t c, OF t]
  have t_ge: "bT (cur c) \<le> t" using w by (auto simp: t_def)
  have cur_t: "bT (cur (rotateLocked c now)) = t" by (simp add: r t_def)
  have below: "bT b < bT (cur c)" if "b \<in> set (ring c)" for b
    using sorted that by (auto simp: sorted_wrt_append)
  have "sorted_wrt (<) (map bT (ring c @ closed_buckets c k))"
    using sorted closed below by (fastforce simp: sorted_wrt_append)
  then have srt: "sorted_wrt (<) (map bT (ring (rotateLocked c now)))"
    unfolding r sorted_wrt_map by (rule sorted_wrt_last_n)
  have mem: "b \<in> set (ring c) \<or> b \<in> set (closed_buckets c k)"
    if "b \<in> set (ring (rotateLocked c now))" for b
    using that set_last_n [of "bcap c" "ring c @ closed_buckets c k"] by (auto simp: r)
  have lt: "bT b < t" if "b \<in> set (ring (rotateLocked c now))" for b
    using mem [OF that] below closed(2) t_ge by force
  have ps: "0 < bT b" if "b \<in> set (ring (rotateLocked c now))" for b
    using mem [OF that] ring_pos closed(2) pos by force
  have "sorted_wrt (<) (map bT (ring (rotateLocked c now) @ [cur (rotateLocked c now)]))"
    using srt lt by (simp add: sorted_wrt_append cur_t)
  moreover have "interval_secs (BucketInterval (cfg c)) dvd t"
    using dvd by (simp add: t_def want_def)
  ultimately show ?thesis
    using ps r(3,5) pos t_ge by (simp add: history_ok_def cur_t)
qed

lemma history_ok_New:
  assumes "interval_secs (BucketInterval (default_config g)) \<le> Unix now"
  shows "history_ok (New_collector now g)"
  using alignUnix_pos [OF assms] default_config_pos [of g]
  by (simp add: history_ok_def New_collector_def Let_def ring_ok_def ring_def)

text \<open>C27. What one rotation does to the history. The clock may have moved by any number of
  intervals since the last call, or backwards: the buckets that have elapsed, the one being
  filled and an empty one for every interval without traffic, are appended in order, of everything
  the newest \<^verbatim>\<open>cap(buckets)\<close> are kept, and the bucket being filled is the one whose interval
  contains the present, unless the clock went back.\<close>

theorem rotateLocked_history:
  assumes "history_ok c" and "0 \<le> Unix now"
  defines "i \<equiv> interval_secs (BucketInterval (cfg c))"
  defines "k \<equiv> nat ((alignUnix (Unix now) (BucketInterval (cfg c)) - bT (cur c)) div i)"
  shows "orderedBucketsLocked (rotateLocked c now)
       = last_n (bcap c) (orderedBucketsLocked c @ take k (cur c # map (\<lambda>j. new_bucket (bT (cur c) + int j * i)) [1..<k]))
    \<and> (bT (cur c) \<le> Unix now \<longrightarrow> bT (cur (rotateLocked c now)) \<le> Unix now
         \<and> Unix now < bT (cur (rotateLocked c now)) + i)
    \<and> (Unix now < bT (cur c) \<longrightarrow> rotateLocked c now = c)"
proof -
  define want where "want = alignUnix (Unix now) (BucketInterval (cfg c))"
  note r = rotateLocked_ring [OF assms(1,2), folded i_def, folded k_def]
  note w = rotateLocked_closed [OF assms(1,2), folded i_def, folded k_def, folded want_def]
  have all: "orderedBucketsLocked d = ring d" if "history_ok d" for d
    using that by (simp add: orderedBucketsLocked_ring history_ok_def)
  have tk: "closed_buckets c k = take k (cur c # map (\<lambda>j. new_bucket (bT (cur c) + int j * i)) [1..<k])"
    by (cases k) (simp_all add: closed_buckets_def i_def)
  have "orderedBucketsLocked (rotateLocked c now)
       = last_n (bcap c) (orderedBucketsLocked c @ take k (cur c # map (\<lambda>j. new_bucket (bT (cur c) + int j * i)) [1..<k]))"
    using r(1) by (simp add: all assms(1,2) history_ok_rotateLocked tk)
  moreover have "bT (cur (rotateLocked c now)) \<le> Unix now \<and> Unix now < bT (cur (rotateLocked c now)) + i"
    if "bT (cur c) \<le> Unix now"
    using that w(3) alignUnix_le [OF assms(2), of "BucketInterval (cfg c)"]
      alignUnix_gt [OF assms(2), of "BucketInterval (cfg c)"]
    by (cases "k = 0") (simp_all add: r want_def i_def)
  moreover have "rotateLocked c now = c" if "Unix now < bT (cur c)"
  proof -
    have "k = 0" using w(3) that alignUnix_le [OF assms(2), of "BucketInterval (cfg c)"] by (simp add: want_def)
    then show ?thesis by (simp add: w(1) closed_buckets_def)
  qed
  ultimately show ?thesis by blast
qed

text \<open>A one-bucket history that sleeps through three minutes keeps the last of them.\<close>

theorem rotateLocked_history_witness:
  "let c = New_collector 120000000000 \<lparr>HistoryMinutes = 1, BucketInterval = 0, File = [], SaveInterval = 0,
             DomainLimit = 0, ErrorLimit = 0\<rparr>
   in history_ok c \<and> orderedBucketsLocked (rotateLocked c 310000000000) = [new_bucket 240]
      \<and> bT (cur (rotateLocked c 310000000000)) = 300"
proof -
  define c where "c = New_collector 120000000000 \<lparr>HistoryMinutes = 1, BucketInterval = 0, File = [],
    SaveInterval = 0, DomainLimit = 0, ErrorLimit = 0\<rparr>"
  have h: "history_ok c" unfolding c_def by code_simp
  have now: "0 \<le> Unix 310000000000" by (simp add: Unix_def)
  have e: "orderedBucketsLocked c = []" "cur c = new_bucket 120" "bcap c = 1"
      "interval_secs (BucketInterval (cfg c)) = 60" "alignUnix (Unix 310000000000) (BucketInterval (cfg c)) = 300"
    unfolding c_def by code_simp+
  have u: "[Suc 0..<3] = [1, 2]" by (simp add: upt_rec)
  from rotateLocked_history [OF h now] have
    "orderedBucketsLocked (rotateLocked c 310000000000) = [new_bucket 240]"
    by (simp add: e u last_n_def)
  moreover from rotateLocked_history [OF h now] have "bT (cur (rotateLocked c 310000000000)) = 300"
    using rotateLocked_ring(2) [OF h now] by (simp add: e)
  ultimately show ?thesis using h by (simp add: c_def Let_def)
qed

section \<open>The slots hold the traffic of the last minute\<close>

lemma rate_index_mod: "rate_index nowSec i = nat ((nowSec - i) mod 60)"
proof -
  have "(if x smod 60 < 0 then x smod 60 + 60 else x smod 60) = x mod 60" for x :: int
  proof (cases "0 \<le> x")
    case False
    define y where "y = - x"
    then have "0 < y" "x = - y" using False by auto
    then show ?thesis
      by (auto simp: signed_modulo_int_def sgn_if zmod_zminus1_eq_if)
  qed simp
  from this [of "nowSec - i"] show ?thesis
    unfolding rate_index_def Let_def rateSlots_def by (rule arg_cong)
qed

text \<open>The slots of an array describe \<open>g\<close>, the traffic of each second, for the sixty seconds up to
  \<open>sec\<close>.\<close>

definition slots_ok :: "(int \<Rightarrow> int) \<Rightarrow> int \<Rightarrow> int list \<Rightarrow> bool" where
  "slots_ok g sec slots \<longleftrightarrow> length slots = 60
     \<and> (\<forall>s. sec - 60 < s \<and> s \<le> sec \<longrightarrow> slots ! nat (s mod 60) = g s) \<and> (\<forall>s > sec. g s = 0)"

lemma slot_inject:
  assumes "a - 60 < s" "s \<le> a" "nat (s mod 60) = nat (a mod 60)"
  shows "s = (a::int)"
proof -
  have "s mod 60 = a mod 60" using assms(3) by (simp add: nat_eq_iff)
  then have "60 dvd a - s" by (metis mod_eq_dvd_iff)
  then obtain q where "a - s = 60 * q" by blast
  then show ?thesis using assms(1,2) by presburger
qed

lemma slot_less [simp]: "nat (s mod 60) < 60"
  by (simp add: nat_less_iff)

lemma clear_slots_Suc:
  "clear_slots sec (Suc gap) slots =
     (clear_slots sec gap slots)[nat ((sec + int (Suc gap)) smod rateSlots) := 0]"
  by (simp add: clear_slots_def)

lemma slots_ok_clear:
  assumes "0 \<le> sec" "slots_ok g sec slots"
  shows "slots_ok g (sec + int gap) (clear_slots sec gap slots)"
proof (induction gap)
  case 0
  then show ?case using assms by (simp add: clear_slots_def)
next
  case (Suc gap)
  define a where "a = sec + int (Suc gap)"
  define xs where "xs = clear_slots sec gap slots"
  have ix: "nat (a smod rateSlots) = nat (a mod 60)" using assms by (simp add: a_def rateSlots_def)
  have IH: "slots_ok g (a - 1) xs" using Suc by (simp add: a_def xs_def)
  have "slots_ok g a (xs[nat (a mod 60) := 0])"
    unfolding slots_ok_def
  proof (intro conjI allI impI)
    fix s assume s: "a - 60 < s \<and> s \<le> a"
    show "xs[nat (a mod 60) := 0] ! nat (s mod 60) = g s"
    proof (cases "s = a")
      case True
      then show ?thesis using IH by (simp add: slots_ok_def)
    next
      case False
      then have "nat (s mod 60) \<noteq> nat (a mod 60)" using slot_inject [of a s] s by blast
      then show ?thesis using IH s False by (simp add: slots_ok_def)
    qed
  qed (use IH in \<open>simp_all add: slots_ok_def\<close>)
  then show ?case unfolding clear_slots_Suc by (simp add: a_def [symmetric] xs_def ix del: of_nat_Suc)
qed

lemma slots_ok_age:
  assumes "0 \<le> sec" "slots_ok g sec slots" "sec \<le> now"
  shows "slots_ok g now (age_slots sec now slots)"
proof (cases "60 \<le> now - sec")
  case True
  then show ?thesis using assms by (auto simp: slots_ok_def age_slots_def rateSlots_def)
next
  case False
  then show ?thesis
    using slots_ok_clear [OF assms(1,2), of "nat (now - sec)"] assms(2,3)
    by (cases "sec < now") (simp_all add: age_slots_def rateSlots_def)
qed

lemma slots_ok_add:
  assumes "slots_ok g now slots"
  shows "slots_ok (g(now := g now + n)) now (slots[nat (now mod 60) := slots ! nat (now mod 60) + n])"
  using assms slot_inject [of now] by (auto simp: slots_ok_def nth_list_update)

lemma slots_ok_now: "slots_ok g now slots \<Longrightarrow> slots ! nat (now mod 60) = g now"
  by (simp add: slots_ok_def)

text \<open>Recorded traffic: the second, the bytes up and the bytes down of every call.\<close>

type_synonym traffic = "(int \<times> int \<times> int) list"

definition sec_sum :: "(int \<times> int \<Rightarrow> int) \<Rightarrow> traffic \<Rightarrow> int \<Rightarrow> int" where
  "sec_sum f L s = sum_list (map (\<lambda>e. f (snd e)) (filter (\<lambda>e. fst e = s) L))"

definition record_traffic :: "Collector \<Rightarrow> traffic \<Rightarrow> Collector" where
  "record_traffic c L = foldl (\<lambda>c (s, up, down). addRateLocked c s up down) c L"

definition peak_ok :: "(int \<Rightarrow> int) \<Rightarrow> int \<Rightarrow> bool" where
  "peak_ok g peak \<longleftrightarrow> (\<forall>s. g s \<le> peak) \<and> (\<exists>s. g s = peak)"

definition rates_ok :: "traffic \<Rightarrow> Collector \<Rightarrow> bool" where
  "rates_ok L c \<longleftrightarrow> 0 \<le> rateSec c
     \<and> slots_ok (sec_sum fst L) (rateSec c) (rateUp c) \<and> slots_ok (sec_sum snd L) (rateSec c) (rateDown c)
     \<and> peak_ok (sec_sum fst L) (peakUp c) \<and> peak_ok (sec_sum snd L) (peakDown c)"

lemma sec_sum_snoc:
  "sec_sum f (L @ [(now, e)]) = (sec_sum f L)(now := sec_sum f L now + f e)"
  by (auto simp: sec_sum_def)

lemma peak_ok_add:
  assumes "peak_ok g peak" "0 \<le> n" "v = g now + n"
  shows "peak_ok (g(now := v)) (if peak < v then v else peak)"
proof (cases "peak < v")
  case True
  then show ?thesis using assms by (auto simp: peak_ok_def intro: order.trans)
next
  case False
  obtain s where s: "g s = peak" using assms by (auto simp: peak_ok_def)
  have "\<exists>s. (g(now := v)) s = peak"
    by (rule exI [of _ s]) (use s False assms(2,3) in auto)
  then show ?thesis using False assms by (auto simp: peak_ok_def)
qed

lemma rates_ok_addRateLocked:
  assumes "rates_ok L c" "rateSec c \<le> now" "0 \<le> up" "0 \<le> down"
  shows "rates_ok (L @ [(now, up, down)]) (addRateLocked c now up down)"
proof -
  define us where "us = age_slots (rateSec c) now (rateUp c)"
  define ds where "ds = age_slots (rateSec c) now (rateDown c)"
  let ?gu = "sec_sum fst L" and ?gd = "sec_sum snd L" and ?j = "nat (now mod 60)"
  have now: "0 \<le> now" using assms by (simp add: rates_ok_def)
  have u: "slots_ok ?gu now us" and d: "slots_ok ?gd now ds"
    using assms by (simp_all add: rates_ok_def us_def ds_def slots_ok_age)
  have len: "length us = 60" "length ds = 60" using u d by (simp_all add: slots_ok_def)
  have c': "addRateLocked c now up down = c\<lparr>rateSec := now, rateUp := us[?j := ?gu now + up],
      rateDown := ds[?j := ?gd now + down],
      peakUp := (if peakUp c < ?gu now + up then ?gu now + up else peakUp c),
      peakDown := (if peakDown c < ?gd now + down then ?gd now + down else peakDown c)\<rparr>"
    using now len slots_ok_now [OF u] slots_ok_now [OF d]
    by (simp add: addRateLocked_def Let_def us_def [symmetric] ds_def [symmetric] rateSlots_def)
  have "slots_ok (?gu(now := ?gu now + up)) now (us[?j := ?gu now + up])"
    using slots_ok_add [OF u, of up] by (simp add: slots_ok_now [OF u])
  moreover have "slots_ok (?gd(now := ?gd now + down)) now (ds[?j := ?gd now + down])"
    using slots_ok_add [OF d, of down] by (simp add: slots_ok_now [OF d])
  ultimately show ?thesis
    using now assms peak_ok_add [of ?gu "peakUp c" up _ now] peak_ok_add [of ?gd "peakDown c" down _ now]
    by (simp add: c' rates_ok_def sec_sum_snoc)
qed

lemma rateSec_addRateLocked [simp]: "rateSec (addRateLocked c s up down) = s"
  by (simp add: addRateLocked_def Let_def)

lemma rates_ok_record_traffic:
  assumes "rates_ok L0 c" "sorted (map fst L)" "\<forall>(s, up, down) \<in> set L. rateSec c \<le> s \<and> 0 \<le> up \<and> 0 \<le> down"
  shows "rates_ok (L0 @ L) (record_traffic c L)"
  using assms
proof (induction L arbitrary: L0 c)
  case (Cons e L)
  obtain s up down where e: "e = (s, up, down)" by (cases e)
  have "rates_ok (L0 @ [e]) (addRateLocked c s up down)"
    using Cons.prems by (simp add: e rates_ok_addRateLocked)
  then have "rates_ok ((L0 @ [e]) @ L) (record_traffic (addRateLocked c s up down) L)"
    by (rule Cons.IH) (use Cons.prems in \<open>auto simp: e\<close>)
  then show ?case by (simp add: record_traffic_def e)
qed (simp add: record_traffic_def)

lemma rates_ok_New: "0 \<le> Unix now \<Longrightarrow> rates_ok [] (New_collector now g)"
  by (auto simp: rates_ok_def New_collector_def Let_def slots_ok_def peak_ok_def sec_sum_def)

lemma rateLocked_sum:
  assumes "rates_ok L c" "nowSec = rateSec c \<or> nowSec = rateSec c + 1"
  shows "rateLocked c nowSec window =
    (let w = rate_window window in
     \<lparr>rUpload = (\<Sum>i\<leftarrow>[1..w]. sec_sum fst L (nowSec - i)) sdiv w,
      rDownload = (\<Sum>i\<leftarrow>[1..w]. sec_sum snd L (nowSec - i)) sdiv w\<rparr>)"
proof -
  have w: "rate_window window \<le> 59" by (simp add: rate_window_def rateSlots_def)
  have "rateUp c ! rate_index nowSec i = sec_sum fst L (nowSec - i)"
    "rateDown c ! rate_index nowSec i = sec_sum snd L (nowSec - i)" if "i \<in> set [1..rate_window window]" for i
    using assms that w by (auto simp: rates_ok_def slots_ok_def rate_index_mod)
  then have "map (\<lambda>i. rateUp c ! rate_index nowSec i) [1..rate_window window]
      = map (\<lambda>i. sec_sum fst L (nowSec - i)) [1..rate_window window]"
    and "map (\<lambda>i. rateDown c ! rate_index nowSec i) [1..rate_window window]
      = map (\<lambda>i. sec_sum snd L (nowSec - i)) [1..rate_window window]"
    by (simp_all add: map_eq_conv del: set_upto)
  then show ?thesis unfolding rateLocked_def Let_def by (simp only:)
qed

text \<open>While the clock does not go back, the reported speed is the mean of the bytes recorded in
  the last \<open>w\<close> complete seconds, asked in the second of the last recorded traffic or the one after
  it, and the peak is the largest number of bytes recorded in any one second.\<close>

theorem rateLocked_mean:
  assumes "0 \<le> Unix t0" and "sorted (map fst L)"
    and "\<forall>(s, up, down) \<in> set L. Unix t0 \<le> s \<and> 0 \<le> up \<and> 0 \<le> down"
    and "nowSec = rateSec (record_traffic (New_collector t0 g) L)
      \<or> nowSec = rateSec (record_traffic (New_collector t0 g) L) + 1"
    and "0 < window" and "window < 60"
  shows "rateLocked (record_traffic (New_collector t0 g) L) nowSec window =
      \<lparr>rUpload = (\<Sum>i\<leftarrow>[1..window]. sec_sum fst L (nowSec - i)) sdiv window,
       rDownload = (\<Sum>i\<leftarrow>[1..window]. sec_sum snd L (nowSec - i)) sdiv window\<rparr>
    \<and> (\<forall>s. sec_sum fst L s \<le> peakUp (record_traffic (New_collector t0 g) L))
    \<and> (\<exists>s. sec_sum fst L s = peakUp (record_traffic (New_collector t0 g) L))
    \<and> (\<forall>s. sec_sum snd L s \<le> peakDown (record_traffic (New_collector t0 g) L))
    \<and> (\<exists>s. sec_sum snd L s = peakDown (record_traffic (New_collector t0 g) L))"
proof -
  have "rateSec (New_collector t0 g) = Unix t0" by (simp add: New_collector_def Let_def)
  then have ok: "rates_ok L (record_traffic (New_collector t0 g) L)"
    using rates_ok_record_traffic [OF rates_ok_New, of t0 L g] assms(1-3) by simp
  have "rate_window window = window" using assms(5,6) by (simp add: rate_window_def rateSlots_def)
  then show ?thesis
    using rateLocked_sum [OF ok assms(4), of window] ok by (simp add: rates_ok_def peak_ok_def)
qed

theorem rateLocked_mean_witness:
  "rateLocked (record_traffic (New_collector 100000000000 \<lparr>HistoryMinutes = 0, BucketInterval = 0,
       File = [], SaveInterval = 0, DomainLimit = 0, ErrorLimit = 0\<rparr>)
     [(100, 10, 0), (102, 5, 8), (102, 15, 0)]) 103 5 = \<lparr>rUpload = 6, rDownload = 1\<rparr>"
  by (subst rateLocked_mean)
    (simp_all add: Unix_def record_traffic_def sec_sum_def upto.simps signed_divide_int_def)

text \<open>The slots are only cleared when traffic is recorded, never when they are read: the
  reading repeats itself every sixty seconds for as long as the proxy is idle, so that a burst is
  reported again as the current speed a minute after it ended.\<close>

theorem rateLocked_idle_repeats:
  "rateLocked c (nowSec + 60 * int k) window = rateLocked c nowSec window
   \<and> rateLocked (record_traffic (New_collector 100000000000 g) [(100, 5000, 0)]) 165 5
       = \<lparr>rUpload = 1000, rDownload = 0\<rparr>"
proof -
  have "rate_index (nowSec + 60 * int k) i = rate_index nowSec i" for i
  proof -
    have "nowSec + 60 * int k - i = nowSec - i + 60 * int k" by simp
    then show ?thesis unfolding rate_index_mod by (simp only: mod_mult_self2)
  qed
  moreover have "rateLocked (record_traffic (New_collector 100000000000 g) [(100, 5000, 0)]) 165 5
       = \<lparr>rUpload = 1000, rDownload = 0\<rparr>"
  proof -
    have r: "rateUp (record_traffic (New_collector 100000000000 g) [(100, 5000, 0)]) = (replicate 60 0)[40 := 5000]"
      "rateDown (record_traffic (New_collector 100000000000 g) [(100, 5000, 0)]) = (replicate 60 0)[40 := 0]"
      by (simp_all add: record_traffic_def New_collector_def Let_def addRateLocked_def age_slots_def
          rateSlots_def Unix_def)
    have w: "[1..rate_window 5] = [1, 2, 3, 4, 5]" by code_simp
    have "rate_window 5 = 5" by code_simp
    then show ?thesis
      unfolding rateLocked_def Let_def w by (simp add: r rate_index_mod signed_divide_int_def)
  qed
  ultimately show ?thesis by (simp add: rateLocked_def)
qed

end
