(* ===== verification/Stats_Collector.thy ===== *)
theory Stats_Collector
  imports Stats_History
begin

text \<open>
  Package \<^verbatim>\<open>core/stats\<close>, the operations that change the collector: traffic, sessions, errors, DNS
  queries, the domain tables and their pruning, and \<^verbatim>\<open>Reset\<close>.

  Every operation is atomic, as the collector's lock and the atomic session fields make it, and
  takes the reading of the clock as \<open>now\<close>. \<open>rng\<close> is the order in which the \<^verbatim>\<open>range\<close> loop of
  \<^verbatim>\<open>pruneLocked\<close> visits the table. An error is its text.
\<close>

section \<open>Live counters\<close>

definition addTraffic :: "Collector \<Rightarrow> instant \<Rightarrow> int \<Rightarrow> int \<Rightarrow> Decision \<Rightarrow> Collector" where
  "addTraffic c now up down d =
     (if up = 0 \<and> down = 0 then c
      else
        let c = rotateLocked c now;
            c = c\<lparr>totals := addDownload down (addUpload up (totals c)),
                  cur := (cur c)\<lparr>bUpload := bUpload (cur c) + up, bDownload := bDownload (cur c) + down\<rparr>\<rparr>;
            c = (case d of
                   DecisionDirect \<Rightarrow>
                     c\<lparr>direct := addDownload down (addUpload up (direct c)),
                       cur := (cur c)\<lparr>bDirectUpload := bDirectUpload (cur c) + up,
                                      bDirectDownload := bDirectDownload (cur c) + down\<rparr>\<rparr>
                 | DecisionProxy \<Rightarrow>
                     c\<lparr>proxy := addDownload down (addUpload up (proxy c)),
                       cur := (cur c)\<lparr>bProxyUpload := bProxyUpload (cur c) + up,
                                      bProxyDownload := bProxyDownload (cur c) + down\<rparr>\<rparr>
                 | DecisionNone \<Rightarrow> c)
        in addRateLocked c (Unix now) up down)"

definition bumpConnLocked :: "Collector \<Rightarrow> Decision \<Rightarrow> instant \<Rightarrow> Collector" where
  "bumpConnLocked c d now =
     (let c = rotateLocked c now;
          c = c\<lparr>cur := (cur c)\<lparr>bConns := bConns (cur c) + 1\<rparr>\<rparr>
      in case d of
           DecisionDirect \<Rightarrow> c\<lparr>direct := (direct c)\<lparr>cConns := cConns (direct c) + 1\<rparr>,
                               cur := (cur c)\<lparr>bDirectConns := bDirectConns (cur c) + 1\<rparr>\<rparr>
         | DecisionProxy \<Rightarrow> c\<lparr>proxy := (proxy c)\<lparr>cConns := cConns (proxy c) + 1\<rparr>,
                               cur := (cur c)\<lparr>bProxyConns := bProxyConns (cur c) + 1\<rparr>\<rparr>
         | DecisionNone \<Rightarrow> c)"

section \<open>The error log\<close>

definition log_error :: "int \<Rightarrow> ErrorEntry list \<Rightarrow> ErrorEntry \<Rightarrow> ErrorEntry list" where
  "log_error limit es e =
     (let es = es @ [e] in
      if limit < int (length es) then drop (length es - nat limit) es else es)"

definition recordErrorLocked :: "Collector \<Rightarrow> string \<Rightarrow> string \<Rightarrow> string \<Rightarrow> instant \<Rightarrow> Collector" where
  "recordErrorLocked c scope host msg now =
     (let c = c\<lparr>totals := (totals c)\<lparr>cErrors := cErrors (totals c) + 1\<rparr>\<rparr>;
          c = rotateLocked c now;
          c = c\<lparr>cur := (cur c)\<lparr>bErrors := bErrors (cur c) + 1\<rparr>\<rparr>
      in c\<lparr>errs := log_error (ErrorLimit (cfg c)) (errs c)
             \<lparr>eT = Unix now, eTime = now, eScope = scope, eHost = host, eMessage = msg\<rparr>\<rparr>)"

text \<open>\<open>msg\<close> is the formatted message.\<close>

definition RecordError :: "Collector \<Rightarrow> instant \<Rightarrow> string \<Rightarrow> string \<Rightarrow> string \<Rightarrow> Collector" where
  "RecordError c now scope host msg = recordErrorLocked c scope host msg now"

section \<open>Domain tables\<close>

type_synonym table = "(string \<times> DomainStat) list"
type_synonym order = "DomainStat list \<Rightarrow> DomainStat list"

definition prune_keep :: "int \<Rightarrow> nat" where
  "prune_keep limit = (let keep = (limit * 3) sdiv 4 in nat (if keep \<le> 0 then 1 else keep))"

definition prune_order :: "order \<Rightarrow> table \<Rightarrow> DomainStat list" where
  "prune_order rng m = sort_slice (by_key_desc DomainStat_Total) (rng (map snd m))"

definition pruneLocked :: "order \<Rightarrow> int \<Rightarrow> table \<Rightarrow> table" where
  "pruneLocked rng limit m =
     fold (\<lambda>d m. AList.delete (dDomain d) m) (drop (prune_keep limit) (prune_order rng m)) m"

definition row_of :: "string \<Rightarrow> table \<Rightarrow> DomainStat" where
  "row_of host m = (case map_of m host of None \<Rightarrow> new_domain host | Some e \<Rightarrow> e)"

definition prune_if_full :: "order \<Rightarrow> int \<Rightarrow> table \<Rightarrow> table" where
  "prune_if_full rng limit m = (if limit < int (length m) then pruneLocked rng limit m else m)"

definition addDomainLocked ::
  "order \<Rightarrow> Collector \<Rightarrow> instant \<Rightarrow> string \<Rightarrow> Decision \<Rightarrow> int \<Rightarrow> int \<Rightarrow> int \<Rightarrow> bool \<Rightarrow> Collector" where
  "addDomainLocked rng c now host dec up down conns isErr =
     (let e = row_of host (domains c);
          e = e\<lparr>dUpload := dUpload e + up, dDownload := dDownload e + down, dConns := dConns e + conns\<rparr>;
          e = (case dec of
                 DecisionDirect \<Rightarrow> e\<lparr>dDirectConns := dDirectConns e + conns\<rparr>
               | DecisionProxy \<Rightarrow> e\<lparr>dProxyConns := dProxyConns e + conns\<rparr>
               | DecisionNone \<Rightarrow> e);
          e = (if isErr then e\<lparr>dErrors := dErrors e + 1\<rparr> else e);
          e = e\<lparr>dLastSeen := Unix now\<rparr>
      in c\<lparr>domains := prune_if_full rng (DomainLimit (cfg c)) (AList.update host e (domains c))\<rparr>)"

definition addDomain ::
  "order \<Rightarrow> Collector \<Rightarrow> instant \<Rightarrow> string \<Rightarrow> Decision \<Rightarrow> int \<Rightarrow> int \<Rightarrow> int \<Rightarrow> bool \<Rightarrow> Collector" where
  "addDomain rng c now host d up down conns isErr = addDomainLocked rng c now host d up down conns isErr"

section \<open>DNS queries\<close>

definition count_dns :: "string \<Rightarrow> string \<Rightarrow> DNSStat \<Rightarrow> DNSStat" where
  "count_dns qtype upstream q =
     (let q = (if qtype \<noteq> [] then q\<lparr>qByType := bump qtype 1 (qByType q)\<rparr> else q);
          q = q\<lparr>qByUpstream := bump upstream 1 (qByUpstream q)\<rparr>
      in if upstream = ''cache'' then q\<lparr>qCacheHits := qCacheHits q + 1\<rparr>
         else if upstream = ''direct'' then q\<lparr>qDirect := qDirect q + 1\<rparr>
         else if upstream = ''doh'' then q\<lparr>qDoH := qDoH q + 1\<rparr>
         else q)"

definition RecordDNS ::
  "order \<Rightarrow> Collector \<Rightarrow> instant \<Rightarrow> string \<Rightarrow> string \<Rightarrow> string \<Rightarrow> string option \<Rightarrow> Collector" where
  "RecordDNS rng c now domain qtype upstream err =
     (let c = rotateLocked c now;
          c = c\<lparr>dns := (dns c)\<lparr>qQueries := qQueries (dns c) + 1\<rparr>,
                cur := (cur c)\<lparr>bDNSQueries := bDNSQueries (cur c) + 1\<rparr>\<rparr>;
          c = c\<lparr>dns := count_dns qtype upstream (dns c)\<rparr>;
          c = (case err of
                 None \<Rightarrow> c
               | Some msg \<Rightarrow> recordErrorLocked (c\<lparr>dns := (dns c)\<lparr>qFailures := qFailures (dns c) + 1\<rparr>\<rparr>)
                              ''dns'' domain msg now)
      in if domain = [] then c
         else
           let d = row_of domain (dnsNames c);
               d = d\<lparr>dConns := dConns d + 1, dLastSeen := Unix now\<rparr>;
               d = (if err \<noteq> None then d\<lparr>dErrors := dErrors d + 1\<rparr> else d)
           in c\<lparr>dnsNames := prune_if_full rng (DomainLimit (cfg c)) (AList.update domain d (dnsNames c))\<rparr>)"

section \<open>Sessions\<close>

definition put_session :: "int \<Rightarrow> Session \<Rightarrow> Collector \<Rightarrow> Collector" where
  "put_session i s c = c\<lparr>sessions := AList.update i s (sessions c)\<rparr>"

definition new_session :: "int \<Rightarrow> instant \<Rightarrow> Proto \<Rightarrow> string \<Rightarrow> string \<Rightarrow> int \<Rightarrow> Decision \<Rightarrow> string \<Rightarrow> Session" where
  "new_session i now p client host port d node =
     \<lparr>sId = i, sProto = p, sClient = client, sHost = host, sPort = port, sDecision = d,
      sNode = (if node \<noteq> [] then Some node else None), sStart = now, sUpload = 0, sDownload = 0,
      sPendingUp = 0, sPendingDown = 0, sDone = False, sRateAt = None, sRateUp = 0, sRateDown = 0,
      sCurUpBps = 0, sCurDownBps = 0\<rparr>"

definition Begin ::
  "Collector \<Rightarrow> instant \<Rightarrow> Proto \<Rightarrow> string \<Rightarrow> string \<Rightarrow> int \<Rightarrow> Decision \<Rightarrow> string \<Rightarrow> int \<times> Collector" where
  "Begin c now p client host port d node =
     (let i = nextID c + 1
      in (i, (put_session i (new_session i now p client host port d node) c)
               \<lparr>nextID := i, active := active c @ [i]\<rparr>))"

text \<open>The operations of a session are given its id; an id that no \<open>Begin\<close> returned has no session.\<close>

definition flush :: "order \<Rightarrow> Collector \<Rightarrow> instant \<Rightarrow> int \<Rightarrow> Collector" where
  "flush rng c now i =
     (case map_of (sessions c) i of
        None \<Rightarrow> c
      | Some s \<Rightarrow>
          let up = sPendingUp s; down = sPendingDown s;
              c = put_session i (s\<lparr>sPendingUp := 0, sPendingDown := 0\<rparr>) c
          in if up = 0 \<and> down = 0 then c
             else if sHost s \<noteq> [] then addDomain rng c now (sHost s) (sDecision s) up down 0 False
             else c)"

definition AddUpload :: "order \<Rightarrow> Collector \<Rightarrow> instant \<Rightarrow> int \<Rightarrow> int \<Rightarrow> Collector" where
  "AddUpload rng c now i n =
     (case map_of (sessions c) i of
        None \<Rightarrow> c
      | Some s \<Rightarrow>
          if n \<le> 0 then c
          else
            let s = s\<lparr>sUpload := sUpload s + n\<rparr>;
                c = addTraffic (put_session i s c) now n 0 (sDecision s);
                s = s\<lparr>sPendingUp := sPendingUp s + n\<rparr>;
                c = put_session i s c
            in if flushThreshold \<le> sPendingUp s then flush rng c now i else c)"

definition AddDownload :: "order \<Rightarrow> Collector \<Rightarrow> instant \<Rightarrow> int \<Rightarrow> int \<Rightarrow> Collector" where
  "AddDownload rng c now i n =
     (case map_of (sessions c) i of
        None \<Rightarrow> c
      | Some s \<Rightarrow>
          if n \<le> 0 then c
          else
            let s = s\<lparr>sDownload := sDownload s + n\<rparr>;
                c = addTraffic (put_session i s c) now 0 n (sDecision s);
                s = s\<lparr>sPendingDown := sPendingDown s + n\<rparr>;
                c = put_session i s c
            in if flushThreshold \<le> sPendingDown s then flush rng c now i else c)"

definition AddDatagram ::
  "order \<Rightarrow> Collector \<Rightarrow> instant \<Rightarrow> int \<Rightarrow> string \<Rightarrow> Decision \<Rightarrow> int \<Rightarrow> int \<Rightarrow> Collector" where
  "AddDatagram rng c now i host d up down =
     (case map_of (sessions c) i of
        None \<Rightarrow> c
      | Some s \<Rightarrow>
          let s = (if 0 < up then s\<lparr>sUpload := sUpload s + up, sPendingUp := sPendingUp s + up\<rparr> else s);
              s = (if 0 < down then s\<lparr>sDownload := sDownload s + down, sPendingDown := sPendingDown s + down\<rparr> else s);
              c = put_session i s c;
              c = (if 0 < up \<or> 0 < down then addTraffic c now up down d else c);
              c = (if host \<noteq> [] then addDomain rng c now host d up down 0 False else c)
          in flush rng c now i)"

definition SetNode :: "Collector \<Rightarrow> int \<Rightarrow> string \<Rightarrow> Collector" where
  "SetNode c i name =
     (case map_of (sessions c) i of
        None \<Rightarrow> c
      | Some s \<Rightarrow> if name = [] then c else put_session i (s\<lparr>sNode := Some name\<rparr>) c)"

definition Node :: "Session \<Rightarrow> string" where
  "Node s = (case sNode s of None \<Rightarrow> [] | Some name \<Rightarrow> name)"

definition charge_node :: "string \<Rightarrow> int \<Rightarrow> int \<Rightarrow> int \<Rightarrow> (string \<times> NodeStat) list \<Rightarrow> (string \<times> NodeStat) list" where
  "charge_node name up down sec m =
     (let n = (case map_of m name of None \<Rightarrow> new_node name | Some n \<Rightarrow> n)
      in AList.update name (n\<lparr>nConns := nConns n + 1, nUpload := nUpload n + up,
           nDownload := nDownload n + down, nLastSeen := sec\<rparr>) m)"

definition finish :: "order \<Rightarrow> Collector \<Rightarrow> instant \<Rightarrow> Session \<Rightarrow> string option \<Rightarrow> Collector" where
  "finish rng c now s err =
     (let i = sId s;
          c = c\<lparr>active := removeAll i (active c), totals := (totals c)\<lparr>cConns := cConns (totals c) + 1\<rparr>\<rparr>;
          c = bumpConnLocked c (sDecision s) now;
          c = (if sHost s \<noteq> []
               then addDomainLocked rng (put_session i (s\<lparr>sPendingUp := 0, sPendingDown := 0\<rparr>) c) now (sHost s)
                      (sDecision s) (sPendingUp s) (sPendingDown s) 1 (err \<noteq> None)
               else c);
          c = (if sDecision s = DecisionProxy \<and> Node s \<noteq> []
               then c\<lparr>nodes := charge_node (Node s) (sUpload s) (sDownload s) (Unix now) (nodes c)\<rparr> else c)
      in case err of None \<Rightarrow> c | Some msg \<Rightarrow> recordErrorLocked c ''proxy'' (sHost s) msg now)"

definition End :: "order \<Rightarrow> Collector \<Rightarrow> instant \<Rightarrow> int \<Rightarrow> string option \<Rightarrow> Collector" where
  "End rng c now i err =
     (case map_of (sessions c) i of
        None \<Rightarrow> c
      | Some s \<Rightarrow>
          if sDone s then c
          else let s = s\<lparr>sDone := True\<rparr> in finish rng (put_session i s c) now s err)"

definition Fail :: "order \<Rightarrow> Collector \<Rightarrow> instant \<Rightarrow> int \<Rightarrow> string option \<Rightarrow> Collector" where
  "Fail rng c now i err = End rng c now i err"

definition Upload :: "Collector \<Rightarrow> int \<Rightarrow> int" where
  "Upload c i = (case map_of (sessions c) i of None \<Rightarrow> 0 | Some s \<Rightarrow> sUpload s)"

definition Download :: "Collector \<Rightarrow> int \<Rightarrow> int" where
  "Download c i = (case map_of (sessions c) i of None \<Rightarrow> 0 | Some s \<Rightarrow> sDownload s)"

section \<open>Reset\<close>

definition Reset :: "Collector \<Rightarrow> instant \<Rightarrow> Collector" where
  "Reset c now = c
     \<lparr>totals := zero_counters, direct := zero_counters, proxy := zero_counters, dns := zero_dns,
      dnsNames := [], domains := [], nodes := [], errs := [], buckets := [], head := 0,
      cur := new_bucket (alignUnix (Unix now) (BucketInterval (cfg c))),
      rateUp := replicate 60 0, rateDown := replicate 60 0, peakUp := 0, peakDown := 0, start := now\<rparr>"

end
