(* ===== verification/Stats_Books.thy ===== *)
theory Stats_Books
  imports Stats_Collector
begin

text \<open>
  Package \<^verbatim>\<open>core/stats\<close>, the books: what every reachable collector satisfies, whatever the
  sequence of operations. The operations are the constructors of \<open>op\<close> and a run is a path of the
  inductive relation \<open>reach\<close>, whose argument restricts the operations that occur in it.
\<close>

section \<open>Runs\<close>

datatype op =
    OpBegin Proto string string int Decision string
  | OpUpload int int
  | OpDownload int int
  | OpDatagram int string Decision int int
  | OpSetNode int string
  | OpEnd int "string option"
  | OpError string string string
  | OpDNS string string string "string option"
  | OpReset
  | OpRotate

fun apply_op :: "order \<Rightarrow> instant \<Rightarrow> op \<Rightarrow> Collector \<Rightarrow> Collector" where
  "apply_op rng now (OpBegin p client host port d node) c = snd (Begin c now p client host port d node)"
| "apply_op rng now (OpUpload i n) c = AddUpload rng c now i n"
| "apply_op rng now (OpDownload i n) c = AddDownload rng c now i n"
| "apply_op rng now (OpDatagram i host d up down) c = AddDatagram rng c now i host d up down"
| "apply_op rng now (OpSetNode i name) c = SetNode c i name"
| "apply_op rng now (OpEnd i err) c = End rng c now i err"
| "apply_op rng now (OpError scope host msg) c = RecordError c now scope host msg"
| "apply_op rng now (OpDNS domain qtype upstream err) c = RecordDNS rng c now domain qtype upstream err"
| "apply_op rng now OpReset c = Reset c now"
| "apply_op rng now OpRotate c = rotateLocked c now"

text \<open>The clock may jump, but not to before the end of the first interval of 1970.\<close>

definition clock_ok :: "Config \<Rightarrow> instant \<Rightarrow> bool" where
  "clock_ok g now \<longleftrightarrow> interval_secs (BucketInterval g) \<le> Unix now"

inductive reach :: "(op \<Rightarrow> bool) \<Rightarrow> order \<Rightarrow> Config \<Rightarrow> Collector \<Rightarrow> bool" for P rng g where
  reach_new: "clock_ok (default_config g) now \<Longrightarrow> reach P rng g (New_collector now g)"
| reach_op: "reach P rng g c \<Longrightarrow> P op \<Longrightarrow> clock_ok (default_config g) now
    \<Longrightarrow> reach P rng g (apply_op rng now op c)"

lemma clock_okD: "clock_ok g now \<Longrightarrow> 0 \<le> Unix now"
  using interval_secs_pos [of "BucketInterval g"] unfolding clock_ok_def by linarith

section \<open>Frames\<close>

lemma pushBucketLocked_history:
  "pushBucketLocked c b =
     c\<lparr>buckets := buckets (pushBucketLocked c b), head := head (pushBucketLocked c b)\<rparr>"
  by (simp add: pushBucketLocked_def)

lemma rotate_loop_frame:
  "\<exists>bs h b. rotate_loop want c = c\<lparr>buckets := bs, head := h, cur := b\<rparr>"
proof (induction want c rule: rotate_loop.induct)
  case (1 want c)
  show ?case
  proof (cases "bT (cur c) < want")
    case True
    from 1 [OF True] obtain bs h b where
      "rotate_loop want ((pushBucketLocked c (cur c))
         \<lparr>cur := new_bucket (bT (cur c) + interval_secs (BucketInterval (cfg c)))\<rparr>)
       = (pushBucketLocked c (cur c))\<lparr>buckets := bs, head := h, cur := b\<rparr>" by auto
    also have "\<dots> = c\<lparr>buckets := bs, head := h, cur := b\<rparr>"
      by (subst pushBucketLocked_history) simp
    finally show ?thesis using True by (subst rotate_loop.simps) auto
  next
    case False
    then have "rotate_loop want c = c\<lparr>buckets := buckets c, head := head c, cur := cur c\<rparr>"
      by (subst rotate_loop.simps) simp
    then show ?thesis by blast
  qed
qed

lemma rotateLocked_frame:
  obtains bs h b where "rotateLocked c now = c\<lparr>buckets := bs, head := h, cur := b\<rparr>"
proof (cases "bT (cur c) = 0")
  case True
  then have "rotateLocked c now = c\<lparr>buckets := buckets c, head := head c,
      cur := (cur c)\<lparr>bT := alignUnix (Unix now) (BucketInterval (cfg c))\<rparr>\<rparr>"
    by (simp add: rotateLocked_def Let_def)
  then show ?thesis by (rule that)
next
  case False
  then have "rotateLocked c now = rotate_loop (alignUnix (Unix now) (BucketInterval (cfg c))) c"
    by (simp add: rotateLocked_def Let_def)
  then show ?thesis
    using rotate_loop_frame [of "alignUnix (Unix now) (BucketInterval (cfg c))" c] that by metis
qed

lemma rotateLocked_fields [simp, go_frame]:
  "cfg (rotateLocked c now) = cfg c" "totals (rotateLocked c now) = totals c"
  "direct (rotateLocked c now) = direct c" "proxy (rotateLocked c now) = proxy c"
  "dns (rotateLocked c now) = dns c" "dnsNames (rotateLocked c now) = dnsNames c"
  "domains (rotateLocked c now) = domains c" "nodes (rotateLocked c now) = nodes c"
  "errs (rotateLocked c now) = errs c" "sessions (rotateLocked c now) = sessions c"
  "active (rotateLocked c now) = active c" "nextID (rotateLocked c now) = nextID c"
  "bcap (rotateLocked c now) = bcap c" "start (rotateLocked c now) = start c"
  "rateSec (rotateLocked c now) = rateSec c"
  by (rule rotateLocked_frame [of c now]; simp)+

lemma pushBucketLocked_commute [simp]:
  "pushBucketLocked (c\<lparr>totals := x\<rparr>) b = (pushBucketLocked c b)\<lparr>totals := x\<rparr>"
  "pushBucketLocked (c\<lparr>active := y\<rparr>) b = (pushBucketLocked c b)\<lparr>active := y\<rparr>"
  "pushBucketLocked (c\<lparr>dns := z\<rparr>) b = (pushBucketLocked c b)\<lparr>dns := z\<rparr>"
  by (simp_all add: pushBucketLocked_def)

lemma update_order:
  "c\<lparr>cur := b, totals := x\<rparr> = c\<lparr>totals := x, cur := b\<rparr>" "c\<lparr>cur := b, active := y\<rparr> = c\<lparr>active := y, cur := b\<rparr>"
  for c :: Collector
  by simp_all

lemma rotate_loop_totals: "rotate_loop want (c\<lparr>totals := x\<rparr>) = (rotate_loop want c)\<lparr>totals := x\<rparr>"
proof (induction want c rule: rotate_loop.induct)
  case (1 want c)
  then show ?case
    by (subst (1 2) rotate_loop.simps) (simp add: update_order)
qed

lemma rotate_loop_active: "rotate_loop want (c\<lparr>active := x\<rparr>) = (rotate_loop want c)\<lparr>active := x\<rparr>"
proof (induction want c rule: rotate_loop.induct)
  case (1 want c)
  then show ?case
    by (subst (1 2) rotate_loop.simps) (simp add: update_order)
qed

lemma rotateLocked_commute [simp]:
  "rotateLocked (c\<lparr>totals := x\<rparr>) now = (rotateLocked c now)\<lparr>totals := x\<rparr>"
  "rotateLocked (c\<lparr>active := y\<rparr>) now = (rotateLocked c now)\<lparr>active := y\<rparr>"
  by (simp_all add: rotateLocked_def Let_def rotate_loop_totals rotate_loop_active update_order)

text \<open>The history depends on the history fields only.\<close>

lemma ring_frame [simp, go_frame]:
  "ring (c\<lparr>totals := x0\<rparr>) = ring c"
  "ring (c\<lparr>direct := x1\<rparr>) = ring c"
  "ring (c\<lparr>proxy := x2\<rparr>) = ring c"
  "ring (c\<lparr>dns := x3\<rparr>) = ring c"
  "ring (c\<lparr>dnsNames := x4\<rparr>) = ring c"
  "ring (c\<lparr>domains := x5\<rparr>) = ring c"
  "ring (c\<lparr>nodes := x6\<rparr>) = ring c"
  "ring (c\<lparr>errs := x7\<rparr>) = ring c"
  "ring (c\<lparr>sessions := x8\<rparr>) = ring c"
  "ring (c\<lparr>active := x9\<rparr>) = ring c"
  "ring (c\<lparr>nextID := x10\<rparr>) = ring c"
  "ring (c\<lparr>rateSec := x11\<rparr>) = ring c"
  "ring (c\<lparr>rateUp := x12\<rparr>) = ring c"
  "ring (c\<lparr>rateDown := x13\<rparr>) = ring c"
  "ring (c\<lparr>peakUp := x14\<rparr>) = ring c"
  "ring (c\<lparr>peakDown := x15\<rparr>) = ring c"
  "ring (c\<lparr>start := x16\<rparr>) = ring c"
  by (simp_all add: ring_def)

lemma ring_ok_frame [simp, go_frame]:
  "ring_ok (c\<lparr>totals := x0\<rparr>) = ring_ok c"
  "ring_ok (c\<lparr>direct := x1\<rparr>) = ring_ok c"
  "ring_ok (c\<lparr>proxy := x2\<rparr>) = ring_ok c"
  "ring_ok (c\<lparr>dns := x3\<rparr>) = ring_ok c"
  "ring_ok (c\<lparr>dnsNames := x4\<rparr>) = ring_ok c"
  "ring_ok (c\<lparr>domains := x5\<rparr>) = ring_ok c"
  "ring_ok (c\<lparr>nodes := x6\<rparr>) = ring_ok c"
  "ring_ok (c\<lparr>errs := x7\<rparr>) = ring_ok c"
  "ring_ok (c\<lparr>sessions := x8\<rparr>) = ring_ok c"
  "ring_ok (c\<lparr>active := x9\<rparr>) = ring_ok c"
  "ring_ok (c\<lparr>nextID := x10\<rparr>) = ring_ok c"
  "ring_ok (c\<lparr>rateSec := x11\<rparr>) = ring_ok c"
  "ring_ok (c\<lparr>rateUp := x12\<rparr>) = ring_ok c"
  "ring_ok (c\<lparr>rateDown := x13\<rparr>) = ring_ok c"
  "ring_ok (c\<lparr>peakUp := x14\<rparr>) = ring_ok c"
  "ring_ok (c\<lparr>peakDown := x15\<rparr>) = ring_ok c"
  "ring_ok (c\<lparr>start := x16\<rparr>) = ring_ok c"
  by (simp_all add: ring_ok_def)

lemma history_ok_frame [simp, go_frame]:
  "history_ok (c\<lparr>totals := x0\<rparr>) = history_ok c"
  "history_ok (c\<lparr>direct := x1\<rparr>) = history_ok c"
  "history_ok (c\<lparr>proxy := x2\<rparr>) = history_ok c"
  "history_ok (c\<lparr>dns := x3\<rparr>) = history_ok c"
  "history_ok (c\<lparr>dnsNames := x4\<rparr>) = history_ok c"
  "history_ok (c\<lparr>domains := x5\<rparr>) = history_ok c"
  "history_ok (c\<lparr>nodes := x6\<rparr>) = history_ok c"
  "history_ok (c\<lparr>errs := x7\<rparr>) = history_ok c"
  "history_ok (c\<lparr>sessions := x8\<rparr>) = history_ok c"
  "history_ok (c\<lparr>active := x9\<rparr>) = history_ok c"
  "history_ok (c\<lparr>nextID := x10\<rparr>) = history_ok c"
  "history_ok (c\<lparr>rateSec := x11\<rparr>) = history_ok c"
  "history_ok (c\<lparr>rateUp := x12\<rparr>) = history_ok c"
  "history_ok (c\<lparr>rateDown := x13\<rparr>) = history_ok c"
  "history_ok (c\<lparr>peakUp := x14\<rparr>) = history_ok c"
  "history_ok (c\<lparr>peakDown := x15\<rparr>) = history_ok c"
  "history_ok (c\<lparr>start := x16\<rparr>) = history_ok c"
  by (simp_all add: history_ok_def)

lemma history_ok_cur: "bT b = bT (cur c) \<Longrightarrow> history_ok (c\<lparr>cur := b\<rparr>) = history_ok c"
  by (simp add: history_ok_def)

section \<open>History and totals agree\<close>

text \<open>
  As long as nothing has fallen off the ring, the buckets add up to the running total they break
  down. \<open>balanced f t c\<close> says so of one column \<open>f\<close> and its total \<open>t\<close>.
\<close>

definition balanced :: "(Bucket \<Rightarrow> int) \<Rightarrow> int \<Rightarrow> Collector \<Rightarrow> bool" where
  "balanced f t c \<longleftrightarrow> length (ring c) < bcap c \<longrightarrow> (\<Sum>b\<leftarrow>ring c @ [cur c]. f b) = t"

lemma balanced_frame [simp, go_frame]:
  "balanced f t (c\<lparr>totals := x0\<rparr>) = balanced f t c"
  "balanced f t (c\<lparr>direct := x1\<rparr>) = balanced f t c"
  "balanced f t (c\<lparr>proxy := x2\<rparr>) = balanced f t c"
  "balanced f t (c\<lparr>dns := x3\<rparr>) = balanced f t c"
  "balanced f t (c\<lparr>dnsNames := x4\<rparr>) = balanced f t c"
  "balanced f t (c\<lparr>domains := x5\<rparr>) = balanced f t c"
  "balanced f t (c\<lparr>nodes := x6\<rparr>) = balanced f t c"
  "balanced f t (c\<lparr>errs := x7\<rparr>) = balanced f t c"
  "balanced f t (c\<lparr>sessions := x8\<rparr>) = balanced f t c"
  "balanced f t (c\<lparr>active := x9\<rparr>) = balanced f t c"
  "balanced f t (c\<lparr>nextID := x10\<rparr>) = balanced f t c"
  "balanced f t (c\<lparr>rateSec := x11\<rparr>) = balanced f t c"
  "balanced f t (c\<lparr>rateUp := x12\<rparr>) = balanced f t c"
  "balanced f t (c\<lparr>rateDown := x13\<rparr>) = balanced f t c"
  "balanced f t (c\<lparr>peakUp := x14\<rparr>) = balanced f t c"
  "balanced f t (c\<lparr>peakDown := x15\<rparr>) = balanced f t c"
  "balanced f t (c\<lparr>start := x16\<rparr>) = balanced f t c"
  by (simp_all add: balanced_def)

lemma balanced_cur: "balanced f t c \<Longrightarrow> f b = f (cur c) + n \<Longrightarrow> balanced f (t + n) (c\<lparr>cur := b\<rparr>)"
  by (auto simp: balanced_def)

lemma balanced_cur_same: "f b = f (cur c) \<Longrightarrow> balanced f t (c\<lparr>cur := b\<rparr>) = balanced f t c"
  by (simp add: balanced_def)

lemma sum_closed_buckets:
  assumes "\<And>t. f (new_bucket t) = (0::int)" "k \<noteq> 0"
  shows "(\<Sum>b\<leftarrow>closed_buckets c k. f b) = f (cur c)"
  using assms by (simp add: closed_buckets_def comp_def)

lemma balanced_rotateLocked:
  assumes h: "history_ok c" and now: "0 \<le> Unix now" and bal: "balanced f t c"
    and zero: "\<And>t. f (new_bucket t) = 0"
  shows "balanced f t (rotateLocked c now)"
proof -
  define want where "want = alignUnix (Unix now) (BucketInterval (cfg c))"
  define k where "k = nat ((want - bT (cur c)) div interval_secs (BucketInterval (cfg c)))"
  note r = rotateLocked_ring [OF h now, folded want_def, folded k_def]
  show ?thesis
  proof (cases "length (ring c @ closed_buckets c k) < bcap c")
    case True
    then have "ring (rotateLocked c now) = ring c @ closed_buckets c k" by (simp add: r)
    moreover have "(\<Sum>b\<leftarrow>ring c. f b) + f (cur c) = t" using bal True by (simp add: balanced_def)
    ultimately show ?thesis
      using sum_closed_buckets [of f k c] zero
      by (cases "k = 0") (simp_all add: balanced_def r closed_buckets_def)
  next
    case False
    then show ?thesis by (simp add: balanced_def r)
  qed
qed

text \<open>The columns of a bucket and the running totals they break down.\<close>

definition columns :: "((Bucket \<Rightarrow> int) \<times> (Collector \<Rightarrow> int)) list" where
  "columns =
     [(bUpload, \<lambda>c. cUpload (totals c)), (bDownload, \<lambda>c. cDownload (totals c)),
      (bConns, \<lambda>c. cConns (totals c)), (bErrors, \<lambda>c. cErrors (totals c)),
      (bDirectUpload, \<lambda>c. cUpload (direct c)), (bDirectDownload, \<lambda>c. cDownload (direct c)),
      (bProxyUpload, \<lambda>c. cUpload (proxy c)), (bProxyDownload, \<lambda>c. cDownload (proxy c)),
      (bDirectConns, \<lambda>c. cConns (direct c)), (bProxyConns, \<lambda>c. cConns (proxy c)),
      (bDNSQueries, \<lambda>c. qQueries (dns c))]"

definition books_ok :: "Collector \<Rightarrow> bool" where
  "books_ok c \<longleftrightarrow> history_ok c \<and> list_all (\<lambda>(f, t). balanced f (t c) c) columns"

lemma books_ok_frame [simp, go_frame]:
  "books_ok (c\<lparr>dnsNames := x4\<rparr>) = books_ok c"
  "books_ok (c\<lparr>domains := x5\<rparr>) = books_ok c"
  "books_ok (c\<lparr>nodes := x6\<rparr>) = books_ok c"
  "books_ok (c\<lparr>errs := x7\<rparr>) = books_ok c"
  "books_ok (c\<lparr>sessions := x8\<rparr>) = books_ok c"
  "books_ok (c\<lparr>active := x9\<rparr>) = books_ok c"
  "books_ok (c\<lparr>nextID := x10\<rparr>) = books_ok c"
  "books_ok (c\<lparr>rateSec := x11\<rparr>) = books_ok c"
  "books_ok (c\<lparr>rateUp := x12\<rparr>) = books_ok c"
  "books_ok (c\<lparr>rateDown := x13\<rparr>) = books_ok c"
  "books_ok (c\<lparr>peakUp := x14\<rparr>) = books_ok c"
  "books_ok (c\<lparr>peakDown := x15\<rparr>) = books_ok c"
  "books_ok (c\<lparr>start := x16\<rparr>) = books_ok c"
  by (simp_all add: books_ok_def columns_def)

lemma books_ok_rotateLocked [go_inv]: "books_ok c \<Longrightarrow> 0 \<le> Unix now \<Longrightarrow> books_ok (rotateLocked c now)"
  unfolding books_ok_def columns_def
  by (simp add: history_ok_rotateLocked balanced_rotateLocked new_bucket_def)

text \<open>A posting: the bucket being filled and the totals move by the same amounts.\<close>

lemma books_ok_post:
  assumes "books_ok c" "history_ok c'" "ring c' = ring c" "bcap c' = bcap c"
    "\<And>f t. (f, t) \<in> set columns \<Longrightarrow> f (cur c') - f (cur c) = t c' - t c"
  shows "books_ok c'"
proof -
  have "balanced f (t c') c'" if "(f, t) \<in> set columns" for f t
  proof -
    have "balanced f (t c) c" using assms(1) that by (auto simp: books_ok_def list_all_iff)
    then show ?thesis using assms(3,4) assms(5) [OF that] by (auto simp: balanced_def)
  qed
  then show ?thesis using assms(2) by (auto simp: books_ok_def list_all_iff)
qed

lemma books_okD: "books_ok c \<Longrightarrow> history_ok c"
  by (simp add: books_ok_def)

lemma addRateLocked_frame [simp, go_frame]:
  "ring (addRateLocked c s up down) = ring c" "bcap (addRateLocked c s up down) = bcap c"
  "cur (addRateLocked c s up down) = cur c" "cfg (addRateLocked c s up down) = cfg c"
  "history_ok (addRateLocked c s up down) = history_ok c"
  "totals (addRateLocked c s up down) = totals c" "direct (addRateLocked c s up down) = direct c"
  "proxy (addRateLocked c s up down) = proxy c" "dns (addRateLocked c s up down) = dns c"
  "sessions (addRateLocked c s up down) = sessions c" "active (addRateLocked c s up down) = active c"
  "domains (addRateLocked c s up down) = domains c" "dnsNames (addRateLocked c s up down) = dnsNames c"
  "errs (addRateLocked c s up down) = errs c" "nodes (addRateLocked c s up down) = nodes c"
  "nextID (addRateLocked c s up down) = nextID c"
  by (simp_all add: addRateLocked_def Let_def)

lemma books_ok_addTraffic [go_inv]:
  assumes "books_ok c" "0 \<le> Unix now"
  shows "books_ok (addTraffic c now up down d)"
proof (cases "up = 0 \<and> down = 0")
  case False
  have r: "books_ok (rotateLocked c now)" by (rule books_ok_rotateLocked [OF assms])
  show ?thesis
    by (rule books_ok_post [OF r])
      (use False books_okD [OF r] in \<open>auto simp: addTraffic_def Let_def columns_def addUpload_def addDownload_def
         history_ok_cur split: Decision.splits\<close>)
qed (use assms in \<open>simp add: addTraffic_def\<close>)

lemma books_ok_bumpConnLocked [go_inv]:
  assumes "books_ok c" "0 \<le> Unix now"
  shows "books_ok (bumpConnLocked (c\<lparr>active := a, totals := (totals c)\<lparr>cConns := cConns (totals c) + 1\<rparr>\<rparr>) d now)"
proof -
  have r: "books_ok (rotateLocked c now)" by (rule books_ok_rotateLocked [OF assms])
  show ?thesis
    by (rule books_ok_post [OF r])
      (use books_okD [OF r] in \<open>auto simp: bumpConnLocked_def Let_def columns_def history_ok_cur
         split: Decision.splits\<close>)
qed

lemma books_ok_recordErrorLocked [go_inv]:
  assumes "books_ok c" "0 \<le> Unix now"
  shows "books_ok (recordErrorLocked c scope host msg now)"
proof -
  have r: "books_ok (rotateLocked c now)" by (rule books_ok_rotateLocked [OF assms])
  show ?thesis
    by (rule books_ok_post [OF r])
      (use books_okD [OF r] in \<open>auto simp: recordErrorLocked_def Let_def columns_def history_ok_cur\<close>)
qed

lemma books_ok_addDomainLocked [simp, go_frame]:
  "books_ok (addDomainLocked rng c now host d up down conns e) = books_ok c"
  by (simp add: addDomainLocked_def Let_def)

lemma books_ok_addDomain [simp, go_frame]:
  "books_ok (addDomain rng c now host d up down conns e) = books_ok c"
  by (simp add: addDomain_def)

lemma books_ok_put_session [simp, go_frame]: "books_ok (put_session i s c) = books_ok c"
  by (simp add: put_session_def)

lemma books_ok_flush [simp, go_frame]: "books_ok (flush rng c now i) = books_ok c"
  by (simp add: flush_def Let_def split: option.splits)

lemma count_dns_Queries [simp]: "qQueries (count_dns qtype upstream q) = qQueries q"
  by (simp add: count_dns_def Let_def)

lemma books_ok_dns: "qQueries q = qQueries (dns c) \<Longrightarrow> books_ok (c\<lparr>dns := q\<rparr>) = books_ok c"
  by (simp add: books_ok_def columns_def)

lemma books_ok_RecordDNS [go_inv]:
  assumes "books_ok c" "0 \<le> Unix now"
  shows "books_ok (RecordDNS rng c now domain qtype upstream err)"
proof -
  define c1 where "c1 = rotateLocked c now"
  define c2 where "c2 = c1\<lparr>dns := (dns c1)\<lparr>qQueries := qQueries (dns c1) + 1\<rparr>,
    cur := (cur c1)\<lparr>bDNSQueries := bDNSQueries (cur c1) + 1\<rparr>\<rparr>"
  define c3 where "c3 = c2\<lparr>dns := count_dns qtype upstream (dns c2)\<rparr>"
  have r: "books_ok c1" unfolding c1_def by (rule books_ok_rotateLocked [OF assms])
  have "books_ok c2"
    by (rule books_ok_post [OF r]) (use books_okD [OF r] in \<open>auto simp: c2_def columns_def history_ok_cur\<close>)
  then have "books_ok c3" by (simp add: c3_def books_ok_dns)
  then show ?thesis
    unfolding RecordDNS_def
    using books_ok_recordErrorLocked [OF _ assms(2)]
    by (auto simp: Let_def c1_def [symmetric] c2_def [symmetric] c3_def [symmetric] books_ok_dns
        split: option.splits)
qed

lemma books_ok_finish [go_inv]:
  assumes "books_ok c" "0 \<le> Unix now"
  shows "books_ok (finish rng c now s err)"
  unfolding finish_def Let_def
  by (cases err) (simp_all add: books_ok_bumpConnLocked books_ok_recordErrorLocked assms)

lemma books_ok_Reset [go_inv]:
  assumes "books_ok c" "clock_ok (cfg c) now"
  shows "books_ok (Reset c now)"
proof -
  have "0 < bcap c" using assms(1) by (simp add: books_ok_def history_ok_def ring_ok_def)
  moreover have "0 < alignUnix (Unix now) (BucketInterval (cfg c))"
    using assms(2) by (simp add: clock_ok_def alignUnix_pos)
  ultimately have "history_ok (Reset c now)"
    by (simp add: history_ok_def Reset_def ring_def ring_ok_def)
  moreover have "list_all (\<lambda>(f, t). balanced f (t (Reset c now)) (Reset c now)) columns"
    by (simp add: columns_def balanced_def Reset_def ring_def new_bucket_def zero_counters_def zero_dns_def)
  ultimately show ?thesis by (simp add: books_ok_def)
qed

lemma books_ok_New:
  "clock_ok (default_config g) now \<Longrightarrow> books_ok (New_collector now g)"
  using history_ok_New [of g now]
  by (simp add: books_ok_def clock_ok_def columns_def balanced_def New_collector_def Let_def ring_def
      new_bucket_def zero_counters_def zero_dns_def)

lemma books_ok_apply_op [go_inv]:
  assumes "books_ok c" "clock_ok (cfg c) now"
  shows "books_ok (apply_op rng now op c)"
proof (cases op)
  case OpReset
  then show ?thesis using assms by (simp add: books_ok_Reset)
qed (use assms(1) clock_okD [OF assms(2)] in \<open>auto simp: Begin_def AddUpload_def AddDownload_def AddDatagram_def
       SetNode_def End_def RecordError_def Let_def books_ok_addTraffic books_ok_recordErrorLocked
       books_ok_RecordDNS books_ok_finish books_ok_rotateLocked split: option.splits\<close>)

lemma cfg_frame [simp, go_frame]:
  "cfg (addTraffic c now up down d) = cfg c" "cfg (bumpConnLocked c d now) = cfg c"
  "cfg (recordErrorLocked c scope host msg now) = cfg c" "cfg (put_session i s c) = cfg c"
  "cfg (addDomainLocked rng c now host d up down conns e) = cfg c"
  "cfg (Reset c now) = cfg c"
  by (auto simp: addTraffic_def bumpConnLocked_def recordErrorLocked_def put_session_def addDomainLocked_def
      Reset_def Let_def split: Decision.splits)

lemma cfg_flush [simp, go_frame]: "cfg (flush rng c now i) = cfg c"
  by (auto simp: flush_def addDomain_def Let_def split: option.splits)

lemma cfg_apply_op [simp, go_frame]: "cfg (apply_op rng now op c) = cfg c"
  by (cases op) (auto simp: Begin_def AddUpload_def AddDownload_def AddDatagram_def addDomain_def
      SetNode_def End_def RecordError_def RecordDNS_def finish_def Let_def split: option.splits)

lemma reach_cfg: "reach P rng g c \<Longrightarrow> cfg c = default_config g"
  by (induction rule: reach.induct) (simp_all add: New_collector_def Let_def)

lemma reach_books: "reach P rng g c \<Longrightarrow> books_ok c"
  by (induction rule: reach.induct) (simp_all add: books_ok_New books_ok_apply_op reach_cfg)


definition test_config :: Config where
  "test_config = \<lparr>HistoryMinutes = 5, BucketInterval = 0, File = [], SaveInterval = 0, DomainLimit = 2,
     ErrorLimit = 1\<rparr>"

definition test_run :: Collector where
  "test_run = apply_op rev 200000000000 (OpDownload 1 7)
     (apply_op rev 130000000000 (OpUpload 1 10)
       (apply_op rev 100000000000 (OpBegin ProtoHTTP ''c'' ''a.b'' 80 DecisionProxy ''n'')
         (New_collector 100000000000 test_config)))"

lemma reach_test_run: "reach (\<lambda>_. True) rev test_config test_run"
  unfolding test_run_def
  by (intro reach_op reach_new) (simp_all add: clock_ok_def test_config_def default_config_def stats_consts
      interval_secs_def Unix_def)


end
