(* ===== verification/Stats_Tables.thy ===== *)
theory Stats_Tables
  imports Stats_Books
begin

text \<open>
  Package \<^verbatim>\<open>core/stats\<close>, the bounded tables: what pruning keeps, the caps on the domain tables and
  the error log, and the DNS counters.
\<close>

section \<open>Pruning\<close>

definition table_ok :: "table \<Rightarrow> bool" where
  "table_ok m \<longleftrightarrow> distinct (map fst m) \<and> (\<forall>(k, d) \<in> set m. dDomain d = k)"

lemma table_ok_rows: "table_ok m \<Longrightarrow> map dDomain (map snd m) = map fst m"
  by (auto simp: table_ok_def)

lemma set_update_subset: "set (AList.update k v m) \<subseteq> insert (k, v) (set m)"
  by (induction m) auto

lemma table_ok_update:
  "table_ok m \<Longrightarrow> dDomain d = k \<Longrightarrow> table_ok (AList.update k d m)"
  unfolding table_ok_def using set_update_subset [of k d m] by (auto simp: distinct_update)

lemma table_ok_filter: "table_ok m \<Longrightarrow> table_ok (filter P m)"
  by (auto simp: table_ok_def distinct_map_filter)

lemma fold_delete:
  "fold (\<lambda>d m. AList.delete (dDomain d) m) ds m = filter (\<lambda>p. fst p \<notin> dDomain ` set ds) m"
proof (induction ds arbitrary: m)
  case (Cons d ds)
  have "filter (\<lambda>p. fst p \<notin> dDomain ` set ds) (AList.delete (dDomain d) m)
      = filter (\<lambda>p. fst p \<notin> dDomain ` set (d # ds)) m"
    unfolding AList.delete_eq filter_filter by (rule filter_cong) auto
  then show ?case using Cons by simp
qed simp

lemma pruneLocked_filter:
  "pruneLocked rng limit m =
     filter (\<lambda>p. fst p \<notin> dDomain ` set (drop (prune_keep limit) (prune_order rng m))) m"
  by (simp add: pruneLocked_def fold_delete)

lemma table_ok_pruneLocked [go_inv]: "table_ok m \<Longrightarrow> table_ok (pruneLocked rng limit m)"
  by (simp add: pruneLocked_filter table_ok_filter)

lemma pruneLocked_rows:
  assumes ok: "table_ok m" and rng: "range_order rng"
  shows "mset (map snd (pruneLocked rng limit m)) = mset (take (prune_keep limit) (prune_order rng m))"
    and "p \<in> set m \<Longrightarrow> p \<notin> set (pruneLocked rng limit m) \<Longrightarrow> snd p \<in> set (drop (prune_keep limit) (prune_order rng m))"
proof -
  define ord where "ord = prune_order rng m"
  define k where "k = prune_keep limit"
  have ms: "mset ord = mset (map snd m)"
    unfolding ord_def prune_order_def mset_sort_slice using range_orderD(1) [OF rng] by simp
  then have so: "set ord = snd ` set m" by (metis set_mset_mset set_map)
  have dist: "distinct (map dDomain ord)"
    using ok table_ok_rows [OF ok] mset_eq_imp_distinct_iff [of "map dDomain ord" "map fst m"] ms
    by (metis mset_map table_ok_def)
  have disj: "dDomain ` set (take k ord) \<inter> dDomain ` set (drop k ord) = {}"
    using dist append_take_drop_id [of k ord] by (metis distinct_append map_append set_map)
  have key: "fst p = dDomain (snd p)" if "p \<in> set m" for p
    using ok that by (auto simp: table_ok_def)
  have "mset (map snd (pruneLocked rng limit m)) =
      mset (filter (\<lambda>d. dDomain d \<notin> dDomain ` set (drop k ord)) (map snd m))"
    unfolding pruneLocked_filter ord_def [symmetric] k_def [symmetric] filter_map
    by (rule arg_cong [where f = "\<lambda>x. mset (map snd x)"], rule filter_cong) (auto simp: key)
  also have "\<dots> = mset (filter (\<lambda>d. dDomain d \<notin> dDomain ` set (drop k ord)) ord)"
    by (simp only: mset_filter ms)
  also have "filter (\<lambda>d. dDomain d \<notin> dDomain ` set (drop k ord)) ord
      = filter (\<lambda>d. dDomain d \<notin> dDomain ` set (drop k ord)) (take k ord @ drop k ord)" by simp
  also have "\<dots> = take k ord"
  proof -
    have "filter (\<lambda>d. dDomain d \<notin> dDomain ` set (drop k ord)) (take k ord) = take k ord"
      using disj by (intro filter_True) blast
    moreover have "filter (\<lambda>d. dDomain d \<notin> dDomain ` set (drop k ord)) (drop k ord) = []"
      by (intro filter_False) blast
    ultimately show ?thesis unfolding filter_append by simp
  qed
  finally show "mset (map snd (pruneLocked rng limit m)) = mset (take (prune_keep limit) (prune_order rng m))"
    by (simp add: ord_def k_def)
  assume p: "p \<in> set m" "p \<notin> set (pruneLocked rng limit m)"
  then have "fst p \<in> dDomain ` set (drop k ord)" by (simp add: pruneLocked_filter ord_def k_def)
  then obtain d where d: "d \<in> set (drop k ord)" "dDomain d = dDomain (snd p)" using key [OF p(1)] by auto
  then have "d \<in> set ord" "snd p \<in> set ord" using so p(1) by (auto dest: in_set_dropD)
  then have "d = snd p" using dist d(2) by (meson distinct_map inj_onD)
  then show "snd p \<in> set (drop (prune_keep limit) (prune_order rng m))" using d(1) by (simp add: ord_def k_def)
qed

lemma prune_keep_max: "1 \<le> limit \<Longrightarrow> int (prune_keep limit) = max 1 (limit * 3 div 4)"
  by (auto simp: prune_keep_def Let_def)

lemma prune_keep_le: "1 \<le> limit \<Longrightarrow> int (prune_keep limit) \<le> limit"
  by (auto simp: prune_keep_max)

text \<open>Pruning an overfull table keeps three quarters of its cap (at least one row), keeps rows
  unchanged, and no row it drops carries more traffic than a row it keeps, in whatever order the
  map is visited.\<close>

theorem pruneLocked_keeps_busiest:
  assumes "table_ok m" and "range_order rng" and "1 \<le> limit" and "limit < int (length m)"
  shows "set (pruneLocked rng limit m) \<subseteq> set m
    \<and> int (length (pruneLocked rng limit m)) = max 1 (limit * 3 div 4)
    \<and> (\<forall>p \<in> set (pruneLocked rng limit m). \<forall>q \<in> set m - set (pruneLocked rng limit m).
         DomainStat_Total (snd q) \<le> DomainStat_Total (snd p))"
proof (intro conjI ballI)
  show "set (pruneLocked rng limit m) \<subseteq> set m" by (auto simp: pruneLocked_filter)
  note rows = pruneLocked_rows [OF assms(1,2), where limit = limit]
  have "length (prune_order rng m) = length m"
    using range_orderD(3) [OF assms(2)] by (simp add: prune_order_def)
  moreover have "length (pruneLocked rng limit m) = length (take (prune_keep limit) (prune_order rng m))"
    using rows(1) by (metis length_map size_mset)
  ultimately show "int (length (pruneLocked rng limit m)) = max 1 (limit * 3 div 4)"
    using assms(4) prune_keep_le [OF assms(3)] prune_keep_max [OF assms(3)] by simp
  fix p q
  assume p: "p \<in> set (pruneLocked rng limit m)" and q: "q \<in> set m - set (pruneLocked rng limit m)"
  have "snd p \<in> set (take (prune_keep limit) (prune_order rng m))"
    using p rows(1) by (metis image_eqI set_map set_mset_mset)
  moreover have "snd q \<in> set (drop (prune_keep limit) (prune_order rng m))" using q rows(2) by blast
  ultimately have "\<not> by_key_desc DomainStat_Total (snd q) (snd p)"
    unfolding prune_order_def by (rule key_desc.top_of_sort_slice)
  then show "DomainStat_Total (snd q) \<le> DomainStat_Total (snd p)" by (simp add: by_key_desc_def)
qed

theorem pruneLocked_keeps_busiest_witness:
  "let m = [(''a'', (new_domain ''a'')\<lparr>dUpload := 5\<rparr>), (''b'', new_domain ''b''),
            (''c'', (new_domain ''c'')\<lparr>dDownload := 9\<rparr>)]
   in table_ok m \<and> length (pruneLocked rev 2 m) = 1
      \<and> (\<forall>p \<in> set (pruneLocked rev 2 m). 9 \<le> DomainStat_Total (snd p))"
proof -
  define m where "m = [(''a'', (new_domain ''a'')\<lparr>dUpload := 5\<rparr>), (''b'', new_domain ''b''),
    (''c'', (new_domain ''c'')\<lparr>dDownload := 9\<rparr>)]"
  have ok: "table_ok m" unfolding m_def by code_simp
  have l: "2 < int (length m)" by (simp add: m_def)
  note k = pruneLocked_keeps_busiest [OF ok range_order_rev, of 2]
  have one: "length (pruneLocked rev 2 m) = 1" using k l by simp
  have "pruneLocked rev 2 m = [(''c'', (new_domain ''c'')\<lparr>dDownload := 9\<rparr>)]" unfolding m_def by code_simp
  then show ?thesis using ok one unfolding m_def [symmetric] Let_def
    by (simp add: DomainStat_Total_def new_domain_def)
qed

text \<open>The table after an update and the prune that follows it.\<close>

lemma dDomain_row_of: "table_ok m \<Longrightarrow> dDomain (row_of k m) = k"
  by (auto simp: row_of_def new_domain_def table_ok_def split: option.splits dest: map_of_SomeD)

lemma length_update: "length (AList.update k v m) = (if k \<in> fst ` set m then length m else Suc (length m))"
  by (induction m) auto

lemma table_ok_prune_if_full [go_inv]: "table_ok m \<Longrightarrow> table_ok (prune_if_full rng limit m)"
  by (simp add: prune_if_full_def table_ok_pruneLocked)

lemma length_prune_if_full:
  assumes "table_ok m" "range_order rng" "1 \<le> limit"
  shows "int (length (prune_if_full rng limit m)) \<le> limit"
proof (cases "limit < int (length m)")
  case True
  then show ?thesis
    using pruneLocked_rows(1) [OF assms(1,2), of limit] prune_keep_le [OF assms(3)]
    by (metis dual_order.trans length_map length_take min.cobounded2 of_nat_mono prune_if_full_def size_mset)
qed (simp add: prune_if_full_def)

section \<open>The error log is a bounded log\<close>

interpretation error_log: bounded_log "\<lambda>c e. c\<lparr>errs := log_error (ErrorLimit (cfg c)) (errs c) e\<rparr>" errs
  "\<lambda>c. nat (ErrorLimit (cfg c))" "\<lambda>c. 0 < ErrorLimit (cfg c) \<and> int (length (errs c)) \<le> ErrorLimit (cfg c)"
  by unfold_locales (auto simp: log_error_def last_n_def Let_def)

definition error_entry :: "instant \<times> string \<times> string \<times> string \<Rightarrow> ErrorEntry" where
  "error_entry = (\<lambda>(now, scope, host, msg). \<lparr>eT = Unix now, eTime = now, eScope = scope, eHost = host, eMessage = msg\<rparr>)"

lemma RecordError_errs:
  "errs (RecordError c now scope host msg)
     = errs (c\<lparr>errs := log_error (ErrorLimit (cfg c)) (errs c) (error_entry (now, scope, host, msg))\<rparr>)"
  "cfg (RecordError c now scope host msg) = cfg c"
  "cErrors (totals (RecordError c now scope host msg)) = cErrors (totals c) + 1"
  by (simp_all add: RecordError_def recordErrorLocked_def Let_def error_entry_def)

text \<open>The error log holds the newest \<^verbatim>\<open>ErrorLimit\<close> of all recorded errors, oldest first, and the
  error counter counts all of them.\<close>

theorem error_log_newest:
  fixes c :: Collector and es :: "(instant \<times> string \<times> string \<times> string) list"
  assumes "0 < ErrorLimit (cfg c)" and "int (length (errs c)) \<le> ErrorLimit (cfg c)"
  defines "c' \<equiv> foldl (\<lambda>c (now, scope, host, msg). RecordError c now scope host msg) c es"
  shows "errs c' = last_n (nat (ErrorLimit (cfg c))) (errs c @ map error_entry es)
    \<and> cErrors (totals c') = cErrors (totals c) + int (length es)"
proof -
  let ?push = "\<lambda>c e. c\<lparr>errs := log_error (ErrorLimit (cfg c)) (errs c) e\<rparr>"
  let ?run = "foldl (\<lambda>c (now, scope, host, msg). RecordError c now scope host msg)"
  have "errs (?run c es) = errs (foldl ?push b (map error_entry es))"
    if "errs b = errs c" "cfg b = cfg c" for b c :: Collector
    using that
  proof (induction es arbitrary: b c)
    case (Cons e es)
    then show ?case by (cases e) (simp add: RecordError_errs)
  qed simp
  from this [of c c] have "errs c' = last_n (nat (ErrorLimit (cfg c))) (errs c @ map error_entry es)"
    using error_log.pushes_contents [of c "map error_entry es"] assms by simp
  moreover have "cErrors (totals (?run c es)) = cErrors (totals c) + int (length es)" for c
    by (induction es arbitrary: c) (auto simp: RecordError_errs)
  ultimately show ?thesis by (simp add: c'_def)
qed

theorem error_log_newest_witness:
  "map eMessage (errs (foldl (\<lambda>c (now, scope, host, msg). RecordError c now scope host msg)
     (New_collector 100000000000 test_config)
     [(100000000000, ''dns'', ''a'', ''x''), (101000000000, ''http'', ''b'', ''y'')])) = [''y'']"
proof -
  have "0 < ErrorLimit (cfg (New_collector 100000000000 test_config))"
    "int (length (errs (New_collector 100000000000 test_config)))
       \<le> ErrorLimit (cfg (New_collector 100000000000 test_config))" by code_simp+
  note e = error_log_newest [OF this, of "[(100000000000, ''dns'', ''a'', ''x''), (101000000000, ''http'', ''b'', ''y'')]"]
  have "errs (New_collector 100000000000 test_config) = []"
    "ErrorLimit (cfg (New_collector 100000000000 test_config)) = 1" by code_simp+
  with e show ?thesis by (simp add: last_n_def error_entry_def)
qed

section \<open>Caps and DNS counters\<close>

definition count_of :: "string \<Rightarrow> (string \<times> int) list \<Rightarrow> int" where
  "count_of k m = (case map_of m k of None \<Rightarrow> 0 | Some v \<Rightarrow> v)"

definition dns_ok :: "DNSStat \<Rightarrow> bool" where
  "dns_ok q \<longleftrightarrow> qQueries q = sum_list (map snd (qByUpstream q))
     \<and> qCacheHits q = count_of ''cache'' (qByUpstream q) \<and> qDirect q = count_of ''direct'' (qByUpstream q)
     \<and> qDoH q = count_of ''doh'' (qByUpstream q)
     \<and> sum_list (map snd (qByType q)) \<le> qQueries q \<and> 0 \<le> qFailures q \<and> qFailures q \<le> qQueries q"

definition tables_ok :: "Collector \<Rightarrow> bool" where
  "tables_ok c \<longleftrightarrow> 1 \<le> DomainLimit (cfg c) \<and> 1 \<le> ErrorLimit (cfg c)
     \<and> table_ok (domains c) \<and> int (length (domains c)) \<le> DomainLimit (cfg c)
     \<and> table_ok (dnsNames c) \<and> int (length (dnsNames c)) \<le> DomainLimit (cfg c)
     \<and> (\<forall>d \<in> snd ` set (dnsNames c). dUpload d = 0 \<and> dDownload d = 0)
     \<and> int (length (errs c)) \<le> ErrorLimit (cfg c) \<and> dns_ok (dns c)"

lemma tables_ok_cong:
  "cfg c' = cfg c \<Longrightarrow> domains c' = domains c \<Longrightarrow> dnsNames c' = dnsNames c \<Longrightarrow> errs c' = errs c
     \<Longrightarrow> dns c' = dns c \<Longrightarrow> tables_ok c' = tables_ok c"
  by (simp add: tables_ok_def)

lemma tables_frame [simp, go_frame]:
  "tables_ok (addTraffic c now up down d) = tables_ok c"
  "tables_ok (bumpConnLocked c d now) = tables_ok c"
  "tables_ok (put_session i s c) = tables_ok c"
  "tables_ok (rotateLocked c now) = tables_ok c"
  "tables_ok (c\<lparr>totals := x\<rparr>) = tables_ok c" "tables_ok (c\<lparr>active := y\<rparr>) = tables_ok c"
  "tables_ok (c\<lparr>nodes := z\<rparr>) = tables_ok c" "tables_ok (c\<lparr>nextID := n\<rparr>) = tables_ok c"
  "tables_ok (c\<lparr>cur := b\<rparr>) = tables_ok c"
  by (rule tables_ok_cong;
      auto simp: addTraffic_def bumpConnLocked_def put_session_def Let_def split: Decision.splits)+

lemma tables_ok_recordErrorLocked [go_inv]:
  assumes "tables_ok c" shows "tables_ok (recordErrorLocked c scope host msg now)"
  using assms by (auto simp: tables_ok_def recordErrorLocked_def Let_def log_error_def)

lemma tables_ok_addDomainLocked [go_inv]:
  assumes "tables_ok c" "range_order rng"
  shows "tables_ok (addDomainLocked rng c now host d up down conns e)"
proof -
  have "table_ok (AList.update host r (domains c))" if "dDomain r = host" for r
    using assms(1) that by (simp add: tables_ok_def table_ok_update)
  moreover have "dDomain (row_of host (domains c)) = host" using assms(1) by (simp add: tables_ok_def dDomain_row_of)
  ultimately show ?thesis
    using assms by (simp add: tables_ok_def addDomainLocked_def Let_def table_ok_prune_if_full
        length_prune_if_full split: Decision.splits)
qed

lemma tables_ok_flush [go_inv]: "tables_ok c \<Longrightarrow> range_order rng \<Longrightarrow> tables_ok (flush rng c now i)"
  by (auto simp: flush_def addDomain_def Let_def tables_ok_addDomainLocked split: option.splits)

lemma count_of_bump: "count_of k (bump j d m) = count_of k m + (if k = j then d else 0)"
  by (simp add: count_of_def map_of_bump)

lemma dns_ok_count:
  "dns_ok q \<Longrightarrow> dns_ok (count_dns qtype upstream (q\<lparr>qQueries := qQueries q + 1\<rparr>))"
  by (auto simp: dns_ok_def count_dns_def Let_def count_of_bump sum_bump)

lemma count_dns_Failures [simp]: "qFailures (count_dns qtype upstream q) = qFailures q"
  by (simp add: count_dns_def Let_def)

lemma dns_ok_failure: "dns_ok q \<Longrightarrow> qFailures q < qQueries q \<Longrightarrow> dns_ok (q\<lparr>qFailures := qFailures q + 1\<rparr>)"
  by (simp add: dns_ok_def)

lemma rows_prune_if_full: "snd ` set (prune_if_full rng limit m) \<subseteq> snd ` set m"
  by (auto simp: prune_if_full_def pruneLocked_filter)

lemma tables_ok_dnsName:
  assumes "tables_ok c" "range_order rng" "dDomain r = domain" "dUpload r = 0" "dDownload r = 0"
  shows "tables_ok (c\<lparr>dnsNames := prune_if_full rng (DomainLimit (cfg c)) (AList.update domain r (dnsNames c))\<rparr>)"
proof -
  have t: "table_ok (AList.update domain r (dnsNames c))"
    using assms by (simp add: tables_ok_def table_ok_update)
  have "snd ` set (AList.update domain r (dnsNames c)) \<subseteq> insert r (snd ` set (dnsNames c))"
    using set_update_subset [of domain r "dnsNames c"] by force
  then have "snd ` set (prune_if_full rng (DomainLimit (cfg c)) (AList.update domain r (dnsNames c)))
      \<subseteq> insert r (snd ` set (dnsNames c))"
    using rows_prune_if_full by (rule subset_trans [rotated])
  moreover have "\<forall>d \<in> insert r (snd ` set (dnsNames c)). dUpload d = 0 \<and> dDownload d = 0"
    using assms by (simp add: tables_ok_def)
  ultimately have "\<forall>d \<in> snd ` set (prune_if_full rng (DomainLimit (cfg c)) (AList.update domain r (dnsNames c))).
      dUpload d = 0 \<and> dDownload d = 0"
    by (metis (no_types, lifting) subsetD)
  then show ?thesis
    using assms t by (simp add: tables_ok_def table_ok_prune_if_full length_prune_if_full)
qed

lemma row_of_cases: "row_of k m = new_domain k \<or> row_of k m \<in> snd ` set m"
  by (cases "map_of m k") (auto simp: row_of_def dest!: map_of_SomeD intro: rev_image_eqI)

lemma row_of_dns:
  "tables_ok c \<Longrightarrow> dDomain (row_of domain (dnsNames c)) = domain \<and> dUpload (row_of domain (dnsNames c)) = 0
     \<and> dDownload (row_of domain (dnsNames c)) = 0"
  using row_of_cases [of domain "dnsNames c"]
  by (auto simp: tables_ok_def dDomain_row_of new_domain_def)

lemma tables_ok_RecordDNS [go_inv]:
  assumes "tables_ok c" "range_order rng"
  shows "tables_ok (RecordDNS rng c now domain qtype upstream err)"
proof -
  define c1 where "c1 = rotateLocked c now"
  define c2 where "c2 = c1\<lparr>dns := (dns c1)\<lparr>qQueries := qQueries (dns c1) + 1\<rparr>,
    cur := (cur c1)\<lparr>bDNSQueries := bDNSQueries (cur c1) + 1\<rparr>\<rparr>"
  define c3 where "c3 = c2\<lparr>dns := count_dns qtype upstream (dns c2)\<rparr>"
  define c4 where "c4 = (case err of None \<Rightarrow> c3 | Some msg \<Rightarrow>
    recordErrorLocked (c3\<lparr>dns := (dns c3)\<lparr>qFailures := qFailures (dns c3) + 1\<rparr>\<rparr>) ''dns'' domain msg now)"
  have c1: "tables_ok c1" using assms by (simp add: c1_def)
  then have q: "dns_ok (dns c1)" by (simp add: tables_ok_def)
  have c3: "tables_ok c3" "qFailures (dns c3) < qQueries (dns c3)"
    using c1 dns_ok_count [OF q] q by (auto simp: c3_def c2_def tables_ok_def dns_ok_def)
  have "tables_ok (c3\<lparr>dns := (dns c3)\<lparr>qFailures := qFailures (dns c3) + 1\<rparr>\<rparr>)"
    using c3 by (auto simp: tables_ok_def intro: dns_ok_failure)
  then have c4: "tables_ok c4" using c3(1) by (auto simp: c4_def tables_ok_recordErrorLocked split: option.splits)
  define r where "r = (row_of domain (dnsNames c4))\<lparr>dConns := dConns (row_of domain (dnsNames c4)) + 1,
    dLastSeen := Unix now\<rparr>"
  have "RecordDNS rng c now domain qtype upstream err = (if domain = [] then c4 else
      c4\<lparr>dnsNames := prune_if_full rng (DomainLimit (cfg c4)) (AList.update domain
        (if err \<noteq> None then r\<lparr>dErrors := dErrors r + 1\<rparr> else r) (dnsNames c4))\<rparr>)"
    unfolding RecordDNS_def Let_def r_def c4_def c3_def c2_def c1_def by (rule refl)
  then show ?thesis
    using c4 row_of_dns [OF c4, of domain]
    by (auto simp: r_def intro!: tables_ok_dnsName [OF c4 assms(2)])
qed

lemma tables_ok_apply_op [go_inv]:
  assumes "tables_ok c" "range_order rng"
  shows "tables_ok (apply_op rng now op c)"
proof (cases op)
  case OpReset
  then show ?thesis using assms
    by (simp add: tables_ok_def Reset_def table_ok_def dns_ok_def zero_dns_def count_of_def)
qed (use assms in \<open>auto simp: Begin_def AddUpload_def AddDownload_def AddDatagram_def addDomain_def
       SetNode_def End_def RecordError_def finish_def Let_def tables_ok_recordErrorLocked tables_ok_RecordDNS
       tables_ok_addDomainLocked tables_ok_flush split: option.splits\<close>)

lemma tables_ok_New: "tables_ok (New_collector now g)"
  using default_config_pos [of g]
  by (simp add: tables_ok_def New_collector_def Let_def table_ok_def dns_ok_def zero_dns_def count_of_def)

lemma reach_tables: "range_order rng \<Longrightarrow> reach P rng g c \<Longrightarrow> tables_ok c"
  by (rotate_tac 1, induction rule: reach.induct) (simp_all add: tables_ok_New tables_ok_apply_op)

text \<open>C32. Memory stays bounded and the DNS counters are consistent: after any sequence of operations
  the domain tables and the error log are within their configured caps, every query is counted
  under exactly one upstream, and the cache, direct and DoH counters are the counts of those
  upstreams.\<close>

theorem collector_bounded:
  assumes "range_order rng" and "reach P rng g c"
  shows "int (length (domains c)) \<le> DomainLimit (cfg c) \<and> int (length (dnsNames c)) \<le> DomainLimit (cfg c)
    \<and> int (length (errs c)) \<le> ErrorLimit (cfg c)
    \<and> qQueries (dns c) = (\<Sum>n\<leftarrow>map snd (qByUpstream (dns c)). n)
    \<and> qCacheHits (dns c) = count_of ''cache'' (qByUpstream (dns c))
    \<and> qDirect (dns c) = count_of ''direct'' (qByUpstream (dns c))
    \<and> qDoH (dns c) = count_of ''doh'' (qByUpstream (dns c))
    \<and> qFailures (dns c) \<le> qQueries (dns c)"
  using reach_tables [OF assms] by (simp add: tables_ok_def dns_ok_def)

theorem collector_bounded_witness:
  "let c = apply_op rev 200000000000 (OpDNS ''x.y'' ''A'' ''doh'' None) test_run
   in qQueries (dns c) = 1 \<and> qDoH (dns c) = count_of ''doh'' (qByUpstream (dns c))
      \<and> int (length (domains c)) \<le> 2"
proof -
  define c where "c = apply_op rev 200000000000 (OpDNS ''x.y'' ''A'' ''doh'' None) test_run"
  have "clock_ok (default_config test_config) 200000000000" by code_simp
  then have "reach (\<lambda>_. True) rev test_config c"
    unfolding c_def by (intro reach_op reach_test_run) simp_all
  note b = collector_bounded [OF range_order_rev this]
  have "qQueries (dns c) = 1" "DomainLimit (cfg c) = 2" unfolding c_def by code_simp+
  with b show ?thesis unfolding c_def [symmetric] Let_def by simp
qed

text \<open>Pruning the table of queried names is blind. Its rows never carry bytes, so all compare
  equal under the byte totals \<^verbatim>\<open>pruneLocked\<close> sorts by, and what is dropped is whatever the
  iteration order of the map visits last, however often it was queried.\<close>

theorem dns_prune_arbitrary:
  assumes "range_order rng" and "reach P rng g c"
  shows "prune_order rng (dnsNames c) = rng (map snd (dnsNames c))
    \<and> mset (map snd (pruneLocked rng limit (dnsNames c))) = mset (take (prune_keep limit) (rng (map snd (dnsNames c))))"
proof -
  have t: "tables_ok c" by (rule reach_tables [OF assms])
  have zero: "DomainStat_Total d = 0" if "d \<in> set (rng (map snd (dnsNames c)))" for d
    using t that by (auto simp: tables_ok_def DomainStat_Total_def range_orderD(2) [OF assms(1)])
  have "sorted_wrt (\<lambda>x y. \<not> by_key_desc DomainStat_Total y x) (rng (map snd (dnsNames c)))"
    using zero by (auto simp: sorted_wrt_iff_nth_less by_key_desc_def)
  then have "prune_order rng (dnsNames c) = rng (map snd (dnsNames c))"
    unfolding prune_order_def by (rule key_desc.sort_slice_sorted)
  then show ?thesis
    using pruneLocked_rows(1) [OF _ assms(1), of "dnsNames c" limit] t by (simp add: tables_ok_def)
qed

text \<open>A name that was queried three times is dropped for one that was queried once.\<close>

theorem dns_prune_arbitrary_witness:
  "let q = (\<lambda>n c. apply_op rev 100000000000 (OpDNS n ''A'' ''doh'' None) c);
       c = q ''b'' (q ''a'' (q ''a'' (q ''a'' (New_collector 100000000000 test_config))))
   in map (\<lambda>(k, d). (k, dConns d)) (dnsNames c) = [(''a'', 3), (''b'', 1)]
      \<and> map dDomain (map snd (pruneLocked rev 2 (dnsNames c))) = [''b'']"
proof -
  define q where "q = (\<lambda>n c. apply_op rev 100000000000 (OpDNS n ''A'' ''doh'' None) c)"
  define c where "c = q ''b'' (q ''a'' (q ''a'' (q ''a'' (New_collector 100000000000 test_config))))"
  have ck: "clock_ok (default_config test_config) 100000000000" by code_simp
  have "reach (\<lambda>_. True) rev test_config c"
    unfolding c_def q_def by (intro reach_op reach_new ck) simp_all
  note b = dns_prune_arbitrary [OF range_order_rev this, of 2]
  have d: "map (\<lambda>(k, d). (k, dConns d)) (dnsNames c) = [(''a'', 3), (''b'', 1)]"
    "take (prune_keep 2) (rev (map snd (dnsNames c))) = [snd (dnsNames c ! 1)]" "dDomain (snd (dnsNames c ! 1)) = ''b''"
    unfolding c_def q_def by code_simp+
  from b d(2) have "mset (map snd (pruneLocked rev 2 (dnsNames c))) = {#snd (dnsNames c ! 1)#}" by simp
  then have "map snd (pruneLocked rev 2 (dnsNames c)) = [snd (dnsNames c ! 1)]"
    by (simp only: mset_single_iff)
  with d show ?thesis unfolding q_def [symmetric] Let_def c_def [symmetric] by simp
qed

end
