(* ===== verification/Stats_Sessions.thy ===== *)
theory Stats_Sessions
  imports Stats_Tables
begin

text \<open>
  Package \<^verbatim>\<open>core/stats\<close>, the accounting of sessions: what a session's bytes add to the totals and to
  the domain table, and that a session is closed once.
\<close>

section \<open>Sums over an association list\<close>

definition rows_sum :: "('v \<Rightarrow> int) \<Rightarrow> ('k \<times> 'v) list \<Rightarrow> int" where
  "rows_sum f m = (\<Sum>p\<leftarrow>m. f (snd p))"

lemma rows_sum_simps [simp]: "rows_sum f [] = 0" "rows_sum f (p # m) = f (snd p) + rows_sum f m"
  by (simp_all add: rows_sum_def)

lemma rows_sum_update:
  "distinct (map fst m) \<Longrightarrow>
    rows_sum f (AList.update k v m) = rows_sum f m + f v - (case map_of m k of None \<Rightarrow> 0 | Some w \<Rightarrow> f w)"
  by (induction m) (auto split: option.splits dest: map_of_SomeD)

section \<open>The store of sessions\<close>

definition sessions_ok :: "Collector \<Rightarrow> bool" where
  "sessions_ok c \<longleftrightarrow> distinct (map fst (sessions c)) \<and> 0 \<le> nextID c
     \<and> (\<forall>(i, s) \<in> set (sessions c). sId s = i \<and> i \<le> nextID c) \<and> distinct (active c)
     \<and> (\<forall>i. i \<in> set (active c) \<longleftrightarrow> (\<exists>s. map_of (sessions c) i = Some s \<and> \<not> sDone s))"

lemma sessions_ok_cong:
  "sessions c' = sessions c \<Longrightarrow> active c' = active c \<Longrightarrow> nextID c' = nextID c \<Longrightarrow> sessions_ok c' = sessions_ok c"
  by (simp add: sessions_ok_def)

text \<open>What the other operations leave alone.\<close>

lemma session_frame [simp, go_frame]:
  "sessions (addTraffic c now up down d) = sessions c" "active (addTraffic c now up down d) = active c"
  "nextID (addTraffic c now up down d) = nextID c"
  "sessions (bumpConnLocked c d now) = sessions c" "active (bumpConnLocked c d now) = active c"
  "nextID (bumpConnLocked c d now) = nextID c"
  "sessions (recordErrorLocked c scope host msg now) = sessions c"
  "active (recordErrorLocked c scope host msg now) = active c"
  "nextID (recordErrorLocked c scope host msg now) = nextID c"
  "sessions (addDomainLocked rng c now host d up down conns e) = sessions c"
  "active (addDomainLocked rng c now host d up down conns e) = active c"
  "nextID (addDomainLocked rng c now host d up down conns e) = nextID c"
  "sessions (addDomain rng c now host d up down conns e) = sessions c"
  "active (addDomain rng c now host d up down conns e) = active c"
  "nextID (addDomain rng c now host d up down conns e) = nextID c"
  "sessions (put_session i s c) = AList.update i s (sessions c)" "active (put_session i s c) = active c"
  "nextID (put_session i s c) = nextID c"
  "sessions (RecordDNS rng c now domain qtype upstream err) = sessions c"
  "active (RecordDNS rng c now domain qtype upstream err) = active c"
  "nextID (RecordDNS rng c now domain qtype upstream err) = nextID c"
  by (auto simp: addTraffic_def bumpConnLocked_def recordErrorLocked_def addDomainLocked_def addDomain_def
      put_session_def RecordDNS_def Let_def split: Decision.splits option.splits)

lemma totals_frame [simp, go_frame]:
  "totals (put_session i s c) = totals c"
  "totals (addDomainLocked rng c now host d up down conns e) = totals c"
  "totals (addDomain rng c now host d up down conns e) = totals c"
  "totals (addTraffic c now up down d) = addDownload down (addUpload up (totals c))"
  "totals (bumpConnLocked c d now) = totals c"
  "totals (recordErrorLocked c scope host msg now) = (totals c)\<lparr>cErrors := cErrors (totals c) + 1\<rparr>"
  by (auto simp: put_session_def addDomainLocked_def addDomain_def addTraffic_def addUpload_def addDownload_def
      bumpConnLocked_def recordErrorLocked_def Let_def split: Decision.splits)

text \<open>Changing a session in place, with its identity and state of completion.\<close>

lemma sessions_ok_put:
  assumes "sessions_ok c" "map_of (sessions c) i = Some s" "sId s' = sId s" "sDone s' = sDone s"
  shows "sessions_ok (put_session i s' c)"
proof -
  have "(i, s) \<in> set (sessions c)" using assms(2) by (rule map_of_SomeD)
  then have "sId s' = i" "i \<le> nextID c" using assms by (auto simp: sessions_ok_def)
  moreover have "(j \<in> set (active c)) =
      (\<exists>t. map_of (AList.update i s' (sessions c)) j = Some t \<and> \<not> sDone t)" for j
    using assms unfolding sessions_ok_def update_conv' by (simp del: map_of_eq_Some_iff)
  ultimately show ?thesis
    using assms set_update_subset [of i s' "sessions c"]
    unfolding sessions_ok_def by (auto simp: distinct_update simp del: map_of_eq_Some_iff)
qed

lemma sessions_ok_done:
  assumes "sessions_ok c" "map_of (sessions c) i = Some s" "sId s' = sId s" "sDone s'"
  shows "sessions_ok ((put_session i s' c)\<lparr>active := removeAll i (active c)\<rparr>)"
proof -
  have "(i, s) \<in> set (sessions c)" using assms(2) by (rule map_of_SomeD)
  then have "sId s' = i" "i \<le> nextID c" using assms by (auto simp: sessions_ok_def)
  moreover have "(j \<in> set (removeAll i (active c))) =
      (\<exists>t. map_of (AList.update i s' (sessions c)) j = Some t \<and> \<not> sDone t)" for j
    using assms unfolding sessions_ok_def update_conv' by (simp del: map_of_eq_Some_iff)
  ultimately show ?thesis
    using assms set_update_subset [of i s' "sessions c"]
    unfolding sessions_ok_def by (auto simp: distinct_update distinct_removeAll simp del: map_of_eq_Some_iff)
qed

section \<open>The ledger\<close>

definition done_count :: "Session \<Rightarrow> int" where
  "done_count s = (if sDone s then 1 else 0)"

definition ledger_ok :: "Collector \<Rightarrow> bool" where
  "ledger_ok c \<longleftrightarrow> sessions_ok c
     \<and> cUpload (totals c) = rows_sum sUpload (sessions c) \<and> cDownload (totals c) = rows_sum sDownload (sessions c)
     \<and> cConns (totals c) = rows_sum done_count (sessions c)"

lemma ledger_ok_cong:
  "sessions c' = sessions c \<Longrightarrow> active c' = active c \<Longrightarrow> nextID c' = nextID c
     \<Longrightarrow> cUpload (totals c') = cUpload (totals c) \<Longrightarrow> cDownload (totals c') = cDownload (totals c)
     \<Longrightarrow> cConns (totals c') = cConns (totals c) \<Longrightarrow> ledger_ok c' = ledger_ok c"
  by (simp add: ledger_ok_def sessions_ok_def)

lemma ledger_frame [simp, go_frame]:
  "ledger_ok (addDomainLocked rng c now host d up down conns e) = ledger_ok c"
  "ledger_ok (addDomain rng c now host d up down conns e) = ledger_ok c"
  "ledger_ok (recordErrorLocked c scope host msg now) = ledger_ok c"
  "ledger_ok (bumpConnLocked c d now) = ledger_ok c"
  "ledger_ok (rotateLocked c now) = ledger_ok c"
  "ledger_ok (c\<lparr>nodes := n\<rparr>) = ledger_ok c"
  by (rule ledger_ok_cong; simp)+

lemma totals_RecordDNS: "cUpload (totals (RecordDNS rng c now domain qtype upstream err)) = cUpload (totals c)"
  "cDownload (totals (RecordDNS rng c now domain qtype upstream err)) = cDownload (totals c)"
  "cConns (totals (RecordDNS rng c now domain qtype upstream err)) = cConns (totals c)"
  by (auto simp: RecordDNS_def Let_def split: option.splits)

text \<open>A change of one session and of the totals by the same amounts.\<close>

lemma ledger_ok_put:
  assumes "ledger_ok c" "map_of (sessions c) i = Some s" "sId s' = sId s" "sDone s' = sDone s"
    and "sessions c' = AList.update i s' (sessions c)" "active c' = active c" "nextID c' = nextID c"
    and "cUpload (totals c') = cUpload (totals c) + (sUpload s' - sUpload s)"
    and "cDownload (totals c') = cDownload (totals c) + (sDownload s' - sDownload s)"
    and "cConns (totals c') = cConns (totals c)"
  shows "ledger_ok c'"
proof -
  have "sessions_ok (put_session i s' c)"
    using assms(1-4) by (simp add: ledger_ok_def sessions_ok_put)
  then have "sessions_ok c'" using assms(5-7) by (simp add: sessions_ok_def)
  moreover have "distinct (map fst (sessions c))" using assms(1) by (simp add: ledger_ok_def sessions_ok_def)
  ultimately show ?thesis
    using assms by (simp add: ledger_ok_def rows_sum_update done_count_def)
qed

lemma ledger_ok_clear:
  assumes "ledger_ok c" "map_of (sessions c) i = Some s"
  shows "ledger_ok (put_session i (s\<lparr>sPendingUp := 0, sPendingDown := 0\<rparr>) c)"
  by (rule ledger_ok_put [OF assms, of "s\<lparr>sPendingUp := 0, sPendingDown := 0\<rparr>"]) simp_all

lemma ledger_ok_flush [go_inv]: "ledger_ok c \<Longrightarrow> ledger_ok (flush rng c now i)"
  by (auto simp: flush_def Let_def ledger_ok_clear split: option.splits)

lemma ledger_ok_AddUpload [go_inv]:
  assumes "ledger_ok c" shows "ledger_ok (AddUpload rng c now i n)"
proof (cases "map_of (sessions c) i")
  case (Some s)
  define s1 where "s1 = s\<lparr>sUpload := sUpload s + n\<rparr>"
  define s2 where "s2 = s1\<lparr>sPendingUp := sPendingUp s1 + n\<rparr>"
  define c1 where "c1 = put_session i s2 (addTraffic (put_session i s1 c) now n 0 (sDecision s1))"
  have "ledger_ok c1"
    by (rule ledger_ok_put [OF assms Some, of s2])
      (simp_all add: c1_def s2_def s1_def addUpload_def addDownload_def)
  then show ?thesis
    using assms by (auto simp: AddUpload_def Some Let_def s1_def [symmetric] s2_def [symmetric]
        c1_def [symmetric] ledger_ok_flush)
qed (use assms in \<open>simp add: AddUpload_def\<close>)

lemma ledger_ok_AddDownload [go_inv]:
  assumes "ledger_ok c" shows "ledger_ok (AddDownload rng c now i n)"
proof (cases "map_of (sessions c) i")
  case (Some s)
  define s1 where "s1 = s\<lparr>sDownload := sDownload s + n\<rparr>"
  define s2 where "s2 = s1\<lparr>sPendingDown := sPendingDown s1 + n\<rparr>"
  define c1 where "c1 = put_session i s2 (addTraffic (put_session i s1 c) now 0 n (sDecision s1))"
  have "ledger_ok c1"
    by (rule ledger_ok_put [OF assms Some, of s2])
      (simp_all add: c1_def s2_def s1_def addUpload_def addDownload_def)
  then show ?thesis
    using assms by (auto simp: AddDownload_def Some Let_def s1_def [symmetric] s2_def [symmetric]
        c1_def [symmetric] ledger_ok_flush)
qed (use assms in \<open>simp add: AddDownload_def\<close>)

lemma ledger_ok_AddDatagram [go_inv]:
  assumes "ledger_ok c" "0 \<le> up" "0 \<le> down"
  shows "ledger_ok (AddDatagram rng c now i host d up down)"
proof (cases "map_of (sessions c) i")
  case (Some s)
  define s1 where "s1 = (if 0 < up then s\<lparr>sUpload := sUpload s + up, sPendingUp := sPendingUp s + up\<rparr> else s)"
  define s2 where "s2 = (if 0 < down then s1\<lparr>sDownload := sDownload s1 + down, sPendingDown := sPendingDown s1 + down\<rparr> else s1)"
  define c1 where "c1 = (if 0 < up \<or> 0 < down then addTraffic (put_session i s2 c) now up down d else put_session i s2 c)"
  have "ledger_ok c1"
    by (rule ledger_ok_put [OF assms(1) Some, of s2])
      (use assms(2,3) in \<open>auto simp: c1_def s2_def s1_def addUpload_def addDownload_def\<close>)
  then show ?thesis
    unfolding AddDatagram_def Some option.case Let_def s1_def [symmetric] s2_def [symmetric] c1_def [symmetric]
    by (simp add: ledger_ok_flush)
qed (use assms in \<open>simp add: AddDatagram_def\<close>)

lemma ledger_ok_SetNode [go_inv]:
  assumes "ledger_ok c" shows "ledger_ok (SetNode c i name)"
proof (cases "map_of (sessions c) i")
  case (Some s)
  have "ledger_ok (put_session i (s\<lparr>sNode := Some name\<rparr>) c)"
    by (rule ledger_ok_put [OF assms Some, of "s\<lparr>sNode := Some name\<rparr>"]) simp_all
  then show ?thesis using assms by (simp add: SetNode_def Some)
qed (use assms in \<open>simp add: SetNode_def\<close>)

lemma ledger_ok_Begin [go_inv]:
  assumes "ledger_ok c" shows "ledger_ok (snd (Begin c now p client host port d node))"
proof -
  let ?i = "nextID c + 1"
  have ok: "sessions_ok c" using assms by (simp add: ledger_ok_def)
  have fresh: "?i \<notin> fst ` set (sessions c)" using ok by (force simp: sessions_ok_def)
  then have none: "map_of (sessions c) ?i = None" by (simp add: map_of_eq_None_iff)
  then have na: "?i \<notin> set (active c)" using ok unfolding sessions_ok_def by (auto simp del: map_of_eq_Some_iff)
  have dist: "distinct (map fst (sessions c))" using ok by (simp add: sessions_ok_def)
  define s where "s = new_session ?i now p client host port d node"
  have s: "snd (Begin c now p client host port d node)
      = (put_session ?i s c)\<lparr>nextID := ?i, active := active c @ [?i]\<rparr>"
    and f: "sId s = ?i" "\<not> sDone s" "sUpload s = 0" "sDownload s = 0"
    by (simp_all add: Begin_def Let_def s_def new_session_def)
  have act: "j \<in> set (active c @ [?i]) \<longleftrightarrow> (\<exists>t. map_of (AList.update ?i s (sessions c)) j = Some t \<and> \<not> sDone t)" for j
    using ok f(2) none unfolding sessions_ok_def update_conv' by (auto simp del: map_of_eq_Some_iff)
  have mem: "\<forall>(j, t) \<in> set (AList.update ?i s (sessions c)). sId t = j \<and> j \<le> ?i"
    using ok f(1) set_update_subset [of ?i s "sessions c"] unfolding sessions_ok_def by fastforce
  have "sessions_ok (snd (Begin c now p client host port d node))"
    unfolding s sessions_ok_def using ok na act mem
    by (simp add: sessions_ok_def distinct_update del: map_of_eq_Some_iff)
  then show ?thesis
    using assms f by (simp add: ledger_ok_def s rows_sum_update dist none done_count_def)
qed

lemma ledger_ok_End [go_inv]:
  assumes "ledger_ok c" shows "ledger_ok (End rng c now i err)"
proof (cases "map_of (sessions c) i")
  case (Some s)
  show ?thesis
  proof (cases "sDone s")
    case False
    define s1 where "s1 = s\<lparr>sDone := True\<rparr>"
    define c1 where "c1 = (put_session i s1 c)\<lparr>active := removeAll i (active c),
      totals := (totals c)\<lparr>cConns := cConns (totals c) + 1\<rparr>\<rparr>"
    have ok: "sessions_ok c" using assms by (simp add: ledger_ok_def)
    then have i: "sId s1 = i" using Some by (auto simp: sessions_ok_def s1_def dest!: map_of_SomeD)
    have dist: "distinct (map fst (sessions c))" using ok by (simp add: sessions_ok_def)
    have "sessions_ok ((put_session i s1 c)\<lparr>active := removeAll i (active c)\<rparr>)"
      using ok Some by (rule sessions_ok_done) (simp_all add: s1_def)
    then have "sessions_ok c1" by (simp add: sessions_ok_def c1_def)
    then have c1: "ledger_ok c1"
      using assms False by (simp add: ledger_ok_def c1_def rows_sum_update dist Some s1_def done_count_def)
    then have b: "ledger_ok (bumpConnLocked c1 (sDecision s1) now)" by simp
    have "map_of (sessions (bumpConnLocked c1 (sDecision s1) now)) i = Some s1"
      by (simp add: c1_def update_conv')
    note clear = ledger_ok_clear [OF b this]
    have "End rng c now i err = finish rng (put_session i s1 c) now s1 err"
      by (simp add: End_def Some False Let_def s1_def)
    also have "ledger_ok \<dots>"
      unfolding finish_def Let_def i
      using b clear by (auto simp: c1_def split: option.splits)
    finally show ?thesis .
  qed (use assms Some in \<open>simp add: End_def\<close>)
qed (use assms in \<open>simp add: End_def\<close>)

text \<open>Operations that account for traffic: everything but \<^verbatim>\<open>Reset\<close>, datagrams of non-negative size.\<close>

fun accounting :: "op \<Rightarrow> bool" where
  "accounting OpReset \<longleftrightarrow> False"
| "accounting (OpDatagram i host d up down) \<longleftrightarrow> 0 \<le> up \<and> 0 \<le> down"
| "accounting _ \<longleftrightarrow> True"

lemma ledger_ok_apply_op [go_inv]:
  assumes "ledger_ok c" "accounting op" shows "ledger_ok (apply_op rng now op c)"
proof (cases op)
  case (OpDNS domain qtype upstream err)
  then show ?thesis using assms ledger_ok_cong [of "apply_op rng now op c" c] by (simp add: totals_RecordDNS)
qed (use assms in \<open>simp_all add: ledger_ok_Begin ledger_ok_AddUpload ledger_ok_AddDownload ledger_ok_AddDatagram
       ledger_ok_SetNode ledger_ok_End RecordError_def\<close>)

lemma ledger_ok_New: "ledger_ok (New_collector now g)"
  by (simp add: ledger_ok_def sessions_ok_def New_collector_def Let_def zero_counters_def)

lemma reach_ledger: "reach accounting rng g c \<Longrightarrow> ledger_ok c"
  by (induction rule: reach.induct) (simp_all add: ledger_ok_New ledger_ok_apply_op)



section \<open>Bytes credited to a domain\<close>

text \<open>
  A host is credited with the bytes of its row of the domain table and with the bytes its sessions
  have not committed yet. The direction is a boolean, \<open>True\<close> for uploads.
\<close>

definition row_bytes :: "bool \<Rightarrow> DomainStat \<Rightarrow> int" where
  "row_bytes b d = (if b then dUpload d else dDownload d)"

definition pending_bytes :: "bool \<Rightarrow> Session \<Rightarrow> int" where
  "pending_bytes b s = (if b then sPendingUp s else sPendingDown s)"

definition pending_of :: "bool \<Rightarrow> string \<Rightarrow> Session \<Rightarrow> int" where
  "pending_of b h s = (if sHost s = h then pending_bytes b s else 0)"

definition credit :: "bool \<Rightarrow> Collector \<Rightarrow> string \<Rightarrow> int" where
  "credit b c h = row_bytes b (row_of h (domains c)) + rows_sum (pending_of b h) (sessions c)"

text \<open>The bytes an operation is told to attribute to a host.\<close>

fun attributed :: "bool \<Rightarrow> Collector \<Rightarrow> op \<Rightarrow> string \<Rightarrow> int" where
  "attributed b c (OpUpload i n) h =
     (case map_of (sessions c) i of None \<Rightarrow> 0 | Some s \<Rightarrow> if b \<and> sHost s = h \<and> 0 < n then n else 0)"
| "attributed b c (OpDownload i n) h =
     (case map_of (sessions c) i of None \<Rightarrow> 0 | Some s \<Rightarrow> if \<not> b \<and> sHost s = h \<and> 0 < n then n else 0)"
| "attributed b c (OpDatagram i host d up down) h =
     (case map_of (sessions c) i of None \<Rightarrow> 0 | Some s \<Rightarrow>
        let n = (if b then up else down) in (if host = h then n else 0) + (if sHost s = h \<and> 0 < n then n else 0))"
| "attributed b c _ h = 0"

lemma credit_cong: "domains c' = domains c \<Longrightarrow> sessions c' = sessions c \<Longrightarrow> credit b c' h = credit b c h"
  by (simp add: credit_def)

lemma domains_frame [simp, go_frame]:
  "domains (addTraffic c now up down d) = domains c" "domains (bumpConnLocked c d now) = domains c"
  "domains (recordErrorLocked c scope host msg now) = domains c" "domains (put_session i s c) = domains c"
  "domains (RecordDNS rng c now domain qtype upstream err) = domains c"
  by (auto simp: addTraffic_def bumpConnLocked_def recordErrorLocked_def put_session_def RecordDNS_def Let_def
      split: Decision.splits option.splits)

definition room :: "nat \<Rightarrow> Collector \<Rightarrow> bool" where
  "room n c \<longleftrightarrow> int (length (domains c)) + int n \<le> DomainLimit (cfg c)"

lemma room_frame [simp, go_frame]:
  "room n (put_session i s c) = room n c" "room n (addTraffic c now up down d) = room n c"
  "room n (bumpConnLocked c d now) = room n c"
  "room n (c\<lparr>totals := x\<rparr>) = room n c" "room n (c\<lparr>active := y\<rparr>) = room n c"
  by (simp_all add: room_def)

lemma credit_frame [simp, go_frame]:
  "credit b (addTraffic c now up down d) h = credit b c h" "credit b (bumpConnLocked c d now) h = credit b c h"
  "credit b (recordErrorLocked c scope host msg now) h = credit b c h"
  "credit b (RecordDNS rng c now domain qtype upstream err) h = credit b c h"
  "credit b (rotateLocked c now) h = credit b c h"
  by (simp_all add: credit_def)

lemma row_of_update: "row_of h (AList.update k r m) = (if h = k then r else row_of h m)"
  by (simp add: row_of_def update_conv')

lemma addDomainLocked_row:
  assumes "room 1 c"
  obtains r where "domains (addDomainLocked rng c now host d up down n e) = AList.update host r (domains c)"
    "dUpload r = dUpload (row_of host (domains c)) + up" "dDownload r = dDownload (row_of host (domains c)) + down"
proof -
  have "prune_if_full rng (DomainLimit (cfg c)) (AList.update host r (domains c)) = AList.update host r (domains c)" for r
    using assms by (auto simp: prune_if_full_def room_def length_update)
  then show ?thesis
    by (intro that) (auto simp: addDomainLocked_def Let_def split: Decision.splits)
qed

lemma credit_addDomainLocked:
  assumes "room 1 c"
  shows "credit b (addDomainLocked rng c now host d up down n e) h =
    credit b c h + (if h = host then (if b then up else down) else 0)"
  by (rule addDomainLocked_row [OF assms, of rng now host d up down n e])
    (auto simp: credit_def row_bytes_def row_of_update)

lemma room_addDomainLocked:
  assumes "room (Suc k) c"
  shows "room k (addDomainLocked rng c now host d up down n e)"
proof -
  have "room 1 c" using assms by (simp add: room_def)
  then obtain r where "domains (addDomainLocked rng c now host d up down n e) = AList.update host r (domains c)"
    by (rule addDomainLocked_row)
  then show ?thesis using assms by (auto simp: room_def length_update)
qed

lemma credit_put:
  assumes "distinct (map fst (sessions c))" "map_of (sessions c) i = Some s" "sHost s' = sHost s"
  shows "credit b (put_session i s' c) h =
    credit b c h + (if sHost s = h then pending_bytes b s' - pending_bytes b s else 0)"
  using assms by (simp add: credit_def rows_sum_update pending_of_def)

lemma credit_flush:
  assumes "distinct (map fst (sessions c))" "room 1 c" "h \<noteq> []"
  shows "credit b (flush rng c now i) h = credit b c h"
proof (cases "map_of (sessions c) i")
  case (Some s)
  define c1 where "c1 = put_session i (s\<lparr>sPendingUp := 0, sPendingDown := 0\<rparr>) c"
  have c1: "credit b c1 h = credit b c h - (if sHost s = h then pending_bytes b s else 0)"
    using credit_put [OF assms(1) Some, of "s\<lparr>sPendingUp := 0, sPendingDown := 0\<rparr>" b h]
    by (simp add: c1_def pending_bytes_def)
  have "room 1 c1" using assms(2) by (simp add: c1_def)
  then show ?thesis
    using assms(3) c1 by (auto simp: flush_def Some Let_def c1_def [symmetric] addDomain_def
        credit_addDomainLocked pending_bytes_def)
qed (simp add: flush_def)

lemma credit_AddUpload:
  assumes "distinct (map fst (sessions c))" "room 1 c" "h \<noteq> []"
  shows "credit b (AddUpload rng c now i n) h = credit b c h + attributed b c (OpUpload i n) h"
proof (cases "map_of (sessions c) i")
  case (Some s)
  define s1 where "s1 = s\<lparr>sUpload := sUpload s + n\<rparr>"
  define s2 where "s2 = s1\<lparr>sPendingUp := sPendingUp s1 + n\<rparr>"
  define c1 where "c1 = put_session i s2 (addTraffic (put_session i s1 c) now n 0 (sDecision s1))"
  have "credit b c1 h = credit b (put_session i s2 c) h" by (rule credit_cong) (simp_all add: c1_def)
  also have "\<dots> = credit b c h + (if b \<and> sHost s = h then n else 0)"
    using credit_put [OF assms(1) Some, of s2 b h] by (simp add: s2_def s1_def pending_bytes_def)
  finally have c1: "credit b c1 h = credit b c h + (if b \<and> sHost s = h then n else 0)" .
  have "credit b (flush rng c1 now i) h = credit b c1 h"
    by (rule credit_flush) (use assms in \<open>simp_all add: c1_def distinct_update\<close>)
  then show ?thesis
    using c1 by (auto simp: AddUpload_def Some Let_def s1_def [symmetric] s2_def [symmetric] c1_def [symmetric])
qed (simp add: AddUpload_def)

lemma credit_AddDownload:
  assumes "distinct (map fst (sessions c))" "room 1 c" "h \<noteq> []"
  shows "credit b (AddDownload rng c now i n) h = credit b c h + attributed b c (OpDownload i n) h"
proof (cases "map_of (sessions c) i")
  case (Some s)
  define s1 where "s1 = s\<lparr>sDownload := sDownload s + n\<rparr>"
  define s2 where "s2 = s1\<lparr>sPendingDown := sPendingDown s1 + n\<rparr>"
  define c1 where "c1 = put_session i s2 (addTraffic (put_session i s1 c) now 0 n (sDecision s1))"
  have "credit b c1 h = credit b (put_session i s2 c) h" by (rule credit_cong) (simp_all add: c1_def)
  also have "\<dots> = credit b c h + (if \<not> b \<and> sHost s = h then n else 0)"
    using credit_put [OF assms(1) Some, of s2 b h] by (simp add: s2_def s1_def pending_bytes_def)
  finally have c1: "credit b c1 h = credit b c h + (if \<not> b \<and> sHost s = h then n else 0)" .
  have "credit b (flush rng c1 now i) h = credit b c1 h"
    by (rule credit_flush) (use assms in \<open>simp_all add: c1_def distinct_update\<close>)
  then show ?thesis
    using c1 by (auto simp: AddDownload_def Some Let_def s1_def [symmetric] s2_def [symmetric] c1_def [symmetric])
qed (simp add: AddDownload_def)

lemma credit_AddDatagram:
  assumes "distinct (map fst (sessions c))" "room 2 c" "h \<noteq> []"
  shows "credit b (AddDatagram rng c now i host d up down) h =
    credit b c h + attributed b c (OpDatagram i host d up down) h"
proof (cases "map_of (sessions c) i")
  case (Some s)
  define s1 where "s1 = (if 0 < up then s\<lparr>sUpload := sUpload s + up, sPendingUp := sPendingUp s + up\<rparr> else s)"
  define s2 where "s2 = (if 0 < down then s1\<lparr>sDownload := sDownload s1 + down, sPendingDown := sPendingDown s1 + down\<rparr> else s1)"
  define c1 where "c1 = (if 0 < up \<or> 0 < down then addTraffic (put_session i s2 c) now up down d else put_session i s2 c)"
  define c2 where "c2 = (if host \<noteq> [] then addDomain rng c1 now host d up down 0 False else c1)"
  have "credit b c1 h = credit b (put_session i s2 c) h" by (rule credit_cong) (simp_all add: c1_def)
  also have "\<dots> = credit b c h + (if sHost s = h then pending_bytes b s2 - pending_bytes b s else 0)"
    using Some by (intro credit_put assms) (simp_all add: s2_def s1_def)
  also have "pending_bytes b s2 - pending_bytes b s = max 0 (if b then up else down)"
    by (simp add: s2_def s1_def pending_bytes_def)
  finally have c1: "credit b c1 h = credit b c h + (if sHost s = h then max 0 (if b then up else down) else 0)" .
  have r: "room 2 c1" using assms(2) by (simp add: c1_def room_def)
  then have r1: "room 1 c1" by (simp add: room_def)
  have c2: "credit b c2 h = credit b c1 h + (if h = host then (if b then up else down) else 0)"
    using assms(3) by (auto simp: c2_def addDomain_def credit_addDomainLocked [OF r1])
  have r2: "room 1 c2" using r1 room_addDomainLocked [of 1 c1] r by (simp add: c2_def addDomain_def numeral_2_eq_2)
  have "credit b (flush rng c2 now i) h = credit b c2 h"
    by (rule credit_flush) (use assms r2 in \<open>simp_all add: c2_def c1_def distinct_update\<close>)
  moreover have "AddDatagram rng c now i host d up down = flush rng c2 now i"
    unfolding AddDatagram_def Some option.case Let_def s1_def [symmetric] s2_def [symmetric] c1_def [symmetric]
      c2_def [symmetric] by (rule refl)
  ultimately show ?thesis using c1 c2 by (auto simp: Some Let_def)
qed (simp add: AddDatagram_def)

lemma credit_End:
  assumes "sessions_ok c" "room 1 c" "h \<noteq> []"
  shows "credit b (End rng c now i err) h = credit b c h"
proof (cases "map_of (sessions c) i")
  case (Some s)
  show ?thesis
  proof (cases "sDone s")
    case False
    define s1 where "s1 = s\<lparr>sDone := True\<rparr>"
    define c1 where "c1 = bumpConnLocked ((put_session i s1 c)\<lparr>active := removeAll i (active c),
      totals := (totals c)\<lparr>cConns := cConns (totals c) + 1\<rparr>\<rparr>) (sDecision s1) now"
    define c2 where "c2 = put_session i (s1\<lparr>sPendingUp := 0, sPendingDown := 0\<rparr>) c1"
    have dist: "distinct (map fst (sessions c))" using assms by (simp add: sessions_ok_def)
    have i: "sId s1 = i" using assms Some by (auto simp: sessions_ok_def s1_def dest!: map_of_SomeD)
    have c1: "credit b c1 h = credit b c h"
      using credit_put [OF dist Some, of s1 b h] credit_cong [of c1 "put_session i s1 c"]
      by (simp add: c1_def s1_def pending_bytes_def)
    have c1s: "distinct (map fst (sessions c1))" "map_of (sessions c1) i = Some s1"
      using dist by (simp_all add: c1_def distinct_update update_conv')
    have c2: "credit b c2 h = credit b c h - (if sHost s = h then pending_bytes b s else 0)"
      using credit_put [OF c1s, of "s1\<lparr>sPendingUp := 0, sPendingDown := 0\<rparr>" b h]
      by (simp add: c1 c2_def pending_bytes_def s1_def)
    have r: "room 1 c2" using assms(2) by (simp add: c2_def c1_def room_def)
    define c3 where "c3 = (if sHost s1 \<noteq> [] then addDomainLocked rng c2 now (sHost s1) (sDecision s1)
      (sPendingUp s1) (sPendingDown s1) 1 (err \<noteq> None) else c1)"
    have c3: "credit b c3 h = credit b c h"
      using assms(3) c1 c2 by (auto simp: c3_def credit_addDomainLocked [OF r] s1_def pending_bytes_def)
    have "End rng c now i err = finish rng (put_session i s1 c) now s1 err"
      by (simp add: End_def Some False Let_def s1_def)
    also have "credit b \<dots> h = credit b c3 h"
      by (rule credit_cong; cases err)
        (simp_all add: finish_def Let_def i c3_def c2_def c1_def)
    finally show ?thesis using c3 by simp
  qed (simp add: End_def Some)
qed (simp add: End_def)



end
