(* ===== verification/Stats_Views.thy ===== *)
theory Stats_Views
  imports Stats_Sessions
begin

text \<open>
  Package \<^verbatim>\<open>core/stats\<close>, the readings the API serves: the live summary, the live sessions, the
  rankings of domains and nodes, the error log, the DNS counters, and the aggregated history.

  \<open>rng\<close> arguments are the orders in which \<^verbatim>\<open>range\<close> loops visit the maps. A reading that rotates the
  history or samples a session's speed returns the changed collector too.
\<close>

section \<open>Comparisons\<close>

definition by_two_desc :: "('a \<Rightarrow> int) \<Rightarrow> ('a \<Rightarrow> int) \<Rightarrow> 'a \<Rightarrow> 'a \<Rightarrow> bool" where
  "by_two_desc k1 k2 x y \<longleftrightarrow> (if k1 x = k1 y then k2 x > k2 y else k1 x > k1 y)"

interpretation two_desc: strict_weak_order "by_two_desc k1 k2" for k1 k2 :: "'a \<Rightarrow> int"
  by unfold_locales (auto simp: by_two_desc_def split: if_splits)

definition limit_to :: "int \<Rightarrow> 'a list \<Rightarrow> 'a list" where
  "limit_to n out = (if n < int (length out) then take (nat n) out else out)"

section \<open>Rankings\<close>

definition topDomainsLocked :: "order \<Rightarrow> Collector \<Rightarrow> int \<Rightarrow> string \<Rightarrow> DomainStat list" where
  "topDomainsLocked rng c limit order =
     (let limit = (if limit \<le> 0 then 50 else limit);
          out = rng (map snd (domains c));
          out = (if order = ''conns'' then sort_slice (by_two_desc dConns DomainStat_Total) out
                 else sort_slice (by_two_desc DomainStat_Total dConns) out)
      in limit_to limit out)"

definition Domains :: "order \<Rightarrow> Collector \<Rightarrow> int \<Rightarrow> string \<Rightarrow> DomainStat list" where
  "Domains rng c limit order = topDomainsLocked rng c limit order"

definition TopDomainsByDecision :: "order \<Rightarrow> Collector \<Rightarrow> int \<Rightarrow> Decision \<Rightarrow> string \<Rightarrow> DomainStat list" where
  "TopDomainsByDecision rng c limit d order =
     (let out = filter (\<lambda>e. \<not> (d = DecisionDirect \<and> dDirectConns e = 0) \<and> \<not> (d = DecisionProxy \<and> dProxyConns e = 0))
                  (rng (map snd (domains c)));
          out = (if order = ''conns'' then sort_slice (by_key_desc dConns) out
                 else sort_slice (by_key_desc DomainStat_Total) out)
      in if 0 < limit then limit_to limit out else out)"

definition Nodes :: "(NodeStat list \<Rightarrow> NodeStat list) \<Rightarrow> Collector \<Rightarrow> NodeStat list" where
  "Nodes rng c = sort_slice (by_key_desc (\<lambda>n. nUpload n + nDownload n)) (rng (map snd (nodes c)))"

definition Errors :: "Collector \<Rightarrow> int \<Rightarrow> ErrorEntry list" where
  "Errors c limit =
     (let n = int (length (errs c));
          limit = (if limit \<le> 0 \<or> n < limit then n else limit)
      in drop (length (errs c) - nat limit) (errs c))"

section \<open>DNS counters\<close>

definition copyMap :: "(string \<times> int) list \<Rightarrow> (string \<times> int) list" where
  "copyMap m = fold (\<lambda>(k, v) out. AList.update k v out) m []"

definition topFromLocked :: "order \<Rightarrow> table \<Rightarrow> int \<Rightarrow> DomainStat list" where
  "topFromLocked rng m n = limit_to n (sort_slice (by_two_desc dConns DomainStat_Total) (rng (map snd m)))"

definition dnsSnapshotLocked :: "order \<Rightarrow> Collector \<Rightarrow> int \<Rightarrow> DNSStat" where
  "dnsSnapshotLocked rng c topN =
     \<lparr>qQueries = qQueries (dns c), qCacheHits = qCacheHits (dns c), qFailures = qFailures (dns c),
      qDirect = qDirect (dns c), qDoH = qDoH (dns c), qByType = copyMap (qByType (dns c)),
      qByUpstream = copyMap (qByUpstream (dns c)),
      qTopDomains = (if 0 < topN then topFromLocked rng (dnsNames c) topN else [])\<rparr>"

definition DNSStats :: "order \<Rightarrow> Collector \<Rightarrow> int \<Rightarrow> DNSStat" where
  "DNSStats rng c topN = dnsSnapshotLocked rng c topN"

section \<open>The summary\<close>

record Overview_t =
  oNow :: int
  oStartTime :: int
  oUptimeSeconds :: int
  oActiveConns :: int
  oTotals :: Counters
  oDirect :: Counters
  oProxy :: Counters
  oRate :: Rate
  oRate1m :: Rate
  oPeak :: Rate
  oDNS :: DNSStat
  oTopDomains :: "DomainStat list"

definition Overview :: "order \<Rightarrow> Collector \<Rightarrow> instant \<Rightarrow> Overview_t \<times> Collector" where
  "Overview rng c now =
     (let nowSec = Unix now; c = rotateLocked c now in
      (\<lparr>oNow = nowSec, oStartTime = Unix (start c), oUptimeSeconds = (now - start c) sdiv 1000000000,
        oActiveConns = int (length (active c)), oTotals = totals c, oDirect = direct c, oProxy = proxy c,
        oRate = rateLocked c nowSec 5, oRate1m = rateLocked c nowSec 60,
        oPeak = \<lparr>rUpload = peakUp c, rDownload = peakDown c\<rparr>,
        oDNS = dnsSnapshotLocked rng c 10, oTopDomains = topDomainsLocked rng c 10 ''bytes''\<rparr>, c))"

section \<open>Live sessions\<close>

record SessionView =
  vID :: int
  vProto :: string
  vClient :: string
  vHost :: string
  vPort :: int
  vDecision :: string
  vNode :: string
  vStart :: int
  vAgeMs :: int
  vUpload :: int
  vDownload :: int
  vUploadBps :: int
  vDownBps :: int

definition rates :: "Session \<Rightarrow> instant \<Rightarrow> int \<Rightarrow> int \<Rightarrow> (int \<times> int) \<times> Session" where
  "rates s now up down =
     (let prev = (case sRateAt s of None \<Rightarrow> sStart s | Some t \<Rightarrow> t);
          dt = now - prev;
          s = (if minRateSample \<le> dt
               then let ms = dt sdiv 1000000 in
                    s\<lparr>sCurUpBps := ((up - sRateUp s) * 1000) sdiv ms,
                      sCurDownBps := ((down - sRateDown s) * 1000) sdiv ms,
                      sRateAt := Some now, sRateUp := up, sRateDown := down\<rparr>
               else s\<lparr>sRateAt := Some prev\<rparr>)
      in ((sCurUpBps s, sCurDownBps s), s))"

definition view :: "Session \<Rightarrow> instant \<Rightarrow> SessionView \<times> Session" where
  "view s now =
     (let ((upBps, downBps), s') = rates s now (sUpload s) (sDownload s) in
      (\<lparr>vID = sId s, vProto = Proto_string (sProto s), vClient = sClient s, vHost = sHost s, vPort = sPort s,
        vDecision = Decision_string (sDecision s), vNode = Node s, vStart = Unix (sStart s),
        vAgeMs = (now - sStart s) sdiv 1000000, vUpload = sUpload s, vDownload = sDownload s,
        vUploadBps = upBps, vDownBps = downBps\<rparr>, s'))"

record ActiveOptions =
  aLimit :: int
  aProto :: string
  aDecision :: string
  aHost :: string

definition containsFold :: "string \<Rightarrow> string \<Rightarrow> bool" where
  "containsFold s sub \<longleftrightarrow> (if sub = [] then True else Contains (ToLower s) (ToLower sub))"

definition session_matches :: "ActiveOptions \<Rightarrow> Session \<Rightarrow> bool" where
  "session_matches opt s \<longleftrightarrow>
     \<not> (aProto opt \<noteq> [] \<and> Proto_string (sProto s) \<noteq> aProto opt)
     \<and> \<not> (aDecision opt \<noteq> [] \<and> Decision_string (sDecision s) \<noteq> aDecision opt)
     \<and> \<not> (aHost opt \<noteq> [] \<and> \<not> containsFold (sHost s) (aHost opt))"

definition live_sessions :: "(Session list \<Rightarrow> Session list) \<Rightarrow> Collector \<Rightarrow> ActiveOptions \<Rightarrow> Session list" where
  "live_sessions rng c opt =
     filter (session_matches opt) (rng (List.map_filter (\<lambda>i. map_of (sessions c) i) (active c)))"

text \<open>The truncation that keeps the busiest: each session is sampled, the sampled sessions are ranked
  by speed and the first \<open>limit\<close> are returned newest first. All sampled sessions are kept.\<close>

definition sample :: "instant \<Rightarrow> Session \<Rightarrow> int \<times> Session" where
  "sample now s = (let ((u, d), s') = rates s now (sUpload s) (sDownload s) in (u + d, s'))"

definition busiest :: "instant \<Rightarrow> nat \<Rightarrow> Session list \<Rightarrow> Session list" where
  "busiest now limit all =
     (let sc = sort_slice (by_key_desc fst) (map (sample now) all)
      in map snd (sort_slice (by_key_desc (\<lambda>p. sId (snd p))) (take limit sc)))"

definition store_sessions :: "Session list \<Rightarrow> Collector \<Rightarrow> Collector" where
  "store_sessions ss c = fold (\<lambda>s c. put_session (sId s) s c) ss c"

definition ActiveSessions ::
  "(Session list \<Rightarrow> Session list) \<Rightarrow> Collector \<Rightarrow> instant \<Rightarrow> ActiveOptions \<Rightarrow> SessionView list \<times> Collector" where
  "ActiveSessions rng c now opt0 =
     (let opt = (if aLimit opt0 \<le> 0 then opt0\<lparr>aLimit := 100\<rparr> else opt0);
          all = sort_slice (by_key_desc sId) (live_sessions rng c opt);
          trunc = aLimit opt < int (length all);
          c = (if trunc then store_sessions (map (\<lambda>s. snd (sample now s)) all) c else c);
          all = (if trunc then busiest now (nat (aLimit opt)) all else all)
      in (map (\<lambda>s. fst (view s now)) all, store_sessions (map (\<lambda>s. snd (view s now)) all) c))"

section \<open>Aggregated history\<close>

record SeriesPoint =
  pT :: int
  pTime :: instant
  pUpload :: int
  pDownload :: int
  pConns :: int
  pErrors :: int
  pDirectUpload :: int
  pDirectDownload :: int
  pProxyUpload :: int
  pProxyDownload :: int
  pDNSQueries :: int

definition empty_point :: "int \<Rightarrow> instant \<Rightarrow> SeriesPoint" where
  "empty_point t time = \<lparr>pT = t, pTime = time, pUpload = 0, pDownload = 0, pConns = 0, pErrors = 0,
     pDirectUpload = 0, pDirectDownload = 0, pProxyUpload = 0, pProxyDownload = 0, pDNSQueries = 0\<rparr>"

definition agg_bucket :: "duration \<Rightarrow> Bucket \<Rightarrow> (int \<times> SeriesPoint) list \<Rightarrow> (int \<times> SeriesPoint) list" where
  "agg_bucket step b agg =
     (let k = alignUnix (bT b) step;
          p = (case map_of agg k of None \<Rightarrow> empty_point k 0 | Some p \<Rightarrow> p)
      in AList.update k
           (p\<lparr>pUpload := pUpload p + bUpload b, pDownload := pDownload p + bDownload b,
              pConns := pConns p + bConns b, pErrors := pErrors p + bErrors b,
              pDirectUpload := pDirectUpload p + bDirectUpload b,
              pDirectDownload := pDirectDownload p + bDirectDownload b,
              pProxyUpload := pProxyUpload p + bProxyUpload b,
              pProxyDownload := pProxyDownload p + bProxyDownload b,
              pDNSQueries := pDNSQueries p + bDNSQueries b\<rparr>) agg)"

definition series_point :: "(int \<times> SeriesPoint) list \<Rightarrow> int \<Rightarrow> SeriesPoint" where
  "series_point agg t =
     (case map_of agg t of
        None \<Rightarrow> empty_point t (t * 1000000000)
      | Some a \<Rightarrow> a\<lparr>pT := t, pTime := t * 1000000000\<rparr>)"

function series_loop :: "(int \<times> SeriesPoint) list \<Rightarrow> duration \<Rightarrow> int \<Rightarrow> int \<Rightarrow> SeriesPoint list" where
  "series_loop agg step t stop =
     (if t \<le> stop then series_point agg t # series_loop agg step (t + interval_secs step) stop else [])"
  by pat_completeness auto
termination
proof (relation "measure (\<lambda>(agg, step, t, stop). nat (stop + 1 - t))")
  fix agg :: "(int \<times> SeriesPoint) list" and step t stop :: int
  assume "t \<le> stop"
  moreover have "0 < interval_secs step" by simp
  ultimately show "((agg, step, t + interval_secs step, stop), agg, step, t, stop)
      \<in> measure (\<lambda>(agg, step, t, stop). nat (stop + 1 - t))"
    by simp
qed simp

declare series_loop.simps [simp del]

definition series_buckets :: "Collector \<Rightarrow> Bucket list" where
  "series_buckets c = orderedBucketsLocked c @ (if 0 < bT (cur c) then [cur c] else [])"

definition Series :: "Collector \<Rightarrow> instant \<Rightarrow> instant \<Rightarrow> duration \<Rightarrow> SeriesPoint list \<times> Collector" where
  "Series c now since step0 =
     (let step = (if step0 \<le> 0 then BucketInterval (cfg c) else step0);
          stepSec = interval_secs step;
          c = rotateLocked c now;
          first = alignUnix (Unix since) step;
          stop = alignUnix (Unix now) step
      in if stop < first then ([], c)
         else
           let first = (if maxSeriesPoints < (stop - first) sdiv stepSec + 1
                        then stop - (maxSeriesPoints - 1) * stepSec else first);
               agg = fold (agg_bucket step) (series_buckets c) []
           in (series_loop agg step first stop, c))"

definition HistoryWindow :: "Collector \<Rightarrow> instant \<Rightarrow> instant \<times> instant" where
  "HistoryWindow c now =
     (let b = series_buckets c in
      if b = [] then (start c, now) else (bT (hd b) * 1000000000, bT (last b) * 1000000000))"

section \<open>Rankings are rankings\<close>

lemma limit_to_take: "0 < n \<Longrightarrow> limit_to n xs = take (nat n) xs"
  by (simp add: limit_to_def)

text \<open>The ranking of domains lists rows of the table, as many as asked for, in order, and no row
  left out comes before one that is listed, by bytes with ties broken by connections, or the other
  way round.\<close>

theorem Domains_ranking:
  assumes "range_order rng" and "0 < limit"
  defines "before \<equiv> (\<lambda>order. if order = ''conns'' then by_two_desc dConns DomainStat_Total
                                else by_two_desc DomainStat_Total dConns)"
  shows "mset (Domains rng c limit order) \<subseteq># mset (map snd (domains c))
    \<and> length (Domains rng c limit order) = min (nat limit) (length (domains c))
    \<and> sorted_wrt (\<lambda>x y. \<not> before order y x) (Domains rng c limit order)
    \<and> (\<forall>x \<in># mset (Domains rng c limit order).
         \<forall>y \<in># mset (map snd (domains c)) - mset (Domains rng c limit order). \<not> before order y x)"
proof -
  define srt where "srt = sort_slice (before order) (rng (map snd (domains c)))"
  have d: "Domains rng c limit order = take (nat limit) srt"
    using assms(2) by (simp add: Domains_def topDomainsLocked_def Let_def limit_to_take srt_def before_def)
  have m: "mset srt = mset (map snd (domains c))"
    using range_orderD(1) [OF assms(1)] by (simp add: srt_def)
  have sorted: "sorted_wrt (\<lambda>x y. \<not> before order y x) srt"
    by (simp add: srt_def before_def two_desc.sorted_sort_slice)
  have split: "mset (map snd (domains c)) = mset (take (nat limit) srt) + mset (drop (nat limit) srt)"
    unfolding m [symmetric] by (metis append_take_drop_id mset_append)
  have "length srt = length (domains c)" using m by (metis length_map size_mset)
  moreover have "\<not> before order y x" if "x \<in> set (take (nat limit) srt)" "y \<in> set (drop (nat limit) srt)" for x y
    using sorted that by (metis append_take_drop_id sorted_wrt_append)
  moreover have "sorted_wrt (\<lambda>x y. \<not> before order y x) (take (nat limit) srt)"
    using sorted by (rule sorted_wrt_take)
  ultimately show ?thesis
    unfolding d split by (simp add: min.commute)
qed

theorem Domains_ranking_witness:
  "let c = apply_op rev 200000000000 (OpEnd 1 None) test_run
   in map dDomain (Domains rev c 5 ''bytes'') = [''a.b''] \<and> length (Domains rev c 5 ''bytes'') = 1"
proof -
  define c where "c = apply_op rev 200000000000 (OpEnd 1 None) test_run"
  have "length (domains c) = 1" "map dDomain (Domains rev c 5 ''bytes'') = [''a.b'']"
    unfolding c_def by code_simp+
  then show ?thesis
    using Domains_ranking [OF range_order_rev, of 5 c "''bytes''"] unfolding c_def [symmetric] Let_def by simp
qed

section \<open>The series adds up\<close>

lemma series_loop_times:
  assumes "first + int n * interval_secs step = stop"
  shows "series_loop agg step first stop
    = map (\<lambda>k. series_point agg (first + int k * interval_secs step)) [0..<Suc n]"
  using assms
proof (induction n arbitrary: first)
  case 0
  have "\<not> stop + interval_secs step \<le> stop" using interval_secs_pos [of step] by linarith
  with 0 show ?case
    using series_loop.simps [of agg step "stop + interval_secs step" stop]
    by (subst series_loop.simps) simp
next
  case (Suc n)
  have "0 < interval_secs step" by simp
  then have le: "first \<le> stop" using Suc.prems by (smt (verit) mult_nonneg_nonneg of_nat_0_le_iff)
  have "series_loop agg step (first + interval_secs step) stop
      = map (\<lambda>k. series_point agg (first + interval_secs step + int k * interval_secs step)) [0..<Suc n]"
    by (rule Suc.IH) (use Suc.prems in \<open>simp add: algebra_simps\<close>)
  also have "\<dots> = map (\<lambda>k. series_point agg (first + int k * interval_secs step)) [1..<Suc (Suc n)]"
    by (simp add: map_Suc_upt [symmetric] comp_def algebra_simps del: upt_Suc)
  finally show ?case
    using le by (subst series_loop.simps) (simp add: upt_conv_Cons del: upt_Suc)
qed

text \<open>The columns of a point and the bucket columns they add up.\<close>

definition point_columns :: "((SeriesPoint \<Rightarrow> int) \<times> (Bucket \<Rightarrow> int)) list" where
  "point_columns =
     [(pUpload, bUpload), (pDownload, bDownload), (pConns, bConns), (pErrors, bErrors),
      (pDirectUpload, bDirectUpload), (pDirectDownload, bDirectDownload),
      (pProxyUpload, bProxyUpload), (pProxyDownload, bProxyDownload), (pDNSQueries, bDNSQueries)]"

definition agg_sum :: "duration \<Rightarrow> (Bucket \<Rightarrow> int) \<Rightarrow> Bucket list \<Rightarrow> int \<Rightarrow> int" where
  "agg_sum step f bs t = (\<Sum>b\<leftarrow>filter (\<lambda>b. alignUnix (bT b) step = t) bs. f b)"

lemma series_point_agg:
  assumes "(p, f) \<in> set point_columns"
  shows "p (series_point (agg_bucket step b agg) t)
    = p (series_point agg t) + (if alignUnix (bT b) step = t then f b else 0)"
  using assms
  by (cases "map_of agg t")
    (auto simp: point_columns_def series_point_def agg_bucket_def Let_def update_conv' empty_point_def split: option.splits)

lemma series_point_fold:
  assumes "(p, f) \<in> set point_columns"
  shows "p (series_point (fold (agg_bucket step) bs agg) t) = p (series_point agg t) + agg_sum step f bs t"
proof (induction bs arbitrary: agg)
  case (Cons b bs)
  then show ?case by (simp add: agg_sum_def series_point_agg [OF assms])
qed (simp add: agg_sum_def)

lemma series_point_empty: "(p, f) \<in> set point_columns \<Longrightarrow> p (series_point [] t) = 0"
  by (auto simp: point_columns_def series_point_def empty_point_def)

lemma pT_series_point [simp]: "pT (series_point agg t) = t"
  by (simp add: series_point_def empty_point_def split: option.splits)

text \<open>C29. The series a client asks for has one point for every step from the aligned start to the
  present, in order and without gaps, at most 2000 and then the newest ones, and each column of
  each point is the sum over the history buckets, the one being filled included, whose interval
  aligns to it.\<close>

theorem Series_points:
  fixes c :: Collector
  assumes "0 \<le> Unix since" and "0 < step" and "Unix since \<le> Unix now"
  defines "k \<equiv> interval_secs step"
  defines "stop \<equiv> alignUnix (Unix now) step"
  defines "n \<equiv> min 2000 (nat ((stop - alignUnix (Unix since) step) div k) + 1)"
  defines "points \<equiv> fst (Series c now since step)"
  shows "map pT points = map (\<lambda>j. stop - int (n - 1 - j) * k) [0..<n]
    \<and> list_all (\<lambda>(column, bucket_column). \<forall>p \<in> set points.
        column p = (\<Sum>b\<leftarrow>filter (\<lambda>b. alignUnix (bT b) step = pT p) (series_buckets (rotateLocked c now)).
                      bucket_column b)) point_columns"
proof -
  define first0 where "first0 = alignUnix (Unix since) step"
  define m where "m = nat ((stop - first0) div k)"
  define first where "first = (if 2000 < (stop - first0) sdiv k + 1 then stop - 1999 * k else first0)"
  define agg where "agg = fold (agg_bucket step) (series_buckets (rotateLocked c now)) []"
  have kpos: "0 < k" by (simp add: k_def)
  have "first0 \<le> stop"
    using assms(1,3) unfolding first0_def stop_def
    by (simp add: alignUnix_nonneg zdiv_mono1 mult_right_mono)
  moreover have "k dvd stop - first0" by (simp add: k_def stop_def first0_def)
  ultimately have m: "first0 + int m * k = stop"
    using kpos by (auto simp: m_def pos_imp_zdiv_nonneg_iff dvd_div_mult_self)
  have d: "(stop - first0) sdiv k = int m"
    using \<open>first0 \<le> stop\<close> kpos by (simp add: m_def pos_imp_zdiv_nonneg_iff)
  have n: "n = min 2000 (m + 1)" by (simp add: n_def m_def first0_def)
  have start: "first + int (n - 1) * k = stop"
    using m by (auto simp: first_def d n min_def)
  have npos: "n = Suc (n - 1)" by (simp add: n)
  have pts: "points = series_loop agg step first stop"
    using assms(2) \<open>first0 \<le> stop\<close>
    by (simp add: points_def Series_def Let_def first_def first0_def stop_def agg_def k_def maxSeriesPoints_def)
  also have "\<dots> = map (\<lambda>j. series_point agg (first + int j * k)) [0..<n]"
    using series_loop_times [of first "n - 1" step stop agg] start npos by (simp add: k_def [symmetric])
  finally have points: "points = map (\<lambda>j. series_point agg (first + int j * k)) [0..<n]" .
  have "first + int j * k = stop - int (n - 1 - j) * k" if "j < n" for j
    using that start by (auto simp: of_nat_diff algebra_simps)
  then have "map pT points = map (\<lambda>j. stop - int (n - 1 - j) * k) [0..<n]"
    by (simp add: points)
  moreover have "list_all (\<lambda>(column, bucket_column). \<forall>p \<in> set points.
        column p = agg_sum step bucket_column (series_buckets (rotateLocked c now)) (pT p)) point_columns"
    by (auto simp: list_all_iff points agg_def series_point_fold series_point_empty)
  ultimately show ?thesis by (simp add: agg_sum_def)
qed

theorem Series_points_witness:
  "map (\<lambda>p. (pT p, pUpload p)) (fst (Series test_run 250000000000 70000000000 60000000000))
     = [(60, 0), (120, 10), (180, 0), (240, 0)]"
proof -
  have "map pT (fst (Series test_run 250000000000 70000000000 60000000000)) = [60, 120, 180, 240]"
    using Series_points [of 70000000000 60000000000 250000000000 test_run]
    by (simp add: Unix_def interval_secs_def alignUnix_nonneg upt_rec)
  moreover have "map pUpload (fst (Series test_run 250000000000 70000000000 60000000000)) = [0, 10, 0, 0]" by code_simp
  ultimately show ?thesis by (auto simp: map_eq_Cons_conv)
qed

section \<open>The list of live sessions\<close>

lemma sample_frame [simp]: "sId (snd (sample now s)) = sId s"
  by (simp add: sample_def rates_def Let_def)

lemma vID_view [simp]: "vID (fst (view s now)) = sId s"
  by (simp add: view_def rates_def Let_def)

lemma view_sample:
  "vUploadBps (fst (view (snd (sample now s)) now)) + vDownBps (fst (view (snd (sample now s)) now))
     = fst (sample now s)"
  by (auto simp: view_def sample_def rates_def Let_def minRateSample_def)

lemma live_sessions_ids:
  assumes "sessions_ok c" "range_order rng"
  shows "distinct (map sId (live_sessions rng c opt))"
proof -
  define ss where "ss = List.map_filter (\<lambda>i. map_of (sessions c) i) (active c)"
  have "map_of (sessions c) i \<noteq> None \<and> sId (the (map_of (sessions c) i)) = i" if "i \<in> set (active c)" for i
    using assms(1) that unfolding sessions_ok_def by (force dest!: map_of_SomeD)
  then have "map sId ss = active c"
    unfolding ss_def map_filter_def by (auto simp: comp_def intro!: map_idI)
  then have "distinct (map sId ss)" using assms(1) by (simp add: sessions_ok_def)
  then have "distinct (map sId (rng ss))" by (simp add: range_orderD(4) [OF assms(2)])
  then show ?thesis by (simp add: live_sessions_def ss_def distinct_map_filter)
qed

lemma sorted_ids:
  assumes "distinct (map f xs)"
  shows "sorted_wrt (\<lambda>x y. f y < (f x :: int)) (sort_slice (by_key_desc f) xs)"
proof -
  have "sorted_wrt (\<lambda>x y. \<not> by_key_desc f y x) (sort_slice (by_key_desc f) xs)"
    by (rule key_desc.sorted_sort_slice)
  moreover have "sorted_wrt (\<lambda>x y. f x \<noteq> f y) (sort_slice (by_key_desc f) xs)"
    using assms distinct_map_sort_slice [of f "by_key_desc f" xs]
    by (simp add: distinct_conv_nth sorted_wrt_iff_nth_less)
  ultimately show ?thesis
    unfolding sorted_wrt_iff_nth_less by_key_desc_def by (metis linorder_neqE)
qed

lemma busiest_ranked:
  assumes "distinct (map sId all)"
  shows "length (busiest now n all) = min n (length all)"
    and "sorted_wrt (\<lambda>x y. sId y < sId x) (busiest now n all)"
    and "x \<in> set (busiest now n all) \<Longrightarrow> \<exists>s \<in> set all. x = snd (sample now s)"
    and "x \<in> set (busiest now n all) \<Longrightarrow> s \<in> set all \<Longrightarrow> sId s \<notin> sId ` set (busiest now n all) \<Longrightarrow>
      \<exists>r \<in> set all. x = snd (sample now r) \<and> fst (sample now s) \<le> fst (sample now r)"
proof -
  define sc where "sc = sort_slice (by_key_desc fst) (map (sample now) all)"
  have set_sc: "set sc = sample now ` set all" by (simp add: sc_def)
  have len: "length sc = length all" by (simp add: sc_def)
  have b: "busiest now n all = map snd (sort_slice (by_key_desc (\<lambda>p. sId (snd p))) (take n sc))"
    by (simp add: busiest_def Let_def sc_def)
  have "distinct (map (\<lambda>p. sId (snd p)) (map (sample now) all))" using assms by (simp add: comp_def)
  then have "distinct (map (\<lambda>p. sId (snd p)) sc)" unfolding sc_def by (simp only: distinct_map_sort_slice)
  then have "distinct (map (\<lambda>p. sId (snd p)) (take n sc))" by (metis distinct_take take_map)
  from sorted_ids [OF this] show "sorted_wrt (\<lambda>x y. sId y < sId x) (busiest now n all)"
    by (simp add: b sorted_wrt_map)
  show "length (busiest now n all) = min n (length all)" by (simp add: b len min.commute)
  have mem: "\<exists>r \<in> set all. x = snd (sample now r) \<and> sample now r \<in> set (take n sc)"
    if "x \<in> set (busiest now n all)" for x
  proof -
    from that obtain q where q: "q \<in> set (take n sc)" "x = snd q" by (auto simp: b)
    then have "q \<in> sample now ` set all" using set_sc by (metis in_set_takeD)
    with q show ?thesis by blast
  qed
  then show "x \<in> set (busiest now n all) \<Longrightarrow> \<exists>s \<in> set all. x = snd (sample now s)" by blast
  assume x: "x \<in> set (busiest now n all)" and s: "s \<in> set all" "sId s \<notin> sId ` set (busiest now n all)"
  have "sample now s \<notin> set (take n sc)"
    using s(2) by (force simp: b image_image)
  moreover have "sample now s \<in> set sc" using s(1) set_sc by simp
  ultimately have "sample now s \<in> set (drop n sc)"
    by (metis Un_iff append_take_drop_id set_append)
  then show "\<exists>r \<in> set all. x = snd (sample now r) \<and> fst (sample now s) \<le> fst (sample now r)"
    using mem [OF x] key_desc.top_of_sort_slice unfolding sc_def by_key_desc_def by (metis linorder_not_less)
qed

text \<open>The list of live connections shows sessions that are active and pass the filter, newest
  first and never more than the limit; when they all fit none is left out, and when they do not,
  no session left out is faster than one that is shown.\<close>

theorem ActiveSessions_listing:
  fixes now :: instant
  assumes "sessions_ok c" and "range_order rng" and "0 < aLimit opt"
  defines "vs \<equiv> fst (ActiveSessions rng c now opt)"
  defines "live \<equiv> {s. sId s \<in> set (active c) \<and> map_of (sessions c) (sId s) = Some s \<and> session_matches opt s}"
  shows "length vs = min (nat (aLimit opt)) (card live)
    \<and> sorted_wrt (\<lambda>v w. vID w < vID v) vs \<and> vID ` set vs \<subseteq> sId ` live
    \<and> (\<forall>s \<in> live. sId s \<notin> vID ` set vs \<longrightarrow> (\<forall>v \<in> set vs. fst (sample now s) \<le> vUploadBps v + vDownBps v))"
proof -
  define ss where "ss = live_sessions rng c opt"
  define all where "all = sort_slice (by_key_desc sId) ss"
  have dist: "distinct (map sId ss)" unfolding ss_def by (rule live_sessions_ids [OF assms(1,2)])
  have sid: "sId s = i" if "map_of (sessions c) i = Some s" for i s
    using assms(1) map_of_SomeD [OF that] unfolding sessions_ok_def by auto
  have "set (List.map_filter (\<lambda>i. map_of (sessions c) i) (active c))
      = {s. \<exists>i \<in> set (active c). map_of (sessions c) i = Some s}"
    unfolding map_filter_def by force
  also have "\<dots> = {s. sId s \<in> set (active c) \<and> map_of (sessions c) (sId s) = Some s}"
    using sid by metis
  finally have live: "set ss = live"
    unfolding ss_def live_sessions_def live_def set_filter range_orderD(2) [OF assms(2)] by blast
  have card: "length ss = card live" using dist live by (metis distinct_card distinct_map)
  have dall: "distinct (map sId all)" using dist by (simp add: all_def)
  have set_all: "set all = live" by (simp add: all_def live)
  have lall: "length all = card live" by (simp add: all_def card)
  have vs: "vs = map (\<lambda>s. fst (view s now))
      (if aLimit opt < int (length all) then busiest now (nat (aLimit opt)) all else all)"
    using assms(3) by (simp add: vs_def ActiveSessions_def Let_def all_def ss_def)
  show ?thesis
  proof (cases "aLimit opt < int (length all)")
    case True
    note b = busiest_ranked [OF dall, where now = now and n = "nat (aLimit opt)"]
    have vs: "vs = map (\<lambda>s. fst (view s now)) (busiest now (nat (aLimit opt)) all)" using True vs by simp
    have ids: "vID ` set vs = sId ` set (busiest now (nat (aLimit opt)) all)" by (simp add: vs image_image)
    have "fst (sample now s) \<le> vUploadBps v + vDownBps v"
      if sv: "s \<in> live" "sId s \<notin> vID ` set vs" "v \<in> set vs" for s v
    proof -
      from sv(3) obtain x where x: "x \<in> set (busiest now (nat (aLimit opt)) all)" "v = fst (view x now)"
        by (auto simp: vs)
      obtain r where "x = snd (sample now r)" "fst (sample now s) \<le> fst (sample now r)"
        using b(4) [OF x(1)] sv(1,2) unfolding ids set_all by blast
      then show ?thesis using view_sample [of now r] by (simp add: x(2))
    qed
    moreover have "vID ` set vs \<subseteq> sId ` live"
      unfolding ids set_all [symmetric] by (auto dest!: b(3))
    moreover have "sorted_wrt (\<lambda>v w. vID w < vID v) vs" using b(2) by (simp add: vs sorted_wrt_map)
    moreover have "length vs = min (nat (aLimit opt)) (card live)" using b(1) lall by (simp add: vs)
    ultimately show ?thesis by blast
  next
    case False
    have vs: "vs = map (\<lambda>s. fst (view s now)) all" using False vs by simp
    have "sorted_wrt (\<lambda>v w. vID w < vID v) vs"
      using sorted_ids [OF dist] by (simp add: vs sorted_wrt_map all_def)
    moreover have "vID ` set vs = sId ` live" by (simp add: vs image_image set_all)
    moreover have "length vs = min (nat (aLimit opt)) (card live)" using False lall assms(3) by (simp add: vs)
    ultimately show ?thesis by auto
  qed
qed

theorem ActiveSessions_listing_witness:
  "map vID (fst (ActiveSessions rev test_run 300000000000 \<lparr>aLimit = 5, aProto = [], aDecision = ''proxy'', aHost = ''A''\<rparr>)) = [1]
   \<and> sorted_wrt (\<lambda>v w. vID w < vID v)
        (fst (ActiveSessions rev test_run 300000000000 \<lparr>aLimit = 5, aProto = [], aDecision = ''proxy'', aHost = ''A''\<rparr>))"
proof -
  have "sessions_ok test_run"
  proof -
    have "reach accounting rev test_config test_run"
      unfolding test_run_def
      by (intro reach_op reach_new) (simp_all add: clock_ok_def test_config_def default_config_def stats_consts
          interval_secs_def Unix_def)
    then show ?thesis using reach_ledger by (auto simp: ledger_ok_def)
  qed
  then have "sorted_wrt (\<lambda>v w. vID w < vID v)
      (fst (ActiveSessions rev test_run 300000000000 \<lparr>aLimit = 5, aProto = [], aDecision = ''proxy'', aHost = ''A''\<rparr>))"
    using ActiveSessions_listing [OF _ range_order_rev,
        of test_run "\<lparr>aLimit = 5, aProto = [], aDecision = ''proxy'', aHost = ''A''\<rparr>" 300000000000] by simp
  moreover have "map vID (fst (ActiveSessions rev test_run 300000000000
      \<lparr>aLimit = 5, aProto = [], aDecision = ''proxy'', aHost = ''A''\<rparr>)) = [1]" by code_simp
  ultimately show ?thesis by blast
qed

end
