(* ===== verification/Stats_Persist.thy ===== *)
theory Stats_Persist
  imports Stats_Views
begin

text \<open>
  Package \<^verbatim>\<open>core/stats\<close>, persistence: \<^verbatim>\<open>Save\<close>, \<^verbatim>\<open>Load\<close>, and \<^verbatim>\<open>New\<close> and \<^verbatim>\<open>Close\<close>, which use them.

  A file system maps paths to documents, and a document is the value its JSON text encodes, or text
  that does not decode. What can fail of the calls into package \<^verbatim>\<open>os\<close> is an argument. \<open>grow\<close> is the
  capacity the Go runtime gives a full slice it has to reallocate for one more element.
\<close>

section \<open>Snapshots\<close>

definition snapshotVersion :: int where "snapshotVersion = 1"

record snapshot =
  sVersion :: int
  sSavedAt :: instant
  sTotals :: Counters
  sDirect :: Counters
  sProxy :: Counters
  sDNS :: DNSStat
  sBuckets :: "Bucket list"
  sDomains :: "DomainStat list"
  sNodes :: "NodeStat list"
  sErrors :: "ErrorEntry list"
  sPeakUp :: int
  sPeakDown :: int

datatype document = Snapshot_doc snapshot | Undecodable

type_synonym files = "string \<rightharpoonup> document"

datatype persist_error = NoFile | MkdirFailed | WriteFailed | RenameFailed | ReadFailed | ParseFailed | BadVersion int

record faults =
  mkdir_fails :: bool
  write_fails :: bool
  partial :: "document option"
  rename_fails :: bool

definition allDomainsLocked :: "order \<Rightarrow> table \<Rightarrow> DomainStat list" where
  "allDomainsLocked rng m = rng (map snd m)"

definition allNodesLocked :: "(NodeStat list \<Rightarrow> NodeStat list) \<Rightarrow> (string \<times> NodeStat) list \<Rightarrow> NodeStat list" where
  "allNodesLocked rng m = rng (map snd m)"

definition take_snapshot :: "order \<Rightarrow> (NodeStat list \<Rightarrow> NodeStat list) \<Rightarrow> Collector \<Rightarrow> instant \<Rightarrow> snapshot" where
  "take_snapshot rng rngN c now =
     \<lparr>sVersion = snapshotVersion, sSavedAt = now, sTotals = totals c, sDirect = direct c, sProxy = proxy c,
      sDNS = \<lparr>qQueries = qQueries (dns c), qCacheHits = qCacheHits (dns c), qFailures = qFailures (dns c),
              qDirect = qDirect (dns c), qDoH = qDoH (dns c), qByType = copyMap (qByType (dns c)),
              qByUpstream = copyMap (qByUpstream (dns c)),
              qTopDomains = topFromLocked rng (dnsNames c) (DomainLimit (cfg c))\<rparr>,
      sBuckets = orderedBucketsLocked c, sDomains = allDomainsLocked rng (domains c),
      sNodes = allNodesLocked rngN (nodes c), sErrors = errs c, sPeakUp = peakUp c, sPeakDown = peakDown c\<rparr>"

section \<open>Save\<close>

definition Save ::
  "order \<Rightarrow> (NodeStat list \<Rightarrow> NodeStat list) \<Rightarrow> faults \<Rightarrow> Collector \<Rightarrow> instant \<Rightarrow> files
     \<Rightarrow> persist_error option \<times> files" where
  "Save rng rngN io c now fs =
     (let path = File (cfg c) in
      if path = [] then (Some NoFile, fs)
      else if mkdir_fails io then (Some MkdirFailed, fs)
      else
        let snap = take_snapshot rng rngN c now; tmp = path @ ''.tmp'' in
        if write_fails io then (Some WriteFailed, fs(tmp := partial io))
        else
          let fs = fs(tmp \<mapsto> Snapshot_doc snap) in
          if rename_fails io then (Some RenameFailed, fs(tmp := None))
          else (None, fs(path := fs tmp, tmp := None)))"

section \<open>Load\<close>

text \<open>One bucket of the snapshot; the state is the slice and its capacity.\<close>

definition load_bucket :: "(nat \<Rightarrow> nat) \<Rightarrow> int \<Rightarrow> nat \<Rightarrow> Bucket \<Rightarrow> Bucket list \<times> nat \<Rightarrow> Bucket list \<times> nat" where
  "load_bucket grow cutoff maxBuckets b st =
     (if bT b \<le> 0 \<or> bT b < cutoff then st
      else
        let (bs, cp) = (if maxBuckets \<le> length (fst st) then (tl (fst st), snd st - 1) else st)
        in (bs @ [b], if length bs < cp then cp else grow cp))"

definition load_rows :: "('r \<Rightarrow> string) \<Rightarrow> 'r list \<Rightarrow> (string \<times> 'r) list \<Rightarrow> (string \<times> 'r) list" where
  "load_rows key rows m = fold (\<lambda>r m. if key r = [] then m else AList.update (key r) r m) rows m"

definition restore :: "(nat \<Rightarrow> nat) \<Rightarrow> Collector \<Rightarrow> instant \<Rightarrow> snapshot \<Rightarrow> Collector" where
  "restore grow c now snap =
     (let cutoff = Unix (now - wrap64 (HistoryMinutes (cfg c) * BucketInterval (cfg c)));
          (bs, cp) = fold (load_bucket grow cutoff (bcap c)) (sBuckets snap) ([], bcap c);
          es = sErrors snap;
          es = (if ErrorLimit (cfg c) < int (length es) then drop (length es - nat (ErrorLimit (cfg c))) es else es)
      in c\<lparr>totals := sTotals snap, direct := sDirect snap, proxy := sProxy snap,
           dns := (sDNS snap)\<lparr>qTopDomains := []\<rparr>,
           dnsNames := load_rows dDomain (qTopDomains (sDNS snap)) (dnsNames c),
           buckets := bs, bcap := cp, head := 0,
           domains := load_rows dDomain (sDomains snap) (domains c),
           nodes := load_rows nName (sNodes snap) (nodes c),
           errs := es, peakUp := sPeakUp snap, peakDown := sPeakDown snap\<rparr>)"

definition Load :: "(nat \<Rightarrow> nat) \<Rightarrow> bool \<Rightarrow> Collector \<Rightarrow> instant \<Rightarrow> files \<Rightarrow> persist_error + Collector" where
  "Load grow read_fails c now fs =
     (let path = File (cfg c) in
      if path = [] then Inl NoFile
      else if read_fails then Inl ReadFailed
      else case fs path of
             None \<Rightarrow> Inr c
           | Some Undecodable \<Rightarrow> Inl ParseFailed
           | Some (Snapshot_doc snap) \<Rightarrow>
               if sVersion snap \<noteq> snapshotVersion then Inl (BadVersion (sVersion snap))
               else Inr (restore grow c now snap))"

section \<open>Construction and shutdown\<close>

definition New :: "(nat \<Rightarrow> nat) \<Rightarrow> bool \<Rightarrow> instant \<Rightarrow> files \<Rightarrow> Config \<Rightarrow> Collector" where
  "New grow read_fails now fs g =
     (let c = New_collector now g in
      if File (cfg c) = [] then c
      else case Load grow read_fails c now fs of Inl _ \<Rightarrow> c | Inr c' \<Rightarrow> c')"

definition StartTime :: "Collector \<Rightarrow> instant" where
  "StartTime c = start c"

text \<open>The final snapshot; the background saver, which saves at intervals until it is stopped, has ended.\<close>

definition Close ::
  "order \<Rightarrow> (NodeStat list \<Rightarrow> NodeStat list) \<Rightarrow> faults \<Rightarrow> Collector \<Rightarrow> instant \<Rightarrow> files \<Rightarrow> files" where
  "Close rng rngN io c now fs = (if File (cfg c) = [] then fs else snd (Save rng rngN io c now fs))"

section \<open>Saving is atomic\<close>

text \<open>Saving replaces the snapshot or leaves it as it was: when it reports success the file holds
  the complete new snapshot, when it reports an error the file is untouched, and no other file than
  the snapshot and its temporary sibling changes.\<close>

theorem Save_atomic:
  "let (err, fs') = Save rng rngN io c now fs
   in (err = None \<longrightarrow> fs' (File (cfg c)) = Some (Snapshot_doc (take_snapshot rng rngN c now)))
      \<and> (err \<noteq> None \<longrightarrow> fs' (File (cfg c)) = fs (File (cfg c)))
      \<and> (\<forall>p. p \<noteq> File (cfg c) \<longrightarrow> p \<noteq> File (cfg c) @ ''.tmp'' \<longrightarrow> fs' p = fs p)"
  by (simp add: Save_def Let_def)

theorem Save_atomic_witness:
  "let c = New_collector 100000000000 (test_config\<lparr>File := ''s''\<rparr>);
       io = \<lparr>mkdir_fails = False, write_fails = False, partial = None, rename_fails = False\<rparr>
   in snd (Save rev rev io c 0 Map.empty) ''s'' = Some (Snapshot_doc (take_snapshot rev rev c 0))"
proof -
  define c where "c = New_collector 100000000000 (test_config\<lparr>File := ''s''\<rparr>)"
  define io where "io = \<lparr>mkdir_fails = False, write_fails = False, partial = None, rename_fails = False\<rparr>"
  have f: "File (cfg c) = ''s''" unfolding c_def by code_simp
  have "fst (Save rev rev io c 0 Map.empty) = None" by (simp add: Save_def Let_def f io_def)
  then show ?thesis
    using Save_atomic [of rev rev io c 0 Map.empty] f
    unfolding c_def [symmetric] io_def [symmetric] Let_def by (auto split: prod.splits)
qed

section \<open>What a restart restores\<close>

text \<open>What the snapshot relies on: no row without a name, and rows filed under their names.\<close>

definition persist_ok :: "Collector \<Rightarrow> bool" where
  "persist_ok c \<longleftrightarrow> [] \<notin> fst ` set (domains c) \<and> [] \<notin> fst ` set (dnsNames c) \<and> [] \<notin> fst ` set (nodes c)
     \<and> distinct (map fst (nodes c)) \<and> (\<forall>(k, n) \<in> set (nodes c). nName n = k)
     \<and> distinct (map fst (qByType (dns c))) \<and> distinct (map fst (qByUpstream (dns c)))
     \<and> qTopDomains (dns c) = [] \<and> bcap c = nat (HistoryMinutes (cfg c))"

lemma dns_frame [simp, go_frame]:
  "dnsNames (addTraffic c now up down d) = dnsNames c" "dnsNames (bumpConnLocked c d now) = dnsNames c"
  "dnsNames (put_session i s c) = dnsNames c" "dnsNames (recordErrorLocked c scope host msg now) = dnsNames c"
  "dnsNames (addDomainLocked rng c now host d up down n e) = dnsNames c"
  "nodes (addTraffic c now up down d) = nodes c" "nodes (bumpConnLocked c d now) = nodes c"
  "nodes (put_session i s c) = nodes c" "nodes (recordErrorLocked c scope host msg now) = nodes c"
  "nodes (addDomainLocked rng c now host d up down n e) = nodes c"
  "dns (addTraffic c now up down d) = dns c" "dns (bumpConnLocked c d now) = dns c"
  "dns (put_session i s c) = dns c" "dns (recordErrorLocked c scope host msg now) = dns c"
  "dns (addDomainLocked rng c now host d up down n e) = dns c"
  "bcap (addTraffic c now up down d) = bcap c" "bcap (bumpConnLocked c d now) = bcap c"
  "bcap (put_session i s c) = bcap c" "bcap (recordErrorLocked c scope host msg now) = bcap c"
  "bcap (addDomainLocked rng c now host d up down n e) = bcap c"
  by (auto simp: addTraffic_def bumpConnLocked_def put_session_def recordErrorLocked_def addDomainLocked_def Let_def
      split: Decision.splits)

lemma persist_frame [simp, go_frame]:
  "persist_ok (addTraffic c now up down d) = persist_ok c" "persist_ok (bumpConnLocked c d now) = persist_ok c"
  "persist_ok (put_session i s c) = persist_ok c" "persist_ok (recordErrorLocked c scope host msg now) = persist_ok c"
  "persist_ok (rotateLocked c now) = persist_ok c" "persist_ok (c\<lparr>totals := x\<rparr>) = persist_ok c"
  "persist_ok (c\<lparr>active := y\<rparr>) = persist_ok c" "persist_ok (c\<lparr>nextID := z\<rparr>) = persist_ok c"
  by (simp_all add: persist_ok_def)

lemma keys_prune_if_full: "fst ` set (prune_if_full rng limit m) \<subseteq> fst ` set m"
  by (auto simp: prune_if_full_def pruneLocked_filter)

lemma keys_store:
  "[] \<notin> fst ` set m \<Longrightarrow> k \<noteq> [] \<Longrightarrow> [] \<notin> fst ` set (prune_if_full rng limit (AList.update k r m))"
  using keys_prune_if_full [of rng limit "AList.update k r m"] by (auto simp: dom_update)

lemma persist_ok_addDomainLocked [go_inv]:
  "persist_ok c \<Longrightarrow> host \<noteq> [] \<Longrightarrow> persist_ok (addDomainLocked rng c now host d up down n e)"
  by (auto simp: persist_ok_def addDomainLocked_def Let_def keys_store)

lemma persist_ok_flush [go_inv]: "persist_ok c \<Longrightarrow> persist_ok (flush rng c now i)"
  by (auto simp: flush_def addDomain_def Let_def persist_ok_addDomainLocked split: option.splits)

lemma persist_ok_charge_node [go_inv]:
  assumes "persist_ok c" "name \<noteq> []"
  shows "persist_ok (c\<lparr>nodes := charge_node name up down sec (nodes c)\<rparr>)"
proof -
  have "nName n = name" if "map_of (nodes c) name = Some n" for n
    using assms(1) map_of_SomeD [OF that] by (auto simp: persist_ok_def)
  then obtain r where r: "charge_node name up down sec (nodes c) = AList.update name r (nodes c)" "nName r = name"
    by (cases "map_of (nodes c) name") (auto simp: charge_node_def Let_def new_node_def)
  then show ?thesis
    using assms set_update_subset [of name r "nodes c"]
    by (auto simp: persist_ok_def distinct_update dom_update)
qed

lemma count_dns_maps:
  "distinct (map fst (qByType q)) \<Longrightarrow> distinct (map fst (qByType (count_dns t u q)))"
  "distinct (map fst (qByUpstream q)) \<Longrightarrow> distinct (map fst (qByUpstream (count_dns t u q)))"
  "qTopDomains (count_dns t u q) = qTopDomains q"
  by (simp_all add: count_dns_def Let_def distinct_bump)

lemma persist_ok_RecordDNS [go_inv]:
  "persist_ok c \<Longrightarrow> persist_ok (RecordDNS rng c now domain qtype upstream err)"
  unfolding RecordDNS_def Let_def
  by (cases err; cases "domain = []") (simp_all add: persist_ok_def keys_store count_dns_maps)

lemma persist_ok_finish [go_inv]: "persist_ok c \<Longrightarrow> persist_ok (finish rng c now s err)"
  unfolding finish_def Let_def
  by (cases err) (simp_all add: persist_ok_addDomainLocked persist_ok_charge_node)

lemma persist_ok_Reset [go_inv]: "persist_ok c \<Longrightarrow> persist_ok (Reset c now)"
  by (simp add: persist_ok_def Reset_def zero_dns_def)

lemma persist_ok_apply_op [go_inv]: "persist_ok c \<Longrightarrow> persist_ok (apply_op rng now op c)"
  by (cases op) (auto simp: Begin_def AddUpload_def AddDownload_def AddDatagram_def addDomain_def
      SetNode_def End_def RecordError_def Let_def persist_ok_RecordDNS persist_ok_finish
      persist_ok_addDomainLocked persist_ok_flush persist_ok_Reset split: option.splits)

lemma persist_ok_New: "persist_ok (New_collector now g)"
  by (simp add: persist_ok_def New_collector_def Let_def zero_dns_def)

lemma reach_persist: "reach P rng g c \<Longrightarrow> persist_ok c"
  by (induction rule: reach.induct) (simp_all add: persist_ok_New persist_ok_apply_op)

lemma copyMap_id: "distinct (map fst m) \<Longrightarrow> copyMap m = m"
proof -
  have "distinct (map fst (out @ m)) \<Longrightarrow> fold (\<lambda>(k, v) out. AList.update k v out) m out = out @ m" for out
  proof (induction m arbitrary: out)
    case (Cons p m)
    obtain k v where p: "p = (k, v)" by (cases p)
    have "k \<notin> fst ` set out" using Cons.prems by (auto simp: p)
    then have "fold (\<lambda>(k, v) out. AList.update k v out) (p # m) out
        = fold (\<lambda>(k, v) out. AList.update k v out) m (out @ [(k, v)])"
      by (simp add: p AList_update_notin)
    also have "\<dots> = (out @ [(k, v)]) @ m" by (rule Cons.IH) (use Cons.prems in \<open>simp add: p\<close>)
    finally show ?case by (simp add: p)
  qed simp
  from this [of "[]"] show "distinct (map fst m) \<Longrightarrow> copyMap m = m" by (simp add: copyMap_def)
qed

lemma load_rows_fresh:
  assumes "distinct (map key rows)" "[] \<notin> key ` set rows"
  shows "load_rows key rows [] = map (\<lambda>r. (key r, r)) rows"
proof -
  have "load_rows key rows m = m @ map (\<lambda>r. (key r, r)) rows"
    if "distinct (map fst m @ map key rows)" "[] \<notin> key ` set rows" for m
    using that
  proof (induction rows arbitrary: m)
    case (Cons r rows)
    have "load_rows key (r # rows) m = load_rows key rows (m @ [(key r, r)])"
      using Cons.prems by (auto simp: load_rows_def AList_update_notin)
    also have "\<dots> = (m @ [(key r, r)]) @ map (\<lambda>r. (key r, r)) rows"
      by (rule Cons.IH) (use Cons.prems in auto)
    finally show ?case by simp
  qed (simp add: load_rows_def)
  from this [of "[]"] show ?thesis using assms by simp
qed

lemma load_rows_table:
  assumes dist: "distinct (map fst m)" and key: "\<forall>(k, r) \<in> set m. key r = k" and ne: "[] \<notin> fst ` set m"
    and rows: "mset rows = mset (map snd m)"
  shows "map_of (load_rows key rows []) = map_of m"
proof -
  have k: "map key (map snd m) = map fst m" using key by auto
  have "mset (map key rows) = mset (map fst m)" using k rows by (metis mset_map)
  then have d: "distinct (map key rows)" using dist mset_eq_imp_distinct_iff by blast
  have s: "set rows = snd ` set m" using rows by (metis set_map set_mset_mset)
  have "key ` set rows = fst ` set m" unfolding s image_image using key by (force intro: image_cong)
  then have l: "load_rows key rows [] = map (\<lambda>r. (key r, r)) rows" using ne d by (intro load_rows_fresh) auto
  have "set (map (\<lambda>r. (key r, r)) rows) = set m" using key by (force simp: s image_image)
  then show ?thesis unfolding l using d dist by (subst map_of_inject_set) (simp_all add: comp_def)
qed

lemma load_buckets_fit:
  assumes "length (filter (\<lambda>b. 0 < bT b \<and> cutoff \<le> bT b) bs) \<le> n"
  shows "fold (load_bucket grow cutoff n) bs ([], n) = (filter (\<lambda>b. 0 < bT b \<and> cutoff \<le> bT b) bs, n)"
proof -
  have "fold (load_bucket grow cutoff n) bs (done, n) = (done @ filter (\<lambda>b. 0 < bT b \<and> cutoff \<le> bT b) bs, n)"
    if "length done + length (filter (\<lambda>b. 0 < bT b \<and> cutoff \<le> bT b) bs) \<le> n" for "done"
    using that by (induction bs arbitrary: "done") (auto simp: load_bucket_def not_le not_less)
  from this [of "[]"] show ?thesis using assms by simp
qed

text \<open>C28. A restart loses nothing but the bucket being filled and what has left the history window.
  The collector that \<^verbatim>\<open>New\<close> builds from a snapshot that \<^verbatim>\<open>Save\<close> wrote has the same totals, the same
  domain, DNS and node tables, error log and peaks, and of the closed buckets those that are not
  older than the window.\<close>

theorem Save_New_roundtrip:
  fixes grow :: "nat \<Rightarrow> nat" and now' :: instant
  assumes "range_order rng" and "range_order rngN" and "reach P rng g c"
    and "Save rng rngN io c now fs = (None, fs')"
  defines "c' \<equiv> New grow False now' fs' (cfg c)"
  shows "totals c' = totals c \<and> direct c' = direct c \<and> proxy c' = proxy c \<and> dns c' = dns c
    \<and> map_of (domains c') = map_of (domains c) \<and> map_of (dnsNames c') = map_of (dnsNames c)
    \<and> map_of (nodes c') = map_of (nodes c) \<and> errs c' = errs c \<and> peakUp c' = peakUp c \<and> peakDown c' = peakDown c
    \<and> orderedBucketsLocked c' =
        filter (\<lambda>b. Unix (now' - wrap64 (HistoryMinutes (cfg c) * BucketInterval (cfg c))) \<le> bT b)
          (orderedBucketsLocked c)"
proof -
  define snap where "snap = take_snapshot rng rngN c now"
  define c0 where "c0 = New_collector now' (cfg c)"
  define cutoff where "cutoff = Unix (now' - wrap64 (HistoryMinutes (cfg c) * BucketInterval (cfg c)))"
  have t: "tables_ok c" by (rule reach_tables [OF assms(1,3)])
  have p: "persist_ok c" by (rule reach_persist [OF assms(3)])
  have h: "history_ok c" using reach_books [OF assms(3)] by (rule books_okD)
  have cfg: "default_config (cfg c) = cfg c"
    using reach_cfg [OF assms(3)] default_config_pos [of g] by (simp add: default_config_def)
  have f: "File (cfg c) \<noteq> []" using assms(4) by (auto simp: Save_def Let_def)
  have doc: "fs' (File (cfg c)) = Some (Snapshot_doc snap)"
    using assms(4) by (auto simp: Save_def Let_def snap_def split: if_splits)
  have c0: "cfg c0 = cfg c" "bcap c0 = nat (HistoryMinutes (cfg c))" "domains c0 = []" "dnsNames c0 = []" "nodes c0 = []"
    by (simp_all add: c0_def New_collector_def Let_def cfg)
  have c': "c' = restore grow c0 now' snap"
    using f doc by (simp add: c'_def New_def Load_def Let_def c0_def [symmetric] c0 snap_def take_snapshot_def)
  have o: "orderedBucketsLocked c = ring c" using h by (simp add: orderedBucketsLocked_ring history_ok_def)
  have "length (ring c) \<le> bcap c0"
    using h p by (simp add: c0 persist_ok_def history_ok_def ring_ok_def ring_def)
  then have fit: "length (filter (\<lambda>b. 0 < bT b \<and> cutoff \<le> bT b) (ring c)) \<le> bcap c0"
    using length_filter_le order_trans by blast
  note bs = load_buckets_fit [OF fit, of grow]
  have all: "filter (\<lambda>b. 0 < bT b \<and> cutoff \<le> bT b) (ring c) = filter (\<lambda>b. cutoff \<le> bT b) (ring c)"
    using h by (intro filter_cong) (auto simp: history_ok_def)
  have dom: "map_of (load_rows dDomain (rng (map snd (domains c))) []) = map_of (domains c)"
    using t p range_orderD(1) [OF assms(1)] by (intro load_rows_table) (auto simp: tables_ok_def table_ok_def persist_ok_def)
  have nod: "map_of (load_rows nName (rngN (map snd (nodes c))) []) = map_of (nodes c)"
    using p range_orderD(1) [OF assms(2)] by (intro load_rows_table) (auto simp: persist_ok_def)
  have "limit_to (DomainLimit (cfg c)) xs = xs" if "length xs = length (dnsNames c)" for xs :: "DomainStat list"
    using t that by (simp add: limit_to_def tables_ok_def)
  then have top: "topFromLocked rng (dnsNames c) (DomainLimit (cfg c))
      = sort_slice (by_two_desc dConns DomainStat_Total) (rng (map snd (dnsNames c)))"
    using range_orderD(3) [OF assms(1)] by (simp add: topFromLocked_def)
  have nam: "map_of (load_rows dDomain (topFromLocked rng (dnsNames c) (DomainLimit (cfg c))) []) = map_of (dnsNames c)"
    using t p range_orderD(1) [OF assms(1)] unfolding top
    by (intro load_rows_table) (auto simp: tables_ok_def table_ok_def persist_ok_def)
  have dn: "(sDNS snap)\<lparr>qTopDomains := []\<rparr> = dns c"
    using p by (simp add: snap_def take_snapshot_def persist_ok_def copyMap_id)
  have r: "c' = c0\<lparr>totals := totals c, direct := direct c, proxy := proxy c, dns := dns c,
      dnsNames := load_rows dDomain (topFromLocked rng (dnsNames c) (DomainLimit (cfg c))) [],
      buckets := filter (\<lambda>b. cutoff \<le> bT b) (ring c), bcap := bcap c0, head := 0,
      domains := load_rows dDomain (rng (map snd (domains c))) [],
      nodes := load_rows nName (rngN (map snd (nodes c))) [], errs := errs c, peakUp := peakUp c, peakDown := peakDown c\<rparr>"
    using t dn bs all
    by (simp add: c' restore_def Let_def c0 cutoff_def [symmetric] o snap_def take_snapshot_def allDomainsLocked_def
        allNodesLocked_def tables_ok_def)
  have "orderedBucketsLocked c' = filter (\<lambda>b. cutoff \<le> bT b) (orderedBucketsLocked c)"
    unfolding o orderedBucketsLocked_ring using h by (auto simp: r ring_def history_ok_def intro!: filter_cong)
  then show ?thesis by (simp add: r dom nod nam cutoff_def)
qed

theorem Save_New_roundtrip_witness:
  "let c = apply_op rev 130000000000 (OpDNS ''x.y'' ''A'' ''doh'' None)
             (New_collector 100000000000 (test_config\<lparr>File := ''s''\<rparr>));
       io = \<lparr>mkdir_fails = False, write_fails = False, partial = None, rename_fails = False\<rparr>;
       c' = New (\<lambda>n. 2 * n) False 500000000000 (snd (Save rev rev io c 140000000000 Map.empty)) (cfg c)
   in qQueries (dns c') = 1 \<and> map_of (dnsNames c') = map_of (dnsNames c)"
proof -
  define c where "c = apply_op rev 130000000000 (OpDNS ''x.y'' ''A'' ''doh'' None)
    (New_collector 100000000000 (test_config\<lparr>File := ''s''\<rparr>))"
  define io where "io = \<lparr>mkdir_fails = False, write_fails = False, partial = None, rename_fails = False\<rparr>"
  define fs where "fs = snd (Save rev rev io c 140000000000 Map.empty)"
  have reach: "reach (\<lambda>_. True) rev (test_config\<lparr>File := ''s''\<rparr>) c"
    unfolding c_def
    by (intro reach_op reach_new) (simp_all add: clock_ok_def test_config_def default_config_def stats_consts
        interval_secs_def Unix_def)
  have f: "File (cfg c) = ''s''" "qQueries (dns c) = 1" unfolding c_def by code_simp+
  have "Save rev rev io c 140000000000 Map.empty = (None, fs)"
    by (simp add: fs_def Save_def Let_def f io_def)
  from Save_New_roundtrip [OF range_order_rev range_order_rev reach this, of "\<lambda>n. 2 * n" 500000000000]
  show ?thesis using f(2) unfolding c_def [symmetric] io_def [symmetric] Let_def fs_def [symmetric] by simp
qed

end
