(* ===== verification/Manager.thy ===== *)
theory Manager
  imports Go_Net
begin

text \<open>
  Package \<^verbatim>\<open>core/sppclient\<close>: the manager of upstream nodes (\<^verbatim>\<open>manager.go\<close>), the configuration handed to
  the SPP client (\<^verbatim>\<open>client.go\<close>) and to the pingtunnel client (\<^verbatim>\<open>pingtunnel.go\<close>).

  The network and the two client libraries are not part of the repository: the record \<open>world\<close> holds
  what the manager asks of them, dialling, starting a client, whether a client saw traffic. A running
  client is a \<open>handle\<close>. Costs, which the source computes in \<^verbatim>\<open>float64\<close>, are exact rationals. The
  pointer \<^verbatim>\<open>clientPtr\<close>, an atomic copy of the field \<^verbatim>\<open>client\<close>, is that field. Log lines are left out.
\<close>

section \<open>Nodes\<close>

record SppNode =
  ndName :: string
  ndServer :: string
  ndServerProto :: string
  ndKey :: string
  ndEncrypt :: string
  ndCompress :: int
  ndPriority :: int
  ndBandwidth :: int
  ndKcpFecData :: int
  ndKcpFecParity :: int
  ndRdnsDomain :: string
  ndRdnsUpstream :: string
  ndRdnsPsk :: string
  ndRdnsQueryType :: string

definition getEffectivePriority :: "SppNode \<Rightarrow> int" where
  "getEffectivePriority n = (if ndPriority n \<le> 0 then 10 else ndPriority n)"

definition getEffectiveBandwidth :: "SppNode \<Rightarrow> int" where
  "getEffectiveBandwidth n = (if ndBandwidth n \<le> 0 then 100 else ndBandwidth n)"

definition defaultHealthCheckInterval :: duration where
  "defaultHealthCheckInterval = 10000000000"

definition nodeProbeTimeout :: duration where
  "nodeProbeTimeout = 3000000000"

definition proto_of :: "string \<Rightarrow> string" where
  "proto_of proto = ToLower (TrimSpace proto)"

definition dialNetworkForProto :: "string \<Rightarrow> string" where
  "dialNetworkForProto proto =
     (if proto_of proto \<in> {'''', ''tcp'', ''rhttp''} then ''tcp'' else ''udp'')"

definition protoRobustnessBase :: "string \<Rightarrow> int" where
  "protoRobustnessBase proto =
     (let p = proto_of proto in
      if p = ''ricmp'' then 100
      else if p = ''kcp'' then 95
      else if p = ''rudp'' then 85
      else if p = ''pingtunnel'' \<or> p = ''icmp'' then 70
      else if p = ''tcp'' \<or> p = '''' then 50
      else if p = ''rdns'' then 25
      else if p = ''quic'' then 15
      else if p = ''rhttp'' then 10
      else 30)"

section \<open>The pingtunnel client\<close>

definition isPingTunnelProto :: "string \<Rightarrow> bool" where
  "isPingTunnelProto proto \<longleftrightarrow> proto_of proto \<in> {''pingtunnel'', ''icmp''}"

definition pingTunnelHost :: "string \<Rightarrow> string" where
  "pingTunnelHost server =
     (let server = TrimSpace server in
      case SplitHostPort server of
        Some (host, _) \<Rightarrow> if host \<noteq> [] then host else server
      | None \<Rightarrow> server)"

text \<open>What package \<^verbatim>\<open>pingtunnel\<close> offers; an encryption mode is a number.\<close>

record pingtunnel_lib =
  ValidatePassword :: "string \<Rightarrow> bool"
  DeriveAuthCode :: "string \<Rightarrow> int"
  CHACHA20 :: nat
  NoEncryption :: nat
  ParseEncryptionMode :: "string \<Rightarrow> nat option"
  NewCryptoConfig :: "nat \<Rightarrow> string \<Rightarrow> nat option"

definition parsePingTunnelAuthAndCrypto :: "pingtunnel_lib \<Rightarrow> string \<Rightarrow> string \<Rightarrow> (int \<times> nat) option" where
  "parsePingTunnelAuthAndCrypto pt password encrypt =
     (let password = TrimSpace password; encrypt = TrimSpace encrypt in
      if \<not> ValidatePassword pt password then None
      else
        let authCode = DeriveAuthCode pt password;
            encMode =
              (if encrypt \<noteq> [] \<and> \<not> EqualFold encrypt ''default''
               then let modeStr = (case Cut encrypt CHR '':'' of Some (m, _) \<Rightarrow> m | None \<Rightarrow> encrypt)
                    in case ParseEncryptionMode pt (TrimSpace modeStr) of
                         None \<Rightarrow> None
                       | Some mode \<Rightarrow> Some (if mode \<noteq> NoEncryption pt then mode else CHACHA20 pt)
               else Some (CHACHA20 pt))
        in case encMode of
             None \<Rightarrow> None
           | Some mode \<Rightarrow>
               (case NewCryptoConfig pt mode password of
                  None \<Rightarrow> None
                | Some crypto \<Rightarrow> Some (authCode, crypto)))"

section \<open>The client configuration\<close>

record ClientConfig =
  ccServerProto :: string
  ccServer :: string
  ccKey :: string
  ccEncrypt :: string
  ccCompress :: int
  ccLocalSocks5 :: string
  ccName :: string
  ccKcpFecData :: int
  ccKcpFecParity :: int
  ccRdnsDomain :: string
  ccRdnsUpstream :: string
  ccRdnsPsk :: string
  ccRdnsQueryType :: string

text \<open>The settings of \<^verbatim>\<open>proxy.Config\<close> that \<^verbatim>\<open>NewClient\<close> overrides; \<open>None\<close> leaves the library's default.\<close>

record ProxyConfig =
  pxConnBuffer :: int
  pxMainBuffer :: int
  pxMainWriteChannelTimeoutMs :: int
  pxConnTimeout :: int
  pxKey :: string
  pxEncrypt :: string
  pxCompress :: int
  pxKcpFecDataShards :: "int option"
  pxKcpFecParityShards :: "int option"
  pxRdnsDomain :: "string option"
  pxRdnsUpstream :: "string option"
  pxRdnsPsk :: "string option"
  pxRdnsQueryType :: "string option"

definition if_set :: "string \<Rightarrow> string option" where
  "if_set s = (if s \<noteq> [] then Some s else None)"

definition proxy_config :: "ClientConfig \<Rightarrow> ProxyConfig" where
  "proxy_config g =
     (let enc = TrimSpace (ccEncrypt g);
          enc = (if EqualFold enc ''default'' then [] else enc)
      in \<lparr>pxConnBuffer = 32, pxMainBuffer = 128, pxMainWriteChannelTimeoutMs = 0, pxConnTimeout = 0,
          pxKey = ccKey g, pxEncrypt = enc, pxCompress = ccCompress g,
          pxKcpFecDataShards = (if 0 < ccKcpFecData g then Some (ccKcpFecData g) else None),
          pxKcpFecParityShards = (if 0 < ccKcpFecParity g then Some (ccKcpFecParity g) else None),
          pxRdnsDomain = if_set (ccRdnsDomain g), pxRdnsUpstream = if_set (ccRdnsUpstream g),
          pxRdnsPsk = if_set (ccRdnsPsk g), pxRdnsQueryType = if_set (ccRdnsQueryType g)\<rparr>)"

type_synonym handle = nat

text \<open>
  The world outside the package. \<open>dial_tcp\<close> and \<open>dial_conn\<close> give the round-trip time of a dial that
  succeeds, the second on the transports of package \<^verbatim>\<open>network\<close> and with the rdns settings. \<open>ping_run\<close>
  starts a probing pingtunnel client and gives the readings of its \<^verbatim>\<open>RTT()\<close>, one per poll. \<open>spp_start\<close>
  and \<open>ping_start\<close> start a client. \<open>client_traffic\<close> is \<^verbatim>\<open>HasRecentTraffic\<close> of a running client at an
  instant.
\<close>

record world =
  pingtunnel :: pingtunnel_lib
  dial_tcp :: "string \<Rightarrow> duration \<Rightarrow> duration option"
  dial_conn :: "string \<Rightarrow> string option list \<Rightarrow> string \<Rightarrow> duration option"
  ping_run :: "string \<Rightarrow> int \<times> nat \<Rightarrow> duration list option"
  spp_start :: "ProxyConfig \<Rightarrow> string \<Rightarrow> string \<Rightarrow> string \<Rightarrow> string \<Rightarrow> handle option"
  ping_start :: "string \<Rightarrow> string \<Rightarrow> int \<times> nat \<Rightarrow> handle option"
  client_traffic :: "handle \<Rightarrow> duration \<Rightarrow> instant \<Rightarrow> bool"

definition or_default :: "string \<Rightarrow> string \<Rightarrow> string" where
  "or_default s d = (if s = [] then d else s)"

definition NewClient :: "world \<Rightarrow> ClientConfig \<Rightarrow> handle option" where
  "NewClient w g =
     (if ccServer g = [] then None
      else spp_start w (proxy_config g) (ToLower (or_default (ccServerProto g) ''tcp'')) (ccServer g)
             (or_default (ccName g) ''yellowsocks_spp'') (or_default (ccLocalSocks5 g) ''127.0.0.1:10808''))"

definition newPingTunnelClient :: "world \<Rightarrow> ClientConfig \<Rightarrow> handle option" where
  "newPingTunnelClient w g =
     (if TrimSpace (ccServer g) = [] then None
      else case parsePingTunnelAuthAndCrypto (pingtunnel w) (ccKey g) (ccEncrypt g) of
             None \<Rightarrow> None
           | Some ac \<Rightarrow> ping_start w (or_default (ccLocalSocks5 g) ''127.0.0.1:10808'') (pingTunnelHost (ccServer g)) ac)"

section \<open>Probing\<close>

text \<open>The polling loop of \<^verbatim>\<open>probePingTunnel\<close>: one reading every 50 ms until the deadline.\<close>

fun first_positive :: "duration list \<Rightarrow> duration option" where
  "first_positive [] = None"
| "first_positive (r # rs) = (if 0 < r then Some r else first_positive rs)"

definition probePingTunnel :: "world \<Rightarrow> SppNode \<Rightarrow> duration \<Rightarrow> bool \<times> duration" where
  "probePingTunnel w node timeout =
     (case parsePingTunnelAuthAndCrypto (pingtunnel w) (ndKey node) (ndEncrypt node) of
        None \<Rightarrow> (False, 0)
      | Some ac \<Rightarrow>
          (case ping_run w (pingTunnelHost (ndServer node)) ac of
             None \<Rightarrow> (False, 0)
           | Some readings \<Rightarrow>
               (case first_positive (take (nat ((timeout + 49999999) sdiv 50000000)) readings) of
                  None \<Rightarrow> (False, 0)
                | Some rtt \<Rightarrow> (True, rtt))))"

definition rdns_settings :: "SppNode \<Rightarrow> string \<Rightarrow> string option list" where
  "rdns_settings node proto =
     (if proto = ''rdns''
      then [if_set (ndRdnsDomain node), if_set (ndRdnsUpstream node), if_set (ndRdnsPsk node),
            if_set (ndRdnsQueryType node)]
      else [])"

definition probeNodeWithRTT :: "world \<Rightarrow> SppNode \<Rightarrow> duration \<Rightarrow> bool \<times> duration" where
  "probeNodeWithRTT w node timeout =
     (if isPingTunnelProto (ndServerProto node) then probePingTunnel w node timeout
      else
        let proto = proto_of (ndServerProto node) in
        if proto = [] \<or> proto = ''tcp''
        then (case dial_tcp w (ndServer node) timeout of None \<Rightarrow> (False, 0) | Some rtt \<Rightarrow> (True, rtt))
        else (case dial_conn w proto (rdns_settings node proto) (ndServer node) of
                None \<Rightarrow> (False, 0)
              | Some rtt \<Rightarrow> if rtt < timeout then (True, rtt) else (False, 0)))"

definition probeNode :: "world \<Rightarrow> SppNode \<Rightarrow> bool" where
  "probeNode w node = fst (probeNodeWithRTT w node nodeProbeTimeout)"

section \<open>Runtimes\<close>

record nodeRuntime =
  rnode :: SppNode
  localSocks5 :: string
  client :: "handle option"
  alive :: bool
  rttMs :: int
  consecutiveOks :: int
  consecutiveFails :: int
  activeConns :: int
  lastUploadNano :: int
  lastDownloadNano :: int

definition new_runtime :: "SppNode \<Rightarrow> string \<Rightarrow> nodeRuntime" where
  "new_runtime n addr = \<lparr>rnode = n, localSocks5 = addr, client = None, alive = False, rttMs = 0,
     consecutiveOks = 0, consecutiveFails = 0, activeConns = 0, lastUploadNano = 0, lastDownloadNano = 0\<rparr>"

definition hasRecentTraffic :: "world \<Rightarrow> instant \<Rightarrow> duration \<Rightarrow> nodeRuntime \<Rightarrow> bool" where
  "hasRecentTraffic w now window0 rt =
     (let window = (if window0 \<le> 0 then defaultHealthCheckInterval else window0);
          up = lastUploadNano rt; down = lastDownloadNano rt
      in if 0 < up \<and> 0 < down \<and> now - up \<le> window \<and> now - down \<le> window then True
         else case client rt of Some cl \<Rightarrow> client_traffic w cl window now | None \<Rightarrow> False)"

definition calcCost :: "nodeRuntime \<Rightarrow> rat" where
  "calcCost rt =
     (let rtt = (if rttMs rt < 10 then 10 else of_int (rttMs rt));
          conns = of_int (activeConns rt);
          fails = of_int (consecutiveFails rt);
          bw = of_int (getEffectiveBandwidth (rnode rt));
          bw = (if bw \<le> 0 then 100 else bw);
          robust = of_int (protoRobustnessBase (ndServerProto (rnode rt))) / 100;
          robust = (if robust \<le> 1 / 10 then 7 / 10 else robust)
      in (rtt * (conns + 1) * (1 + fails * 2)) / (bw * robust))"

definition robustnessScore :: "nodeRuntime \<Rightarrow> int" where
  "robustnessScore rt =
     (let score = protoRobustnessBase (ndServerProto (rnode rt)) + consecutiveOks rt * 2 - consecutiveFails rt * 20
      in if 100 < rttMs rt then score - (rttMs rt - 100) sdiv 50 else score)"

definition isBetterThan :: "nodeRuntime \<Rightarrow> nodeRuntime \<Rightarrow> bool" where
  "isBetterThan a b =
     (let scoreA = robustnessScore a; scoreB = robustnessScore b;
          bwA = getEffectiveBandwidth (rnode a); bwB = getEffectiveBandwidth (rnode b)
      in if scoreA - scoreB > 10 then True
         else if scoreB - scoreA > 10 then False
         else if bwA \<noteq> bwB then bwA > bwB
         else if scoreA \<noteq> scoreB then scoreA > scoreB
         else if 0 < rttMs a \<and> 0 < rttMs b then rttMs a < rttMs b
         else True)"

section \<open>The manager\<close>

text \<open>\<open>checkPending\<close> is the content of the one-place channel \<^verbatim>\<open>triggerCheckCh\<close>.\<close>

record Manager =
  runtimes :: "nodeRuntime list"
  activeClient :: "handle option"
  activeIndex :: int
  mLocalSocks5 :: string
  checkPending :: bool
  closed :: bool
  healthInterval :: duration

text \<open>One goroutine of \<^verbatim>\<open>probeAllNodes\<close>: the first look at the traffic, the probe, and, at the later
  instant \<open>now'\<close> when it returns, the second look and the recording of the result.\<close>

definition probe_alive :: "nodeRuntime \<Rightarrow> nodeRuntime" where
  "probe_alive rt = rt\<lparr>consecutiveOks := consecutiveOks rt + 1, consecutiveFails := 0\<rparr>"

definition probe_result :: "world \<Rightarrow> duration \<Rightarrow> instant \<Rightarrow> bool \<times> duration \<Rightarrow> nodeRuntime \<Rightarrow> nodeRuntime" where
  "probe_result w interval now' res rt =
     (let (up, rtt) = res in
      if \<not> up \<and> alive rt \<and> hasRecentTraffic w now' interval rt then probe_alive rt
      else if up then probe_alive (rt\<lparr>alive := True, rttMs := rtt sdiv 1000000\<rparr>)
      else rt\<lparr>alive := False, consecutiveFails := consecutiveFails rt + 1, consecutiveOks := 0\<rparr>)"

definition probe_one :: "world \<Rightarrow> duration \<Rightarrow> instant \<Rightarrow> instant \<Rightarrow> nodeRuntime \<Rightarrow> nodeRuntime" where
  "probe_one w interval now now' rt =
     (if alive rt \<and> hasRecentTraffic w now interval rt then probe_alive rt
      else probe_result w interval now' (probeNodeWithRTT w (rnode rt) nodeProbeTimeout) rt)"

definition probeAllNodes :: "world \<Rightarrow> instant \<Rightarrow> instant \<Rightarrow> Manager \<Rightarrow> Manager" where
  "probeAllNodes w now now' m = m\<lparr>runtimes := map (probe_one w (healthInterval m) now now') (runtimes m)\<rparr>"

section \<open>Choosing a node\<close>

definition min_step :: "int \<Rightarrow> int \<Rightarrow> int" where
  "min_step minPri pri = (if minPri = -1 \<or> pri < minPri then pri else minPri)"

definition priorities :: "nodeRuntime list \<Rightarrow> int list" where
  "priorities rts = map (\<lambda>rt. getEffectivePriority (rnode rt)) rts"

definition getActivePriorityTierLocked :: "Manager \<Rightarrow> int" where
  "getActivePriorityTierLocked m =
     (let minPri = foldl min_step (-1) (priorities (filter alive (runtimes m))) in
      if minPri \<noteq> -1 then minPri else foldl min_step minPri (priorities (runtimes m)))"

text \<open>Pointers into \<^verbatim>\<open>runtimes\<close> are indices.\<close>

definition indices_where :: "(nodeRuntime \<Rightarrow> bool) \<Rightarrow> Manager \<Rightarrow> nat list" where
  "indices_where p m = filter (\<lambda>i. p (runtimes m ! i)) [0..<length (runtimes m)]"

definition getActiveTierCandidatesLocked :: "Manager \<Rightarrow> nat list" where
  "getActiveTierCandidatesLocked m =
     (let tier = getActivePriorityTierLocked m in
      if tier = -1 then []
      else
        let allInTier = indices_where (\<lambda>rt. getEffectivePriority (rnode rt) = tier) m;
            aliveInTier = filter (\<lambda>i. alive (runtimes m ! i)) allInTier;
            anyAlive = indices_where alive m
        in if aliveInTier \<noteq> [] then aliveInTier
           else if anyAlive \<noteq> [] then anyAlive
           else allInTier)"

definition epsilon :: rat where
  "epsilon = 1 / 1000000"

definition cost_of :: "Manager \<Rightarrow> nat \<Rightarrow> rat" where
  "cost_of m i = calcCost (runtimes m ! i)"

definition pick_step :: "Manager \<Rightarrow> nat \<Rightarrow> nat \<Rightarrow> nat" where
  "pick_step m best c = (if cost_of m c < cost_of m best - epsilon then c else best)"

definition pickCandidateLocked :: "Manager \<Rightarrow> nat list \<Rightarrow> nat option" where
  "pickCandidateLocked m candidates =
     (case candidates of [] \<Rightarrow> None | c # cs \<Rightarrow> Some (foldl (pick_step m) c cs))"

definition upd_runtime :: "nat \<Rightarrow> (nodeRuntime \<Rightarrow> nodeRuntime) \<Rightarrow> Manager \<Rightarrow> Manager" where
  "upd_runtime i f m = m\<lparr>runtimes := (runtimes m)[i := f (runtimes m ! i)]\<rparr>"

definition client_config :: "nodeRuntime \<Rightarrow> ClientConfig" where
  "client_config rt =
     (let n = rnode rt in
      \<lparr>ccServerProto = ndServerProto n, ccServer = ndServer n, ccKey = ndKey n, ccEncrypt = ndEncrypt n,
       ccCompress = ndCompress n, ccLocalSocks5 = localSocks5 rt, ccName = ndName n,
       ccKcpFecData = ndKcpFecData n, ccKcpFecParity = ndKcpFecParity n, ccRdnsDomain = ndRdnsDomain n,
       ccRdnsUpstream = ndRdnsUpstream n, ccRdnsPsk = ndRdnsPsk n, ccRdnsQueryType = ndRdnsQueryType n\<rparr>)"

definition start_client :: "world \<Rightarrow> nodeRuntime \<Rightarrow> handle option" where
  "start_client w rt =
     (if isPingTunnelProto (ndServerProto (rnode rt)) then newPingTunnelClient w (client_config rt)
      else NewClient w (client_config rt))"

text \<open>The result is whether a client runs afterwards.\<close>

definition ensureClientRunningLocked :: "world \<Rightarrow> nat \<Rightarrow> Manager \<Rightarrow> bool \<times> Manager" where
  "ensureClientRunningLocked w i m =
     (if closed m then (False, m)
      else if client (runtimes m ! i) \<noteq> None then (True, m)
      else case start_client w (runtimes m ! i) of
             None \<Rightarrow> (False, m)
           | Some cl \<Rightarrow> (True, upd_runtime i (\<lambda>rt. rt\<lparr>client := Some cl\<rparr>) m))"

text \<open>\<open>PickNode\<close> returns the address, the node's name and, where the source returns a release function,
  the index of the runtime it releases.\<close>

definition PickNode :: "world \<Rightarrow> Manager \<Rightarrow> (string \<times> string \<times> nat option) \<times> Manager" where
  "PickNode w m =
     (if closed m then (([], [], None), m)
      else
        let candidates = getActiveTierCandidatesLocked m in
        if candidates = [] then ((mLocalSocks5 m, [], None), m)
        else
          let chosen = (case pickCandidateLocked m candidates of None \<Rightarrow> hd candidates | Some c \<Rightarrow> c);
              m = snd (ensureClientRunningLocked w chosen m);
              m = upd_runtime chosen (\<lambda>rt. rt\<lparr>activeConns := activeConns rt + 1\<rparr>) m
          in ((localSocks5 (runtimes m ! chosen), ndName (rnode (runtimes m ! chosen)), Some chosen), m))"

definition release_conn :: "nat \<Rightarrow> Manager \<Rightarrow> Manager" where
  "release_conn i m = upd_runtime i (\<lambda>rt. rt\<lparr>activeConns := activeConns rt - 1\<rparr>) m"

definition Socks5Addr :: "world \<Rightarrow> Manager \<Rightarrow> string \<times> Manager" where
  "Socks5Addr w m =
     (let ((addr, _, lease), m) = PickNode w m;
          m = (case lease of None \<Rightarrow> m | Some i \<Rightarrow> release_conn i m)
      in (if addr \<noteq> [] then addr else mLocalSocks5 m, m))"

section \<open>Health checks\<close>

definition check_body :: "world \<Rightarrow> Manager \<Rightarrow> Manager" where
  "check_body w m =
     (let candidates = getActiveTierCandidatesLocked m;
          m = fold (\<lambda>i m. if alive (runtimes m ! i) then snd (ensureClientRunningLocked w i m) else m) candidates m
      in case pickCandidateLocked m candidates of
           None \<Rightarrow> m
         | Some best \<Rightarrow> m\<lparr>activeIndex := int best\<rparr>)"

definition checkNodes :: "world \<Rightarrow> instant \<Rightarrow> instant \<Rightarrow> Manager \<Rightarrow> Manager" where
  "checkNodes w now now' m =
     (let m = probeAllNodes w now now' m in if closed m then m else check_body w m)"

definition switchNode :: "world \<Rightarrow> int \<Rightarrow> Manager \<Rightarrow> bool \<times> Manager" where
  "switchNode w index m =
     (if closed m then (False, m)
      else if index < 0 \<or> int (length (runtimes m)) \<le> index then (False, m)
      else
        let i = nat index; (ok, m) = ensureClientRunningLocked w i m in
        if \<not> ok then (False, upd_runtime i (\<lambda>rt. rt\<lparr>alive := False\<rparr>) m)
        else (True, (upd_runtime i (\<lambda>rt. rt\<lparr>alive := True\<rparr>) m)\<lparr>activeIndex := index\<rparr>))"

definition fallback_step :: "Manager \<Rightarrow> int \<Rightarrow> int \<Rightarrow> nat \<Rightarrow> int" where
  "fallback_step m exclude bestIdx i =
     (if int i = exclude then bestIdx
      else if \<not> alive (runtimes m ! i) then bestIdx
      else if bestIdx < 0 then int i
      else
        let priCurr = getEffectivePriority (rnode (runtimes m ! i));
            priBest = getEffectivePriority (rnode (runtimes m ! nat bestIdx))
        in if priCurr < priBest \<or> (priCurr = priBest \<and> isBetterThan (runtimes m ! i) (runtimes m ! nat bestIdx))
           then int i else bestIdx)"

definition fallbackLocked :: "world \<Rightarrow> int \<Rightarrow> Manager \<Rightarrow> int \<times> Manager" where
  "fallbackLocked w exclude m =
     (let bestIdx = foldl (fallback_step m exclude) (-1) [0..<length (runtimes m)] in
      if 0 \<le> bestIdx
      then let (ok, m) = switchNode w bestIdx m in (if ok then bestIdx else -1, m)
      else (-1, m))"

section \<open>Reports from the relays\<close>

definition find_node :: "string \<Rightarrow> Manager \<Rightarrow> nat option" where
  "find_node name m = (case indices_where (\<lambda>rt. ndName (rnode rt) = name) m of [] \<Rightarrow> None | i # _ \<Rightarrow> Some i)"

definition RecordNodeTraffic :: "instant \<Rightarrow> string \<Rightarrow> int \<Rightarrow> int \<Rightarrow> Manager \<Rightarrow> Manager" where
  "RecordNodeTraffic now nodeName up down m =
     (if closed m \<or> nodeName = [] then m
      else case find_node nodeName m of
             None \<Rightarrow> m
           | Some i \<Rightarrow> upd_runtime i (\<lambda>rt.
               let rt = (if 0 < up then rt\<lparr>lastUploadNano := now\<rparr> else rt);
                   rt = (if 0 < down then rt\<lparr>lastDownloadNano := now\<rparr> else rt)
               in if 0 < up \<and> 0 < down then rt\<lparr>alive := True, consecutiveFails := 0\<rparr> else rt) m)"

definition HasRecentNodeTraffic :: "world \<Rightarrow> instant \<Rightarrow> string \<Rightarrow> duration \<Rightarrow> Manager \<Rightarrow> bool" where
  "HasRecentNodeTraffic w now nodeName window m =
     (if closed m \<or> nodeName = [] then False
      else case find_node nodeName m of
             None \<Rightarrow> False
           | Some i \<Rightarrow> hasRecentTraffic w now window (runtimes m ! i))"

text \<open>\<open>ReportNodeFailure\<close> counts the failure and returns the index of the node whose liveness its
  goroutine goes on to probe, if any; \<open>failure_probe\<close> is that goroutine, which first looks at the
  traffic at \<open>now\<close> and records the result of its probe at \<open>now'\<close>.\<close>

definition ReportNodeFailure :: "world \<Rightarrow> instant \<Rightarrow> string \<Rightarrow> Manager \<Rightarrow> nat option \<times> Manager" where
  "ReportNodeFailure w now nodeName m =
     (if closed m \<or> nodeName = [] then (None, m)
      else case find_node nodeName m of
             None \<Rightarrow> (None, m)
           | Some i \<Rightarrow>
               let rt = runtimes m ! i in
               if alive rt \<and> hasRecentTraffic w now (healthInterval m) rt then (None, m)
               else
                 let fails = consecutiveFails rt + 1;
                     m = upd_runtime i (\<lambda>rt. rt\<lparr>consecutiveFails := fails, consecutiveOks := 0\<rparr>) m
                 in (if 2 \<le> fails then Some i else None, m))"

definition failure_probe :: "world \<Rightarrow> instant \<Rightarrow> instant \<Rightarrow> nat \<Rightarrow> Manager \<Rightarrow> Manager" where
  "failure_probe w now now' i m =
     (let rt = runtimes m ! i in
      if alive rt \<and> hasRecentTraffic w now (healthInterval m) rt
      then upd_runtime i (\<lambda>rt. rt\<lparr>consecutiveFails := 0\<rparr>) m
      else
        let (up, rtt) = probeNodeWithRTT w (rnode rt) nodeProbeTimeout in
        if \<not> up \<and> alive rt \<and> hasRecentTraffic w now' (healthInterval m) rt
        then upd_runtime i (\<lambda>rt. rt\<lparr>consecutiveFails := 0\<rparr>) m
        else if \<not> up then (upd_runtime i (\<lambda>rt. rt\<lparr>alive := False\<rparr>) m)\<lparr>checkPending := True\<rparr>
        else upd_runtime i (\<lambda>rt. rt\<lparr>alive := True, rttMs := rtt sdiv 1000000, consecutiveFails := 0\<rparr>) m)"

definition ActiveNodeIndex :: "Manager \<Rightarrow> int" where
  "ActiveNodeIndex m = activeIndex m"

definition ActiveNodeName :: "Manager \<Rightarrow> string" where
  "ActiveNodeName m =
     (let idx = ActiveNodeIndex m in
      if idx < 0 \<or> int (length (runtimes m)) \<le> idx then [] else ndName (rnode (runtimes m ! nat idx)))"

definition ReportFailure :: "world \<Rightarrow> instant \<Rightarrow> Manager \<Rightarrow> nat option \<times> Manager" where
  "ReportFailure w now m =
     (let name = ActiveNodeName m in if name \<noteq> [] then ReportNodeFailure w now name m else (None, m))"

section \<open>Status and shutdown\<close>

record NodeStatus =
  nsName :: string
  nsServer :: string
  nsProto :: string
  nsPriority :: int
  nsBandwidth :: int
  nsRTTMs :: int
  nsAlive :: bool
  nsActive :: bool
  nsActiveConns :: int

definition NodeStatuses :: "Manager \<Rightarrow> NodeStatus list" where
  "NodeStatuses m =
     (let tier = getActivePriorityTierLocked m in
      map (\<lambda>rt. let n = rnode rt in
        \<lparr>nsName = ndName n, nsServer = ndServer n, nsProto = ndServerProto n, nsPriority = getEffectivePriority n,
         nsBandwidth = getEffectiveBandwidth n, nsRTTMs = rttMs rt, nsAlive = alive rt,
         nsActive = (alive rt \<and> getEffectivePriority n = tier), nsActiveConns = activeConns rt\<rparr>) (runtimes m))"

definition NodeAlive :: "int \<Rightarrow> Manager \<Rightarrow> bool" where
  "NodeAlive index m = (if index < 0 \<or> int (length (runtimes m)) \<le> index then False else alive (runtimes m ! nat index))"

definition Socks5Auth :: "Manager \<Rightarrow> string \<times> string" where
  "Socks5Auth m = ([], [])"

text \<open>\<open>Close\<close> in two steps, as other calls can run between them: winning the flag, and, under the lock,
  stopping the clients.\<close>

definition close_flag :: "Manager \<Rightarrow> bool \<times> Manager" where
  "close_flag m = (if closed m then (False, m) else (True, m\<lparr>closed := True\<rparr>))"

definition close_clients :: "Manager \<Rightarrow> Manager" where
  "close_clients m = m\<lparr>runtimes := map (\<lambda>rt. rt\<lparr>client := None\<rparr>) (runtimes m), activeClient := None\<rparr>"

definition Close_manager :: "Manager \<Rightarrow> Manager" where
  "Close_manager m = (let (won, m) = close_flag m in if won then close_clients m else m)"

section \<open>Construction\<close>

definition socks5_base :: "string \<Rightarrow> string \<times> int" where
  "socks5_base addr =
     (case SplitHostPort addr of
        Some (host, portStr) \<Rightarrow> (host, case Atoi portStr of Some p \<Rightarrow> p | None \<Rightarrow> 10808)
      | None \<Rightarrow> (''127.0.0.1'', 10808))"

definition initial_manager :: "SppNode list \<Rightarrow> string \<Rightarrow> duration \<Rightarrow> Manager" where
  "initial_manager nodes addr0 interval0 =
     (let addr = (if addr0 = [] then ''127.0.0.1:10808'' else addr0);
          interval = (if interval0 \<le> 0 then defaultHealthCheckInterval else interval0);
          (host, basePort) = socks5_base addr;
          rts = map (\<lambda>i. new_runtime (nodes ! i) (host @ '':'' @ Itoa (basePort + int i))) [0..<length nodes]
      in \<lparr>runtimes = rts, activeClient = None, activeIndex = -1, mLocalSocks5 = addr, checkPending = False,
          closed = False, healthInterval = interval\<rparr>)"

definition start_candidates :: "world \<Rightarrow> Manager \<Rightarrow> Manager" where
  "start_candidates w m =
     (let candidates = getActiveTierCandidatesLocked m in
      if candidates = []
      then (if runtimes m \<noteq> [] then (snd (ensureClientRunningLocked w 0 m))\<lparr>activeIndex := 0\<rparr> else m)
      else
        let m = fold (\<lambda>i m. snd (ensureClientRunningLocked w i m)) candidates m
        in case pickCandidateLocked m candidates of
             None \<Rightarrow> m
           | Some best \<Rightarrow> m\<lparr>activeIndex := int best\<rparr>)"

definition newManager :: "world \<Rightarrow> instant \<Rightarrow> instant \<Rightarrow> SppNode list \<Rightarrow> string \<Rightarrow> duration \<Rightarrow> Manager option" where
  "newManager w now now' nodes addr interval =
     (if nodes = [] then None
      else Some (start_candidates w (probeAllNodes w now now' (initial_manager nodes addr interval))))"

definition NewManager :: "world \<Rightarrow> instant \<Rightarrow> instant \<Rightarrow> SppNode list \<Rightarrow> string \<Rightarrow> Manager option" where
  "NewManager w now now' nodes addr = newManager w now now' nodes addr defaultHealthCheckInterval"

end
