(* ===== verification/Manager_Choice.thy ===== *)
theory Manager_Choice
  imports Manager
begin

text \<open>
  How the manager of upstream nodes chooses: the priority tier, the candidates in it, the cheapest of
  them, and what a health check makes of a node that no longer answers.
\<close>

section \<open>The tier\<close>

lemma getEffectivePriority_pos: "0 < getEffectivePriority n"
  by (simp add: getEffectivePriority_def)

lemma priorities_pos: "p \<in> set (priorities rts) \<Longrightarrow> 0 < p"
  by (auto simp: priorities_def getEffectivePriority_pos)

lemma min_fold:
  assumes "0 < acc" "\<forall>p \<in> set ps. 0 < p"
  shows "foldl min_step acc ps = Min (insert acc (set ps))"
  using assms
proof (induction ps arbitrary: acc)
  case (Cons p ps)
  have "foldl min_step acc (p # ps) = foldl min_step (min acc p) ps"
    using Cons.prems by (simp add: min_step_def min_def)
  also have "\<dots> = Min (insert (min acc p) (set ps))" by (rule Cons.IH) (use Cons.prems in auto)
  also have "\<dots> = Min (insert acc (set (p # ps)))"
    by (cases "ps = []") (auto simp: Min_insert min.assoc min.left_commute insert_commute)
  finally show ?case .
qed simp

lemma min_fold_start:
  assumes "\<forall>p \<in> set ps. 0 < p"
  shows "foldl min_step (-1) ps = (if ps = [] then -1 else Min (set ps))"
proof (cases ps)
  case (Cons p qs)
  have "foldl min_step (-1) ps = foldl min_step p qs" by (simp add: Cons min_step_def)
  then show ?thesis using assms by (simp add: Cons min_fold)
qed simp

text \<open>The nodes among which the tier is sought: the living, or all when none lives.\<close>

definition eligible :: "Manager \<Rightarrow> nodeRuntime list" where
  "eligible m = (if \<exists>rt \<in> set (runtimes m). alive rt then filter alive (runtimes m) else runtimes m)"

lemma eligible_ne: "runtimes m \<noteq> [] \<Longrightarrow> eligible m \<noteq> []"
  by (auto simp: eligible_def filter_empty_conv)

lemma tier_eligible:
  "getActivePriorityTierLocked m = (if runtimes m = [] then -1 else Min (set (priorities (eligible m))))"
proof -
  have pos: "\<forall>p \<in> set (priorities rts). 0 < p" for rts by (simp add: priorities_pos)
  have nil: "priorities rts = [] \<longleftrightarrow> rts = []" for rts by (simp add: priorities_def)
  show ?thesis
  proof (cases "filter alive (runtimes m) = []")
    case True
    then have "eligible m = runtimes m" by (auto simp: eligible_def filter_empty_conv)
    then show ?thesis
      unfolding getActivePriorityTierLocked_def Let_def min_fold_start [OF pos] using True nil
      by (simp add: min_fold_start [OF pos])
  next
    case False
    then have e: "eligible m = filter alive (runtimes m)" by (auto simp: eligible_def filter_empty_conv)
    have "0 < Min (set (priorities (filter alive (runtimes m))))"
      using pos [of "filter alive (runtimes m)"] False nil by simp
    then have "Min (set (priorities (filter alive (runtimes m)))) \<noteq> -1" by linarith
    moreover have "runtimes m \<noteq> []" using False by auto
    ultimately show ?thesis
      using False nil [of "filter alive (runtimes m)"]
      by (simp add: getActivePriorityTierLocked_def min_fold_start [OF pos] e)
  qed
qed

lemma indices_where_mem: "i \<in> set (indices_where p m) \<longleftrightarrow> i < length (runtimes m) \<and> p (runtimes m ! i)"
  by (auto simp: indices_where_def)

lemma tier_le:
  assumes "rt \<in> set (eligible m)"
  shows "getActivePriorityTierLocked m \<le> getEffectivePriority (rnode rt)"
proof -
  have "runtimes m \<noteq> []" using assms by (auto simp: eligible_def split: if_splits)
  then show ?thesis using assms by (simp add: tier_eligible priorities_def)
qed

lemma tier_attained:
  assumes "runtimes m \<noteq> []"
  obtains rt where "rt \<in> set (eligible m)" "getEffectivePriority (rnode rt) = getActivePriorityTierLocked m"
proof -
  have "getActivePriorityTierLocked m \<in> set (priorities (eligible m))"
    using assms eligible_ne [OF assms] by (simp add: tier_eligible priorities_def)
  then show ?thesis using that by (auto simp: priorities_def)
qed

text \<open>The middle branch of the source, the living of any tier, is never taken.\<close>

lemma candidates_eligible:
  "set (getActiveTierCandidatesLocked m) =
     {i. i < length (runtimes m) \<and> runtimes m ! i \<in> set (eligible m)
       \<and> getEffectivePriority (rnode (runtimes m ! i)) = getActivePriorityTierLocked m}"
proof (cases "runtimes m = []")
  case True
  then show ?thesis by (simp add: getActiveTierCandidatesLocked_def Let_def tier_eligible)
next
  case False
  define tier where "tier = getActivePriorityTierLocked m"
  obtain rt where rt: "rt \<in> set (eligible m)" "getEffectivePriority (rnode rt) = tier"
    using tier_attained [OF False] unfolding tier_def by blast
  then have nm: "tier \<noteq> -1" using getEffectivePriority_pos [of "rnode rt"] by simp
  show ?thesis
  proof (cases "\<exists>rt \<in> set (runtimes m). alive rt")
    case True
    then have e: "eligible m = filter alive (runtimes m)" by (simp add: eligible_def)
    obtain j where "j < length (runtimes m)" "runtimes m ! j = rt" "alive rt"
      using rt e by (auto simp: in_set_conv_nth)
    then have "j \<in> set (filter (\<lambda>i. alive (runtimes m ! i))
        (indices_where (\<lambda>rt. getEffectivePriority (rnode rt) = tier) m))"
      using rt by (simp add: indices_where_mem)
    then have "filter (\<lambda>i. alive (runtimes m ! i))
        (indices_where (\<lambda>rt. getEffectivePriority (rnode rt) = tier) m) \<noteq> []" by force
    then show ?thesis
      using nm by (auto simp: getActiveTierCandidatesLocked_def Let_def tier_def [symmetric] indices_where_mem e)
  next
    case False
    then have "eligible m = runtimes m" by (simp add: eligible_def)
    moreover have "indices_where alive m = []" "filter (\<lambda>i. alive (runtimes m ! i))
        (indices_where (\<lambda>rt. getEffectivePriority (rnode rt) = tier) m) = []"
      using False by (auto simp: indices_where_def filter_empty_conv)
    ultimately show ?thesis
      using nm by (auto simp: getActiveTierCandidatesLocked_def Let_def tier_def [symmetric] indices_where_mem)
  qed
qed

lemma candidates_ne: "getActiveTierCandidatesLocked m = [] \<longleftrightarrow> runtimes m = []"
proof
  assume c: "getActiveTierCandidatesLocked m = []"
  show "runtimes m = []"
  proof (rule ccontr)
    assume ne: "runtimes m \<noteq> []"
    then obtain rt where rt: "rt \<in> set (eligible m)" "getEffectivePriority (rnode rt) = getActivePriorityTierLocked m"
      by (rule tier_attained)
    then have "rt \<in> set (runtimes m)" by (auto simp: eligible_def split: if_splits)
    then obtain i where "i < length (runtimes m)" "runtimes m ! i = rt" by (auto simp: in_set_conv_nth)
    then have "i \<in> set (getActiveTierCandidatesLocked m)" using rt by (simp add: candidates_eligible)
    then show False using c by simp
  qed
qed (simp add: getActiveTierCandidatesLocked_def Let_def tier_eligible)

lemma candidates_tier:
  "(i \<in> set (getActiveTierCandidatesLocked m) \<longleftrightarrow>
      i < length (runtimes m)
      \<and> (if \<exists>rt \<in> set (runtimes m). alive rt
         then alive (runtimes m ! i)
           \<and> (\<forall>rt \<in> set (runtimes m). alive rt \<longrightarrow>
                getEffectivePriority (rnode (runtimes m ! i)) \<le> getEffectivePriority (rnode rt))
         else \<forall>rt \<in> set (runtimes m). getEffectivePriority (rnode (runtimes m ! i)) \<le> getEffectivePriority (rnode rt)))
   \<and> (getActiveTierCandidatesLocked m = [] \<longleftrightarrow> runtimes m = [])"
proof -
  have pri: "getEffectivePriority (rnode (runtimes m ! i)) = getActivePriorityTierLocked m \<longleftrightarrow>
      (\<forall>rt \<in> set (eligible m). getEffectivePriority (rnode (runtimes m ! i)) \<le> getEffectivePriority (rnode rt))"
    if "i < length (runtimes m)" "runtimes m ! i \<in> set (eligible m)"
  proof -
    have "runtimes m \<noteq> []" using that by auto
    then obtain rt where "rt \<in> set (eligible m)" "getEffectivePriority (rnode rt) = getActivePriorityTierLocked m"
      by (rule tier_attained)
    then show ?thesis using tier_le that(2) by (metis order_antisym)
  qed
  show ?thesis
    using pri by (auto simp: candidates_eligible candidates_ne eligible_def)
qed

text \<open>The candidates are exactly the living nodes of the best priority that any living node has;
  only when every node is down are they the nodes of the best priority configured. There is always a
  candidate when there is a node.\<close>

theorem candidates_best_tier:
  "(i \<in> set (getActiveTierCandidatesLocked m) \<longleftrightarrow>
      i < length (runtimes m)
      \<and> (if \<exists>rt \<in> set (runtimes m). alive rt
         then alive (runtimes m ! i)
           \<and> (\<forall>rt \<in> set (runtimes m). alive rt \<longrightarrow>
                getEffectivePriority (rnode (runtimes m ! i)) \<le> getEffectivePriority (rnode rt))
         else \<forall>rt \<in> set (runtimes m). getEffectivePriority (rnode (runtimes m ! i)) \<le> getEffectivePriority (rnode rt)))
   \<and> (getActiveTierCandidatesLocked m = [] \<longleftrightarrow> runtimes m = [])"
  by (rule candidates_tier)

definition test_node :: SppNode where
  "test_node = \<lparr>ndName = ''a'', ndServer = ''up:1'', ndServerProto = [], ndKey = [], ndEncrypt = [], ndCompress = 0,
     ndPriority = 2, ndBandwidth = 0, ndKcpFecData = 0, ndKcpFecParity = 0, ndRdnsDomain = [], ndRdnsUpstream = [],
     ndRdnsPsk = [], ndRdnsQueryType = []\<rparr>"

definition test_manager :: Manager where
  "test_manager = \<lparr>runtimes = [new_runtime (test_node\<lparr>ndName := ''b'', ndServer := ''down:1'', ndPriority := 1\<rparr>) ''x:1'',
       (new_runtime test_node ''x:2'')\<lparr>alive := True\<rparr>],
     activeClient = None, activeIndex = -1, mLocalSocks5 = [], checkPending = False, closed = False, healthInterval = 1\<rparr>"

text \<open>A world in which the servers named \<open>up:1\<close> answer within 20 ms and every client starts.\<close>

definition test_world :: world where
  "test_world = \<lparr>pingtunnel = \<lparr>ValidatePassword = (\<lambda>_. True), DeriveAuthCode = (\<lambda>_. 1), CHACHA20 = 1, NoEncryption = 0,
       ParseEncryptionMode = (\<lambda>_. Some 1), NewCryptoConfig = (\<lambda>m p. Some m)\<rparr>,
     dial_tcp = (\<lambda>server timeout. if server = ''up:1'' then Some 20000000 else None),
     dial_conn = (\<lambda>proto settings server. None), ping_run = (\<lambda>host ac. None),
     spp_start = (\<lambda>px proto server name addr. Some 7), ping_start = (\<lambda>addr host ac. None),
     client_traffic = (\<lambda>cl window now. False)\<rparr>"

theorem candidates_best_tier_witness:
  "1 \<in> set (getActiveTierCandidatesLocked test_manager) \<and> getActiveTierCandidatesLocked test_manager \<noteq> []"
  using candidates_best_tier [of 1 test_manager] by (simp add: test_manager_def new_runtime_def)

section \<open>The cheapest candidate\<close>

lemma pick_fold:
  "foldl (pick_step m) b cs \<in> insert b (set cs)
   \<and> (\<forall>c \<in> insert b (set cs). cost_of m (foldl (pick_step m) b cs) \<le> cost_of m c + epsilon)"
proof (induction cs arbitrary: b)
  case Nil
  then show ?case by (simp add: epsilon_def)
next
  case (Cons c cs)
  define b' where "b' = pick_step m b c"
  have b': "b' \<in> {b, c}" "cost_of m b' \<le> cost_of m b" "cost_of m b' \<le> cost_of m c + epsilon"
    by (auto simp: b'_def pick_step_def epsilon_def)
  have mono: "cost_of m (foldl (pick_step m) d ds) \<le> cost_of m d" for d ds
  proof (induction ds arbitrary: d)
    case (Cons a ds)
    have "cost_of m (pick_step m d a) \<le> cost_of m d" by (simp add: pick_step_def epsilon_def)
    then show ?case using Cons [of "pick_step m d a"] by simp
  qed simp
  have IH: "foldl (pick_step m) b' cs \<in> insert b' (set cs)"
    "\<forall>x \<in> insert b' (set cs). cost_of m (foldl (pick_step m) b' cs) \<le> cost_of m x + epsilon"
    using Cons [of b'] by blast+
  have "cost_of m (foldl (pick_step m) b' cs) \<le> cost_of m b'" by (rule mono)
  then have "cost_of m (foldl (pick_step m) b' cs) \<le> cost_of m b + epsilon"
    "cost_of m (foldl (pick_step m) b' cs) \<le> cost_of m c + epsilon"
    using b' by (auto simp: epsilon_def)
  then show ?case using IH b'(1) by (auto simp: b'_def [symmetric])
qed

lemma pickCandidateLocked_cheapest:
  assumes "cs \<noteq> []"
  obtains c where "pickCandidateLocked m cs = Some c" "c \<in> set cs" "\<forall>x \<in> set cs. cost_of m c \<le> cost_of m x + epsilon"
proof (cases cs)
  case (Cons b bs)
  show ?thesis
    by (rule that [of "foldl (pick_step m) b bs"]) (use pick_fold [of m b bs] in \<open>auto simp: pickCandidateLocked_def Cons\<close>)
qed (use assms in simp)

lemma runtimes_upd [simp]:
  "length (runtimes (upd_runtime i f m)) = length (runtimes m)" "closed (upd_runtime i f m) = closed m"
  by (simp_all add: upd_runtime_def)

lemma nth_upd_runtime:
  "j < length (runtimes m) \<Longrightarrow> runtimes (upd_runtime i f m) ! j = (if j = i then f (runtimes m ! i) else runtimes m ! j)"
  by (simp add: upd_runtime_def)

lemma ensure_frame [simp]:
  "length (runtimes (snd (ensureClientRunningLocked w i m))) = length (runtimes m)"
  "closed (snd (ensureClientRunningLocked w i m)) = closed m"
  "activeIndex (snd (ensureClientRunningLocked w i m)) = activeIndex m"
  "healthInterval (snd (ensureClientRunningLocked w i m)) = healthInterval m"
  by (auto simp: ensureClientRunningLocked_def upd_runtime_def split: option.splits)

text \<open>Starting a client changes the client field of one runtime only.\<close>

lemma ensure_nth:
  "j < length (runtimes m) \<Longrightarrow>
    \<exists>cl. runtimes (snd (ensureClientRunningLocked w i m)) ! j = (runtimes m ! j)\<lparr>client := cl\<rparr>"
  by (auto simp: ensureClientRunningLocked_def nth_upd_runtime intro: exI [of _ "client (runtimes m ! j)"] split: option.splits)

lemma PickNode_result:
  assumes "runtimes m \<noteq> []"
  shows "if closed m then PickNode w m = (([], [], None), m)
    else \<exists>i m'. PickNode w m = ((localSocks5 (runtimes m ! i), ndName (rnode (runtimes m ! i)), Some i), m')
      \<and> i \<in> set (getActiveTierCandidatesLocked m)
      \<and> (\<forall>j \<in> set (getActiveTierCandidatesLocked m). calcCost (runtimes m ! i) \<le> calcCost (runtimes m ! j) + 1 / 1000000)
      \<and> length (runtimes m') = length (runtimes m)
      \<and> (\<forall>j < length (runtimes m). activeConns (runtimes m' ! j) = activeConns (runtimes m ! j) + (if j = i then 1 else 0)
           \<and> alive (runtimes m' ! j) = alive (runtimes m ! j))"
proof (cases "closed m")
  case False
  define cs where "cs = getActiveTierCandidatesLocked m"
  have "cs \<noteq> []" using assms by (simp add: cs_def candidates_ne)
  then obtain i where i: "pickCandidateLocked m cs = Some i" "i \<in> set cs" "\<forall>x \<in> set cs. cost_of m i \<le> cost_of m x + epsilon"
    by (rule pickCandidateLocked_cheapest)
  have lt: "i < length (runtimes m)" using i(2) by (simp add: cs_def candidates_eligible)
  define m1 where "m1 = snd (ensureClientRunningLocked w i m)"
  define m2 where "m2 = upd_runtime i (\<lambda>rt. rt\<lparr>activeConns := activeConns rt + 1\<rparr>) m1"
  have p: "PickNode w m = ((localSocks5 (runtimes m2 ! i), ndName (rnode (runtimes m2 ! i)), Some i), m2)"
    using False \<open>cs \<noteq> []\<close> by (simp add: PickNode_def Let_def cs_def [symmetric] i m1_def m2_def)
  have len: "length (runtimes m1) = length (runtimes m)" by (simp add: m1_def)
  have r: "\<exists>cl. runtimes m2 ! j = (if j = i then (runtimes m ! j)\<lparr>client := cl, activeConns := activeConns (runtimes m ! j) + 1\<rparr>
      else (runtimes m ! j)\<lparr>client := cl\<rparr>)" if "j < length (runtimes m)" for j
    using ensure_nth [OF that, of w i] that len by (auto simp: m2_def nth_upd_runtime m1_def [symmetric])
  have "localSocks5 (runtimes m2 ! i) = localSocks5 (runtimes m ! i)" "rnode (runtimes m2 ! i) = rnode (runtimes m ! i)"
    using r [OF lt] by auto
  moreover have "activeConns (runtimes m2 ! j) = activeConns (runtimes m ! j) + (if j = i then 1 else 0)
      \<and> alive (runtimes m2 ! j) = alive (runtimes m ! j)" if "j < length (runtimes m)" for j
    using r [OF that] by (auto split: if_splits)
  moreover have "length (runtimes m2) = length (runtimes m)" by (simp add: m2_def len)
  ultimately show ?thesis
    using False p i by (auto simp: cs_def cost_of_def epsilon_def)
qed (simp add: PickNode_def)

text \<open>C30. \<^verbatim>\<open>PickNode\<close> hands out a node of the best tier whose cost is within the tie margin of the
  cheapest candidate, its address and name, and counts exactly one more connection, on that node.
  A closed manager hands out nothing.\<close>

theorem PickNode_chooses:
  assumes "runtimes m \<noteq> []"
  shows "if closed m then PickNode w m = (([], [], None), m)
    else \<exists>i m'. PickNode w m = ((localSocks5 (runtimes m ! i), ndName (rnode (runtimes m ! i)), Some i), m')
      \<and> i \<in> set (getActiveTierCandidatesLocked m)
      \<and> (\<forall>j \<in> set (getActiveTierCandidatesLocked m). calcCost (runtimes m ! i) \<le> calcCost (runtimes m ! j) + 1 / 1000000)
      \<and> length (runtimes m') = length (runtimes m)
      \<and> (\<forall>j < length (runtimes m). activeConns (runtimes m' ! j) = activeConns (runtimes m ! j) + (if j = i then 1 else 0)
           \<and> alive (runtimes m' ! j) = alive (runtimes m ! j))"
  using assms by (rule PickNode_result)

theorem PickNode_chooses_witness:
  "\<exists>m'. PickNode test_world test_manager = ((''x:2'', ''a'', Some 1), m') \<and> activeConns (runtimes m' ! 1) = 1"
proof -
  have ne: "runtimes test_manager \<noteq> []" and cl: "\<not> closed test_manager" by (simp_all add: test_manager_def)
  from PickNode_chooses [OF ne, of test_world] cl obtain i m' where
    p: "PickNode test_world test_manager = ((localSocks5 (runtimes test_manager ! i),
        ndName (rnode (runtimes test_manager ! i)), Some i), m')"
    and i: "i \<in> set (getActiveTierCandidatesLocked test_manager)"
    and n: "\<forall>j < length (runtimes test_manager). activeConns (runtimes m' ! j)
        = activeConns (runtimes test_manager ! j) + (if j = i then 1 else 0) \<and> alive (runtimes m' ! j) = alive (runtimes test_manager ! j)"
    by auto
  have "getActiveTierCandidatesLocked test_manager = [1]" by code_simp
  with i have "i = 1" by simp
  then show ?thesis using p n by (auto simp: test_manager_def new_runtime_def test_node_def)
qed

section \<open>Failover\<close>

lemma probe_one_alive:
  "alive (probe_one w interval now now' rt) \<longleftrightarrow>
     (alive rt \<and> hasRecentTraffic w now interval rt) \<or> fst (probeNodeWithRTT w (rnode rt) nodeProbeTimeout)
     \<or> (alive rt \<and> hasRecentTraffic w now' interval rt)"
  by (auto simp: probe_one_def probe_result_def probe_alive_def Let_def split: prod.splits)

lemma check_body_frame:
  "length (runtimes (check_body w m)) = length (runtimes m)"
  "j < length (runtimes m) \<Longrightarrow> \<exists>cl. runtimes (check_body w m) ! j = (runtimes m ! j)\<lparr>client := cl\<rparr>"
  "closed (check_body w m) = closed m"
proof -
  define start where "start = (\<lambda>cs m. fold (\<lambda>i m. if alive (runtimes m ! i) then snd (ensureClientRunningLocked w i m) else m) cs m)"
  have l: "length (runtimes (start cs m)) = length (runtimes m)" "closed (start cs m) = closed m" for cs m
    unfolding start_def by (induction cs arbitrary: m) auto
  have n: "\<exists>cl. runtimes (start cs m) ! j = (runtimes m ! j)\<lparr>client := cl\<rparr>" if "j < length (runtimes m)" for cs m j
    using that
  proof (induction cs arbitrary: m)
    case Nil
    then show ?case by (auto simp: start_def intro: exI [of _ "client (runtimes m ! j)"])
  next
    case (Cons i cs)
    define m1 where "m1 = (if alive (runtimes m ! i) then snd (ensureClientRunningLocked w i m) else m)"
    have "\<exists>cl. runtimes m1 ! j = (runtimes m ! j)\<lparr>client := cl\<rparr>"
      using ensure_nth [OF Cons.prems, of w i] by (auto simp: m1_def intro: exI [of _ "client (runtimes m ! j)"])
    moreover have "\<exists>cl. runtimes (start cs m1) ! j = (runtimes m1 ! j)\<lparr>client := cl\<rparr>"
      by (rule Cons.IH) (use Cons.prems in \<open>simp add: m1_def\<close>)
    moreover have "start (i # cs) m = start cs m1" by (simp add: start_def m1_def)
    ultimately show ?case by auto
  qed
  have b: "runtimes (check_body w m) = runtimes (start (getActiveTierCandidatesLocked m) m)"
    "closed (check_body w m) = closed (start (getActiveTierCandidatesLocked m) m)"
    by (auto simp: check_body_def Let_def start_def split: option.splits)
  show "length (runtimes (check_body w m)) = length (runtimes m)" "closed (check_body w m) = closed m"
    by (simp_all add: b l)
  show "j < length (runtimes m) \<Longrightarrow> \<exists>cl. runtimes (check_body w m) ! j = (runtimes m ! j)\<lparr>client := cl\<rparr>"
    by (simp add: b n)
qed

lemma checkNodes_alive:
  assumes "j < length (runtimes m)"
  shows "alive (runtimes (checkNodes w now now' m) ! j) = alive (probe_one w (healthInterval m) now now' (runtimes m ! j))"
    and "length (runtimes (checkNodes w now now' m)) = length (runtimes m)"
    and "closed (checkNodes w now now' m) = closed m"
proof -
  define p where "p = probeAllNodes w now now' m"
  have p: "length (runtimes p) = length (runtimes m)" "closed p = closed m"
    "runtimes p ! j = probe_one w (healthInterval m) now now' (runtimes m ! j)"
    using assms by (simp_all add: p_def probeAllNodes_def)
  obtain cl where "runtimes (check_body w p) ! j = (runtimes p ! j)\<lparr>client := cl\<rparr>"
    using check_body_frame(2) [of j p w] assms p(1) by auto
  then show "alive (runtimes (checkNodes w now now' m) ! j) = alive (probe_one w (healthInterval m) now now' (runtimes m ! j))"
    by (simp add: checkNodes_def p_def [symmetric] p)
  show "length (runtimes (checkNodes w now now' m)) = length (runtimes m)" "closed (checkNodes w now now' m) = closed m"
    by (simp_all add: checkNodes_def p_def [symmetric] p check_body_frame)
qed

text \<open>A node that a health sweep finds reachable: it answers the probe, or it was alive and carried
  traffic both ways when looked at before or after the probe.\<close>

definition found_alive :: "world \<Rightarrow> instant \<Rightarrow> instant \<Rightarrow> Manager \<Rightarrow> nat \<Rightarrow> bool" where
  "found_alive w now now' m i \<longleftrightarrow>
     (let rt = runtimes m ! i in
      fst (probeNodeWithRTT w (rnode rt) nodeProbeTimeout)
      \<or> (alive rt \<and> (hasRecentTraffic w now (healthInterval m) rt \<or> hasRecentTraffic w now' (healthInterval m) rt)))"

text \<open>C8. Failover. After a health sweep, if any node was found reachable, \<^verbatim>\<open>PickNode\<close> hands out a
  reachable node, and one of the best priority among the reachable: a node that stopped answering is
  not used again, and a better one is used as soon as it answers.\<close>

theorem failover:
  assumes "\<not> closed m" and "\<exists>i < length (runtimes m). found_alive w now now' m i"
  shows "\<exists>i addr name m'. PickNode w (checkNodes w now now' m) = ((addr, name, Some i), m')
    \<and> i < length (runtimes m) \<and> found_alive w now now' m i
    \<and> (\<forall>j < length (runtimes m). found_alive w now now' m j \<longrightarrow>
         getEffectivePriority (rnode (runtimes (checkNodes w now now' m) ! i))
           \<le> getEffectivePriority (rnode (runtimes (checkNodes w now now' m) ! j)))"
proof -
  define c where "c = checkNodes w now now' m"
  have al: "alive (runtimes c ! j) \<longleftrightarrow> found_alive w now now' m j" if "j < length (runtimes m)" for j
    using checkNodes_alive(1) [OF that, of w now now'] by (auto simp: c_def found_alive_def probe_one_alive Let_def)
  obtain k where k: "k < length (runtimes m)" "found_alive w now now' m k" using assms(2) by blast
  have len: "length (runtimes c) = length (runtimes m)" and cl: "\<not> closed c"
    using checkNodes_alive(2,3) [OF k(1)] assms(1) by (simp_all add: c_def)
  have ne: "runtimes c \<noteq> []" using len k(1) by auto
  have ex: "\<exists>rt \<in> set (runtimes c). alive rt" using al k len by (metis nth_mem)
  from PickNode_result [OF ne, of w] cl obtain i m' where
    i: "PickNode w c = ((localSocks5 (runtimes c ! i), ndName (rnode (runtimes c ! i)), Some i), m')"
    "i \<in> set (getActiveTierCandidatesLocked c)" by auto
  have cand: "i < length (runtimes c)" "alive (runtimes c ! i)"
    "\<forall>rt \<in> set (runtimes c). alive rt \<longrightarrow> getEffectivePriority (rnode (runtimes c ! i)) \<le> getEffectivePriority (rnode rt)"
    using i(2) ex candidates_tier [of i c] by auto
  show ?thesis
    unfolding c_def [symmetric]
    using i(1) cand al len by (metis nth_mem)
qed

theorem failover_witness:
  "\<exists>i addr name m'. PickNode test_world (checkNodes test_world 5 6 test_manager) = ((addr, name, Some i), m')
     \<and> found_alive test_world 5 6 test_manager i"
proof -
  have "\<not> closed test_manager" by (simp add: test_manager_def)
  moreover have "found_alive test_world 5 6 test_manager 1" by code_simp
  moreover have "1 < length (runtimes test_manager)" by (simp add: test_manager_def)
  ultimately show ?thesis using failover [of test_manager test_world 5 6] by blast
qed

section \<open>The cost of a transport\<close>

text \<open>The floor under the robustness weight turns the weakest transport into one of the strongest:
  with the same latency, load and bandwidth, an rhttp node costs less than a tcp, quic or rdns node,
  although its weight is the smallest.\<close>

theorem rhttp_cheaper:
  assumes "0 \<le> activeConns rt" and "0 \<le> consecutiveFails rt"
    and "p \<in> {''tcp'', ''quic'', ''rdns''}"
  shows "protoRobustnessBase ''rhttp'' < protoRobustnessBase p
    \<and> calcCost (rt\<lparr>rnode := (rnode rt)\<lparr>ndServerProto := ''rhttp''\<rparr>\<rparr>)
        < calcCost (rt\<lparr>rnode := (rnode rt)\<lparr>ndServerProto := p\<rparr>\<rparr>)"
proof -
  define x :: rat where "x = (if rttMs rt < 10 then 10 else of_int (rttMs rt)) * (of_int (activeConns rt) + 1)
      * (1 + of_int (consecutiveFails rt) * 2) / of_int (getEffectiveBandwidth (rnode rt))"
  have bw: "0 < getEffectiveBandwidth n" for n by (simp add: getEffectiveBandwidth_def)
  have bwf: "getEffectiveBandwidth (n\<lparr>ndServerProto := q\<rparr>) = getEffectiveBandwidth n" for n q
    by (simp add: getEffectiveBandwidth_def)
  have "0 < x" unfolding x_def using assms bw [of "rnode rt"] by (auto intro!: divide_pos_pos mult_pos_pos add_nonneg_pos add_pos_nonneg)
  moreover have base: "protoRobustnessBase ''rhttp'' = 10" "protoRobustnessBase ''tcp'' = 50"
    "protoRobustnessBase ''quic'' = 15" "protoRobustnessBase ''rdns'' = 25" by code_simp+
  have c: "calcCost (rt\<lparr>rnode := (rnode rt)\<lparr>ndServerProto := q\<rparr>\<rparr>)
      = x / (if of_int (protoRobustnessBase q) / 100 \<le> (1 / 10 :: rat) then 7 / 10 else of_int (protoRobustnessBase q) / 100)" for q
    using bw [of "rnode rt"] by (simp add: calcCost_def Let_def x_def bwf)
  ultimately show ?thesis using assms(3) by (auto simp: c base divide_simps)
qed

theorem rhttp_cheaper_witness:
  "let rt = new_runtime test_node []
   in calcCost (rt\<lparr>rnode := (rnode rt)\<lparr>ndServerProto := ''rhttp''\<rparr>\<rparr>)
        < calcCost (rt\<lparr>rnode := (rnode rt)\<lparr>ndServerProto := ''tcp''\<rparr>\<rparr>)"
  unfolding Let_def by (rule rhttp_cheaper [THEN conjunct2]) (simp_all add: new_runtime_def)

end
