(* ===== verification/Manager_Leases.thy ===== *)
theory Manager_Leases
  imports Manager_Choice
begin

text \<open>
  The manager of upstream nodes under concurrent use. A \<open>pool\<close> is a manager together with the release
  functions it has handed out and whether \<^verbatim>\<open>Close\<close> has stopped the clients. The steps are the sections
  of the source that run without interference: one start of a client under the lock, the counting of a
  connection, a release, the recording of one probe or report, the setting of the active index, the
  flag of \<^verbatim>\<open>Close\<close>, and its section under the lock. The calls of \<^verbatim>\<open>PickNode\<close>, \<^verbatim>\<open>checkNodes\<close>,
  \<^verbatim>\<open>ReportNodeFailure\<close> and the others are sequences of them, so that every interleaving of such calls
  is a path of \<open>pool_step\<close>.
\<close>

section \<open>Pools\<close>

text \<open>A lease is the index of the runtime it counts on and whether its \<^verbatim>\<open>sync.Once\<close> has run.\<close>

record pool =
  mgr :: Manager
  leases :: "(nat \<times> bool) list"
  cleaned :: bool

definition take_lease :: "nat \<Rightarrow> pool \<Rightarrow> pool" where
  "take_lease i p = p\<lparr>mgr := upd_runtime i (\<lambda>rt. rt\<lparr>activeConns := activeConns rt + 1\<rparr>) (mgr p),
     leases := leases p @ [(i, False)]\<rparr>"

definition release_lease :: "nat \<Rightarrow> pool \<Rightarrow> pool" where
  "release_lease k p =
     (case leases p ! k of
        (i, True) \<Rightarrow> p
      | (i, False) \<Rightarrow> p\<lparr>mgr := release_conn i (mgr p), leases := (leases p)[k := (i, True)]\<rparr>)"

text \<open>What the probes and reports may do to a runtime.\<close>

inductive observed :: "world \<Rightarrow> duration \<Rightarrow> nodeRuntime \<Rightarrow> nodeRuntime \<Rightarrow> bool" for w interval where
  seen_alive: "observed w interval rt (probe_alive rt)"
| probed: "observed w interval rt (probe_result w interval now res rt)"
| traffic: "observed w interval rt (rt\<lparr>lastUploadNano := u, lastDownloadNano := d, alive := a, consecutiveFails := f\<rparr>)"
| failure: "observed w interval rt (rt\<lparr>consecutiveFails := f, consecutiveOks := 0\<rparr>)"
| probed_down: "observed w interval rt (rt\<lparr>alive := False\<rparr>)"
| probed_up: "observed w interval rt (rt\<lparr>alive := True, rttMs := r, consecutiveFails := 0\<rparr>)"

inductive pool_step :: "world \<Rightarrow> pool \<Rightarrow> pool \<Rightarrow> bool" for w where
  ensure: "i < length (runtimes (mgr p)) \<Longrightarrow>
    pool_step w p (p\<lparr>mgr := snd (ensureClientRunningLocked w i (mgr p))\<rparr>)"
| lease: "i < length (runtimes (mgr p)) \<Longrightarrow> pool_step w p (take_lease i p)"
| give_back: "k < length (leases p) \<Longrightarrow> pool_step w p (release_lease k p)"
| observe: "i < length (runtimes (mgr p)) \<Longrightarrow> observed w (healthInterval (mgr p)) (runtimes (mgr p) ! i) rt \<Longrightarrow>
    pool_step w p (p\<lparr>mgr := upd_runtime i (\<lambda>_. rt) (mgr p)\<rparr>)"
| trigger: "pool_step w p (p\<lparr>mgr := (mgr p)\<lparr>checkPending := b\<rparr>\<rparr>)"
| choose: "i < length (runtimes (mgr p)) \<Longrightarrow> pool_step w p (p\<lparr>mgr := (mgr p)\<lparr>activeIndex := int i\<rparr>\<rparr>)"
| flag: "pool_step w p (p\<lparr>mgr := snd (close_flag (mgr p))\<rparr>)"
| clean: "closed (mgr p) \<Longrightarrow> \<not> cleaned p \<Longrightarrow> pool_step w p (p\<lparr>mgr := close_clients (mgr p), cleaned := True\<rparr>)"

inductive_cases observedE: "observed w interval rt rt'"

lemma observed_frame:
  "observed w interval rt rt' \<Longrightarrow> activeConns rt' = activeConns rt \<and> client rt' = client rt
     \<and> rnode rt' = rnode rt \<and> localSocks5 rt' = localSocks5 rt"
  by (erule observedE) (auto simp: probe_alive_def probe_result_def Let_def split: prod.splits)

section \<open>The invariant\<close>

definition open_leases :: "pool \<Rightarrow> nat \<Rightarrow> int" where
  "open_leases p i = int (count_list (leases p) (i, False))"

definition pool_inv :: "pool \<Rightarrow> bool" where
  "pool_inv p \<longleftrightarrow> (\<forall>l \<in> set (leases p). fst l < length (runtimes (mgr p)))
     \<and> (\<forall>i < length (runtimes (mgr p)). activeConns (runtimes (mgr p) ! i) = open_leases p i)
     \<and> (cleaned p \<longrightarrow> closed (mgr p) \<and> (\<forall>rt \<in> set (runtimes (mgr p)). client rt = None))
     \<and> - 1 \<le> activeIndex (mgr p) \<and> activeIndex (mgr p) < int (length (runtimes (mgr p)))"

lemma count_list_update:
  "k < length xs \<Longrightarrow> int (count_list (xs[k := y]) z) =
     int (count_list xs z) - (if xs ! k = z then 1 else 0) + (if y = z then 1 else 0)"
proof (induction xs arbitrary: k)
  case (Cons x xs)
  show ?case
  proof (cases k)
    case (Suc j)
    then show ?thesis using Cons.IH [of j] Cons.prems by (simp only: list_update.simps nth_Cons_Suc count_list.simps) auto
  qed simp
qed simp

lemma pool_inv_ensure:
  assumes "pool_inv p" "i < length (runtimes (mgr p))"
  shows "pool_inv (p\<lparr>mgr := snd (ensureClientRunningLocked w i (mgr p))\<rparr>)"
proof -
  let ?m = "snd (ensureClientRunningLocked w i (mgr p))"
  have "activeConns (runtimes ?m ! j) = activeConns (runtimes (mgr p) ! j)" if "j < length (runtimes (mgr p))" for j
    using ensure_nth [OF that, of w i] by auto
  moreover have "cleaned p \<Longrightarrow> ?m = mgr p"
    using assms(1) by (simp add: pool_inv_def ensureClientRunningLocked_def)
  ultimately show ?thesis using assms(1) by (auto simp: pool_inv_def open_leases_def)
qed

lemma pool_inv_observe:
  assumes "pool_inv p" "i < length (runtimes (mgr p))" "activeConns rt = activeConns (runtimes (mgr p) ! i)"
    "client rt = client (runtimes (mgr p) ! i)"
  shows "pool_inv (p\<lparr>mgr := upd_runtime i (\<lambda>_. rt) (mgr p)\<rparr>)"
proof -
  have "client x = None" if "cleaned p" "x \<in> set ((runtimes (mgr p))[i := rt])" for x
  proof -
    have "client (runtimes (mgr p) ! i) = None" using assms(1,2) that(1) by (simp add: pool_inv_def)
    then show ?thesis
      using assms(1,4) that set_update_subset_insert [of "runtimes (mgr p)" i rt] by (auto simp: pool_inv_def)
  qed
  then show ?thesis
    using assms by (auto simp: pool_inv_def open_leases_def upd_runtime_def nth_list_update)
qed

lemma pool_inv_take_lease:
  assumes "pool_inv p" "i < length (runtimes (mgr p))"
  shows "pool_inv (take_lease i p)"
proof -
  have "client x = None" if "cleaned p"
    "x \<in> set ((runtimes (mgr p))[i := (runtimes (mgr p) ! i)\<lparr>activeConns := n\<rparr>])" for x n
  proof -
    have "client (runtimes (mgr p) ! i) = None" using assms that(1) by (simp add: pool_inv_def)
    then show ?thesis
      using assms(1) that set_update_subset_insert [of "runtimes (mgr p)" i] by (fastforce simp: pool_inv_def)
  qed
  then show ?thesis
    using assms by (auto simp: pool_inv_def take_lease_def open_leases_def upd_runtime_def nth_list_update)
qed

lemma pool_inv_release_lease:
  assumes "pool_inv p" "k < length (leases p)"
  shows "pool_inv (release_lease k p)"
proof (cases "leases p ! k")
  case (Pair i used)
  show ?thesis
  proof (cases used)
    case False
    have i: "i < length (runtimes (mgr p))" using assms Pair by (force simp: pool_inv_def dest: nth_mem)
    have "client x = None" if "cleaned p"
      "x \<in> set ((runtimes (mgr p))[i := (runtimes (mgr p) ! i)\<lparr>activeConns := n\<rparr>])" for x n
    proof -
      have "client (runtimes (mgr p) ! i) = None" using assms i that(1) by (simp add: pool_inv_def)
      then show ?thesis
        using assms(1) that set_update_subset_insert [of "runtimes (mgr p)" i] by (fastforce simp: pool_inv_def)
    qed
    moreover have "\<forall>l \<in> set ((leases p)[k := (i, True)]). fst l < length (runtimes (mgr p))"
      using assms(1) i set_update_subset_insert [of "leases p" k "(i, True)"] by (auto simp: pool_inv_def)
    ultimately show ?thesis
      using assms Pair False i
      by (auto simp: pool_inv_def release_lease_def release_conn_def open_leases_def upd_runtime_def nth_list_update
          count_list_update)
  qed (use assms Pair in \<open>simp add: release_lease_def\<close>)
qed

interpretation pool_system: transition_invariant "pool_step w" pool_inv for w
proof
  fix p q
  assume inv: "pool_inv p" and "pool_step w p q"
  from this(2) show "pool_inv q"
  proof cases
    case (ensure i)
    then show ?thesis using inv pool_inv_ensure by simp
  next
    case (lease i)
    then show ?thesis using inv pool_inv_take_lease by simp
  next
    case (give_back k)
    then show ?thesis using inv pool_inv_release_lease by simp
  next
    case (observe i rt)
    then show ?thesis using inv pool_inv_observe observed_frame by metis
  next
    case (trigger b)
    then show ?thesis using inv by (simp add: pool_inv_def open_leases_def)
  next
    case (choose i)
    then show ?thesis using inv by (simp add: pool_inv_def open_leases_def)
  next
    case flag
    then show ?thesis using inv by (simp add: pool_inv_def open_leases_def close_flag_def)
  next
    case clean
    then show ?thesis using inv by (auto simp: pool_inv_def open_leases_def close_clients_def)
  qed
qed

section \<open>Calls are sequences of steps\<close>

lemma PickNode_steps:
  assumes "\<not> closed (mgr p)" "runtimes (mgr p) \<noteq> []"
  shows "\<exists>i q. fst (PickNode w (mgr p)) = (localSocks5 (runtimes (mgr p) ! i), ndName (rnode (runtimes (mgr p) ! i)), Some i)
    \<and> (pool_step w)\<^sup>*\<^sup>* p q \<and> mgr q = snd (PickNode w (mgr p)) \<and> leases q = leases p @ [(i, False)]"
proof -
  let ?m = "mgr p"
  have "getActiveTierCandidatesLocked ?m \<noteq> []" using assms by (simp add: candidates_ne)
  then obtain i where i: "pickCandidateLocked ?m (getActiveTierCandidatesLocked ?m) = Some i"
    "i \<in> set (getActiveTierCandidatesLocked ?m)"
    by (rule pickCandidateLocked_cheapest)
  have lt: "i < length (runtimes ?m)" using i(2) by (simp add: candidates_eligible)
  define q1 where "q1 = p\<lparr>mgr := snd (ensureClientRunningLocked w i ?m)\<rparr>"
  define q where "q = take_lease i q1"
  have s1: "pool_step w p q1" unfolding q1_def using lt by (rule pool_step.ensure)
  have s2: "pool_step w q1 q" unfolding q_def by (rule pool_step.lease) (simp add: q1_def lt)
  have "snd (PickNode w ?m) = mgr q"
    using assms i \<open>getActiveTierCandidatesLocked ?m \<noteq> []\<close>
    by (simp add: PickNode_def Let_def q_def q1_def take_lease_def)
  moreover obtain j m' where pk: "PickNode w ?m = ((localSocks5 (runtimes ?m ! j), ndName (rnode (runtimes ?m ! j)), Some j), m')"
    using PickNode_result [OF assms(2), of w] assms(1) by auto
  moreover have "snd (snd (fst (PickNode w ?m))) = Some i"
    using assms i \<open>getActiveTierCandidatesLocked ?m \<noteq> []\<close> by (simp add: PickNode_def Let_def)
  ultimately show ?thesis
    using s1 s2 by (auto simp: q_def q1_def take_lease_def intro!: exI [of _ q])
qed

section \<open>What holds of every interleaving\<close>

definition new_pool :: "Manager \<Rightarrow> pool" where
  "new_pool m = \<lparr>mgr = m, leases = [], cleaned = False\<rparr>"

lemma fold_ensure_frame:
  "length (runtimes (fold (\<lambda>i m. snd (ensureClientRunningLocked w i m)) cs m)) = length (runtimes m)"
  "activeIndex (fold (\<lambda>i m. snd (ensureClientRunningLocked w i m)) cs m) = activeIndex m"
  "closed (fold (\<lambda>i m. snd (ensureClientRunningLocked w i m)) cs m) = closed m"
  by (induction cs arbitrary: m) simp_all

lemma fold_ensure_nth:
  "j < length (runtimes m) \<Longrightarrow> \<exists>cl. runtimes (fold (\<lambda>i m. snd (ensureClientRunningLocked w i m)) cs m) ! j
     = (runtimes m ! j)\<lparr>client := cl\<rparr>"
proof (induction cs arbitrary: m)
  case Nil
  then show ?case by (auto intro: exI [of _ "client (runtimes m ! j)"])
next
  case (Cons i cs)
  obtain c1 where "runtimes (snd (ensureClientRunningLocked w i m)) ! j = (runtimes m ! j)\<lparr>client := c1\<rparr>"
    using ensure_nth [OF Cons.prems] by blast
  then show ?case using Cons.IH [of "snd (ensureClientRunningLocked w i m)"] Cons.prems by auto
qed

lemma activeConns_probe_one: "activeConns (probe_one w interval now now' rt) = activeConns rt"
  by (auto simp: probe_one_def probe_result_def probe_alive_def Let_def split: prod.splits)

text \<open>The manager that the constructor returns: a node per configured node, an active index that is the
  index of a candidate, no connections. The branch for no candidates is never taken.\<close>

lemma newManager_state:
  assumes "newManager w now now' nodes addr interval = Some m"
  shows "length (runtimes m) = length nodes" "runtimes m \<noteq> []" "0 \<le> activeIndex m"
    "activeIndex m < int (length nodes)" "\<not> closed m"
    "\<And>i. i < length nodes \<Longrightarrow> activeConns (runtimes m ! i) = 0"
proof -
  have ne: "nodes \<noteq> []" using assms by (auto simp: newManager_def)
  define m1 where "m1 = probeAllNodes w now now' (initial_manager nodes addr interval)"
  define cs where "cs = getActiveTierCandidatesLocked m1"
  define m2 where "m2 = fold (\<lambda>i m. snd (ensureClientRunningLocked w i m)) cs m1"
  have m1: "length (runtimes m1) = length nodes" "\<not> closed m1"
    "\<And>i. i < length nodes \<Longrightarrow> activeConns (runtimes m1 ! i) = 0"
    by (simp_all add: m1_def initial_manager_def Let_def probeAllNodes_def activeConns_probe_one new_runtime_def
        split: prod.splits)
  then have "runtimes m1 \<noteq> []" using ne by auto
  then have cne: "cs \<noteq> []" by (simp add: cs_def candidates_ne)
  then obtain best where b: "pickCandidateLocked m2 cs = Some best" "best \<in> set cs"
    by (rule pickCandidateLocked_cheapest)
  have m: "m = m2\<lparr>activeIndex := int best\<rparr>"
    using assms ne cne b(1)
    by (simp add: newManager_def start_candidates_def Let_def m1_def [symmetric] cs_def [symmetric] m2_def [symmetric])
  have m2: "length (runtimes m2) = length nodes" "closed m2 = closed m1"
    by (simp_all add: m2_def fold_ensure_frame m1)
  have "best < length nodes" using b(2) m1(1) by (simp add: cs_def candidates_eligible)
  then show "length (runtimes m) = length nodes" "runtimes m \<noteq> []" "0 \<le> activeIndex m"
    "activeIndex m < int (length nodes)" "\<not> closed m"
    using m2 m1 ne by (auto simp: m)
  show "activeConns (runtimes m ! i) = 0" if "i < length nodes" for i
    using fold_ensure_nth [of i m1 w cs] m1 that by (auto simp: m m2_def)
qed

lemma pool_inv_new:
  "newManager w now now' nodes addr interval = Some m \<Longrightarrow> pool_inv (new_pool m)"
  using newManager_state [of w now now' nodes addr interval m]
  by (auto simp: pool_inv_def new_pool_def open_leases_def)

text \<open>C6. Connection counts cannot drift. In whatever order concurrent calls pick nodes, release them,
  release them twice, probe, report and close, the count of a node is the number of connections that
  were handed out on it and not released, so it is never negative, and the active index names a node.\<close>

theorem active_conns_exact:
  assumes "newManager w now now' nodes addr interval = Some m" and "(pool_step w)\<^sup>*\<^sup>* (new_pool m) p"
    and "i < length (runtimes (mgr p))"
  shows "activeConns (runtimes (mgr p) ! i) = int (length (filter (\<lambda>l. l = (i, False)) (leases p)))
    \<and> 0 \<le> activeConns (runtimes (mgr p) ! i)
    \<and> -1 \<le> activeIndex (mgr p) \<and> activeIndex (mgr p) < int (length (runtimes (mgr p)))"
proof -
  have "pool_inv p" using pool_system.steps_inv [OF assms(2) pool_inv_new [OF assms(1)]] .
  moreover have "count_list xs x = length (filter (\<lambda>l. l = x) xs)" for xs :: "(nat \<times> bool) list" and x
    by (induction xs) auto
  ultimately show ?thesis using assms(3) by (simp add: pool_inv_def open_leases_def)
qed

text \<open>C7. No client outlives the manager. Once \<^verbatim>\<open>Close\<close> has stopped the clients none is running and none
  is ever started again, also not by a call that passed its check of the closed flag before, and
  \<^verbatim>\<open>PickNode\<close> hands out nothing.\<close>

theorem no_client_after_close:
  assumes "newManager w now now' nodes addr interval = Some m" and "(pool_step w)\<^sup>*\<^sup>* (new_pool m) p"
    and "cleaned p" and "(pool_step w)\<^sup>*\<^sup>* p q"
  shows "(\<forall>rt \<in> set (runtimes (mgr q)). client rt = None) \<and> PickNode w (mgr q) = (([], [], None), mgr q)"
proof -
  have stays: "cleaned q" using assms(4,3)
  proof (induction rule: rtranclp_induct)
    case (step q r)
    from step.hyps(2) step.IH [OF step.prems] show ?case
      by cases (auto simp: take_lease_def release_lease_def split: prod.splits bool.splits)
  qed
  have "pool_inv q"
    using pool_system.steps_inv [OF assms(4) pool_system.steps_inv [OF assms(2) pool_inv_new [OF assms(1)]]] .
  with stays show ?thesis by (auto simp: pool_inv_def PickNode_def)
qed

definition test_start :: Manager where
  "test_start = start_candidates test_world (probeAllNodes test_world 5 6 (initial_manager [test_node] ''127.0.0.1:1080'' 0))"

lemma test_start: "newManager test_world 5 6 [test_node] ''127.0.0.1:1080'' 0 = Some test_start"
  by (simp add: newManager_def test_start_def)

theorem active_conns_exact_witness:
  "activeConns (runtimes (mgr (take_lease 0 (new_pool test_start))) ! 0) = 1"
proof -
  have l: "0 < length (runtimes (mgr (new_pool test_start)))"
    using newManager_state(1) [OF test_start] by (simp add: new_pool_def)
  then have "(pool_step test_world)\<^sup>*\<^sup>* (new_pool test_start) (take_lease 0 (new_pool test_start))"
    by (intro r_into_rtranclp pool_step.lease)
  note e = active_conns_exact [OF test_start this, of 0]
  have "leases (take_lease 0 (new_pool test_start)) = [(0, False)]" by (simp add: take_lease_def new_pool_def)
  then show ?thesis using e l by (simp add: take_lease_def)
qed

theorem no_client_after_close_witness:
  "let q = (new_pool test_start)\<lparr>mgr := close_clients (snd (close_flag test_start)), cleaned := True\<rparr>
   in (\<forall>rt \<in> set (runtimes (mgr q)). client rt = None) \<and> PickNode test_world (mgr q) = (([], [], None), mgr q)"
proof -
  define f where "f = (new_pool test_start)\<lparr>mgr := snd (close_flag (mgr (new_pool test_start)))\<rparr>"
  define q where "q = f\<lparr>mgr := close_clients (mgr f), cleaned := True\<rparr>"
  have "pool_step test_world (new_pool test_start) f" unfolding f_def by (rule pool_step.flag)
  moreover have "pool_step test_world f q"
    unfolding q_def by (rule pool_step.clean) (simp_all add: f_def new_pool_def close_flag_def)
  ultimately have "(pool_step test_world)\<^sup>*\<^sup>* (new_pool test_start) q" by auto
  from no_client_after_close [OF test_start this _ rtranclp.rtrancl_refl] show ?thesis
    by (simp add: q_def f_def new_pool_def Let_def)
qed

end
