(* ===== verification/Dns_Server.thy ===== *)
theory Dns_Server
  imports Router Stats_Books
begin

text \<open>
  Package \<^verbatim>\<open>core/dns\<close>: the resolver behind the DNS, DoH and DoT listeners, its cache and the map from
  addresses to the names they were learned from.

  A message is what the library \<^verbatim>\<open>miekg/dns\<close> makes of its octets. The library and the upstream servers
  are the argument \<open>net\<close>: packing and unpacking, building an empty reply, naming query types, and the
  exchanges with the direct server and the DoH resolver. The two \<^verbatim>\<open>sync.Map\<close>s are maps. The texts of
  errors that wrap a library error leave out the wrapped text. Listeners and their shutdown are not modelled.
\<close>

section \<open>Messages\<close>

datatype RData = A_rr IP | AAAA_rr IP | Other_rr

record RR =
  rrType :: nat
  rrTtl :: "32 word"
  rrData :: RData

record Question =
  Name :: string
  Qtype :: nat
  Qclass :: nat

record Msg =
  msgId :: nat
  Response :: bool
  Opcode :: nat
  Truncated :: bool
  Rcode :: nat
  Questions :: "Question list"
  Answer :: "RR list"
  Ns :: "RR list"
  Extra :: "RR list"

definition TypeOPT :: nat where "TypeOPT = 41"
definition TypeAAAA :: nat where "TypeAAAA = 28"
definition RcodeSuccess :: nat where "RcodeSuccess = 0"
definition maxDNSMessageSize :: nat where "maxDNSMessageSize = 65535"
definition ipMappingTTL :: duration where "ipMappingTTL = 1800000000000"

datatype dns_error = EmptyQuestion | ExchangeFailed | DifferentQuestion | TruncatedAnswer | PackFailed
  | HttpFailed | HttpStatus int | Oversized | UnpackFailed

fun dns_error_string :: "dns_error \<Rightarrow> string" where
  "dns_error_string EmptyQuestion = ''empty question''"
| "dns_error_string ExchangeFailed = ''exchange failed''"
| "dns_error_string DifferentQuestion = ''direct upstream answered a different question''"
| "dns_error_string TruncatedAnswer = ''direct upstream truncated and TCP retry failed''"
| "dns_error_string PackFailed = ''pack failed''"
| "dns_error_string HttpFailed = ''doh request failed''"
| "dns_error_string (HttpStatus n) = ''doh status error: '' @ Itoa n"
| "dns_error_string Oversized = ''doh response exceeds 65535-octet DNS message limit''"
| "dns_error_string UnpackFailed = ''unpack failed''"

record net =
  exchange_udp :: "Msg \<Rightarrow> Msg option"
  exchange_tcp :: "Msg \<Rightarrow> Msg option"
  doh_post :: "byte list \<Rightarrow> (int \<times> byte list) option"
  Pack :: "Msg \<Rightarrow> byte list option"
  Unpack :: "byte list \<Rightarrow> Msg option"
  SetReply :: "Msg \<Rightarrow> Msg"
  TypeToString :: "nat \<Rightarrow> string option"

section \<open>The server\<close>

record DNSCacheEntry =
  eMsg :: Msg
  ExpiresAt :: instant
  StoredAt :: instant

record ipMapping =
  imDomain :: string
  imExpires :: instant

record DnsServer =
  router :: "Router option"
  enableIPv6 :: bool
  cache :: "string \<rightharpoonup> DNSCacheEntry"
  ipToDomain :: "string \<rightharpoonup> ipMapping"
  stats :: "Collector option"

section \<open>Visiting and aging records\<close>

definition is_real :: "RR \<Rightarrow> bool" where
  "is_real rr \<longleftrightarrow> rrType rr \<noteq> TypeOPT"

definition map_RRs :: "(RR \<Rightarrow> RR) \<Rightarrow> Msg \<Rightarrow> Msg" where
  "map_RRs f m = (let g = (\<lambda>rr. if is_real rr then f rr else rr)
     in m\<lparr>Answer := map g (Answer m), Ns := map g (Ns m), Extra := map g (Extra m)\<rparr>)"

definition all_RRs :: "Msg \<Rightarrow> RR list" where
  "all_RRs m = filter is_real (Answer m @ Ns m @ Extra m)"

definition age_RR :: "32 word \<Rightarrow> RR \<Rightarrow> RR" where
  "age_RR elapsed rr = rr\<lparr>rrTtl := (if elapsed < rrTtl rr then rrTtl rr - elapsed else 0)\<rparr>"

definition ageRRsTTL :: "32 word \<Rightarrow> Msg \<Rightarrow> Msg" where
  "ageRRsTTL elapsed m = map_RRs (age_RR elapsed) m"

definition doHCacheControl :: "Msg \<Rightarrow> string" where
  "doHCacheControl m =
     (case map (\<lambda>rr. unat (rrTtl rr)) (all_RRs m) of
        [] \<Rightarrow> ''no-store''
      | t # ts \<Rightarrow>
          let minTTL = foldl (\<lambda>acc ttl. if ttl < acc then ttl else acc) t ts;
              capped = (if 86400 < minTTL then 86400 else minTTL)
          in ''max-age='' @ Itoa (int capped))"

section \<open>Checking answers\<close>

definition question_matches :: "Question \<Rightarrow> Question \<Rightarrow> bool" where
  "question_matches want got \<longleftrightarrow> Qtype want = Qtype got \<and> Qclass want = Qclass got
     \<and> EqualFold (TrimSuffix (Name want) ''.'') (TrimSuffix (Name got) ''.'')"

definition responseMatchesQuery :: "Msg \<Rightarrow> Msg \<Rightarrow> bool" where
  "responseMatchesQuery req resp \<longleftrightarrow> Response resp \<and> Opcode resp = Opcode req
     \<and> length (Questions resp) = length (Questions req)
     \<and> list_all2 question_matches (Questions req) (Questions resp)"

section \<open>Upstreams\<close>

definition resolveDirect :: "net \<Rightarrow> Msg \<Rightarrow> bool \<Rightarrow> dns_error + Msg" where
  "resolveDirect n r viaTCP =
     (case exchange_udp n r of
        None \<Rightarrow> Inl ExchangeFailed
      | Some m \<Rightarrow>
          if \<not> responseMatchesQuery r m then Inl DifferentQuestion
          else if Truncated m then
            (case exchange_tcp n r of
               Some mt \<Rightarrow>
                 if responseMatchesQuery r mt then Inr mt
                 else if viaTCP then Inl TruncatedAnswer else Inr m
             | None \<Rightarrow> if viaTCP then Inl TruncatedAnswer else Inr m)
          else Inr m)"

definition resolveDoH :: "net \<Rightarrow> Msg \<Rightarrow> dns_error + Msg" where
  "resolveDoH n r =
     (case Pack n r of
        None \<Rightarrow> Inl PackFailed
      | Some data \<Rightarrow>
          (case doh_post n data of
             None \<Rightarrow> Inl HttpFailed
           | Some (status, body) \<Rightarrow>
               if status \<noteq> 200 then Inl (HttpStatus status)
               else
                 let respData = take (maxDNSMessageSize + 1) body in
                 if maxDNSMessageSize < length respData then Inl Oversized
                 else case Unpack n respData of
                        None \<Rightarrow> Inl UnpackFailed
                      | Some m \<Rightarrow>
                          if \<not> responseMatchesQuery r m then Inl DifferentQuestion
                          else Inr (m\<lparr>Truncated := False\<rparr>)))"

definition emptyReply :: "net \<Rightarrow> Msg \<Rightarrow> Msg" where
  "emptyReply n r = SetReply n r"

definition qtypeString :: "net \<Rightarrow> nat \<Rightarrow> string" where
  "qtypeString n qtype = (case TypeToString n qtype of Some s \<Rightarrow> s | None \<Rightarrow> ''TYPE'' @ Itoa (int qtype))"

section \<open>The cache\<close>

definition min_ttl_step :: "nat \<Rightarrow> nat \<Rightarrow> nat" where
  "min_ttl_step acc ttl = (if ttl < acc then ttl else acc)"

text \<open>The loop over the answers stops at the first TTL of zero.\<close>

fun answer_ttl :: "nat \<Rightarrow> RR list \<Rightarrow> nat" where
  "answer_ttl minTTL [] = minTTL"
| "answer_ttl minTTL (rr # rrs) =
     (if rrTtl rr = 0 then 0 else answer_ttl (min_ttl_step minTTL (unat (rrTtl rr))) rrs)"

definition learn_ip :: "string \<Rightarrow> instant \<Rightarrow> RR \<Rightarrow> (string \<rightharpoonup> ipMapping) \<Rightarrow> (string \<rightharpoonup> ipMapping)" where
  "learn_ip domain now rr m =
     (let e = \<lparr>imDomain = domain, imExpires = now + ipMappingTTL\<rparr> in
      case rrData rr of
        A_rr ip \<Rightarrow> m(IP_String ip \<mapsto> e)
      | AAAA_rr ip \<Rightarrow> m(IP_String ip \<mapsto> e)
      | Other_rr \<Rightarrow> m)"

definition cacheAndRecordIP :: "instant \<Rightarrow> string \<Rightarrow> string \<Rightarrow> Msg \<Rightarrow> DnsServer \<Rightarrow> DnsServer" where
  "cacheAndRecordIP now domain key msg s =
     (if Rcode msg \<noteq> RcodeSuccess \<or> Answer msg = [] then s
      else
        let minTTL = answer_ttl 300 (Answer msg);
            s = s\<lparr>ipToDomain := fold (learn_ip domain now) (Answer msg) (ipToDomain s)\<rparr>
        in if minTTL = 0 then s\<lparr>cache := (cache s)(key := None)\<rparr>
           else s\<lparr>cache := (cache s)(key \<mapsto>
             \<lparr>eMsg = msg, ExpiresAt = now + int minTTL * 1000000000, StoredAt = now\<rparr>)\<rparr>)"

definition LookupDomainByIP :: "instant \<Rightarrow> string \<Rightarrow> DnsServer \<Rightarrow> string option \<times> DnsServer" where
  "LookupDomainByIP now ip0 s =
     (let ip = (case ParseIP ip0 of
                  None \<Rightarrow> ip0
                | Some p \<Rightarrow> (case To4 p of Some v4 \<Rightarrow> IP_String v4 | None \<Rightarrow> IP_String p))
      in case ipToDomain s ip of
           None \<Rightarrow> (None, s)
         | Some m \<Rightarrow>
             if imExpires m < now then (None, s\<lparr>ipToDomain := (ipToDomain s)(ip := None)\<rparr>)
             else (Some (imDomain m), s))"

definition sweepExpired :: "instant \<Rightarrow> DnsServer \<Rightarrow> DnsServer" where
  "sweepExpired now s = s
     \<lparr>cache := (\<lambda>k. case cache s k of None \<Rightarrow> None | Some e \<Rightarrow> if ExpiresAt e < now then None else Some e),
      ipToDomain := (\<lambda>k. case ipToDomain s k of None \<Rightarrow> None | Some e \<Rightarrow> if imExpires e < now then None else Some e)\<rparr>"

section \<open>Resolution\<close>

definition norm_name :: "string \<Rightarrow> string" where
  "norm_name name = ToLower (Trim name ''.'')"

definition cache_key :: "string \<Rightarrow> nat \<Rightarrow> nat \<Rightarrow> string" where
  "cache_key qName qtype qclass = qName @ ''_'' @ Itoa (int qtype) @ ''_'' @ Itoa (int qclass)"

definition record_query :: "order \<Rightarrow> net \<Rightarrow> instant \<Rightarrow> string \<Rightarrow> nat \<Rightarrow> string \<Rightarrow> dns_error option \<Rightarrow> DnsServer \<Rightarrow> DnsServer" where
  "record_query rng n now qName qtype upstream err s =
     s\<lparr>stats := map_option (\<lambda>c. RecordDNS rng c now qName (qtypeString n qtype) upstream
         (map_option dns_error_string err)) (stats s)\<rparr>"

definition route_query :: "net \<Rightarrow> DnsServer \<Rightarrow> Msg \<Rightarrow> string \<Rightarrow> Question \<Rightarrow> bool \<Rightarrow> string \<times> (dns_error + Msg)" where
  "route_query n s r qName q viaTCP =
     (let isDirect = (case router s of None \<Rightarrow> False | Some rt \<Rightarrow> ShouldDirectDomain rt qName);
          (upstream, res) =
            (if isDirect then (''direct'', resolveDirect n r viaTCP)
             else if \<not> enableIPv6 s \<and> Qtype q = TypeAAAA then (''synthetic'', Inr (emptyReply n r))
             else case resolveDoH n r of
                    Inr m \<Rightarrow> (''doh'', Inr m)
                  | Inl _ \<Rightarrow> (''direct'', resolveDirect n r viaTCP))
      in case res of
           Inl e \<Rightarrow> if Qtype q = TypeAAAA then (''synthetic'', Inr (emptyReply n r)) else (upstream, Inl e)
         | Inr m \<Rightarrow> (upstream, Inr m))"

definition resolve :: "order \<Rightarrow> net \<Rightarrow> instant \<Rightarrow> Msg \<Rightarrow> bool \<Rightarrow> DnsServer \<Rightarrow> (dns_error + Msg) \<times> DnsServer" where
  "resolve rng n now r viaTCP s =
     (case Questions r of
        [] \<Rightarrow> (Inl EmptyQuestion, s)
      | q # _ \<Rightarrow>
          let qName = norm_name (Name q);
              key = cache_key qName (Qtype q) (Qclass q);
              hit = (case cache s key of Some e \<Rightarrow> if 0 < ExpiresAt e - now then Some e else None | None \<Rightarrow> None)
          in case hit of
               Some e \<Rightarrow>
                 (Inr ((ageRRsTTL (word_of_int ((now - StoredAt e) sdiv 1000000000)) (eMsg e))\<lparr>msgId := msgId r\<rparr>),
                  record_query rng n now qName (Qtype q) ''cache'' None s)
             | None \<Rightarrow>
                 let s = s\<lparr>cache := (cache s)(key := None)\<rparr>;
                     (upstream, res) = route_query n s r qName q viaTCP
                 in case res of
                      Inl e \<Rightarrow> (Inl e, record_query rng n now qName (Qtype q) upstream (Some e) s)
                    | Inr m \<Rightarrow>
                        let s = record_query rng n now qName (Qtype q) upstream None s;
                            m = m\<lparr>msgId := msgId r\<rparr>
                        in (Inr m, if Truncated m then s else cacheAndRecordIP now qName key m s))"

definition ResolveMsg :: "order \<Rightarrow> net \<Rightarrow> instant \<Rightarrow> Msg \<Rightarrow> DnsServer \<Rightarrow> (dns_error + Msg) \<times> DnsServer" where
  "ResolveMsg rng n now r s = resolve rng n now r False s"

text \<open>\<open>handleDNSRequest\<close> returns the message to write, \<open>None\<close> for the failure reply of the library.\<close>

definition handleDNSRequest ::
  "order \<Rightarrow> net \<Rightarrow> instant \<Rightarrow> string option \<Rightarrow> Msg \<Rightarrow> DnsServer \<Rightarrow> Msg option \<times> DnsServer" where
  "handleDNSRequest rng n now remote r s =
     (let viaTCP = (case remote of Some network \<Rightarrow> HasPrefix network ''tcp'' | None \<Rightarrow> False);
          (res, s) = resolve rng n now r viaTCP s
      in case res of Inl _ \<Rightarrow> (None, s) | Inr m \<Rightarrow> (Some (m\<lparr>msgId := msgId r\<rparr>), s))"

section \<open>Keys\<close>

lemma append_sep_inject:
  assumes "x @ c # y = x' @ c # y'" "c \<notin> set x" "c \<notin> set x'"
  shows "x = x'" "y = (y' :: string)"
proof -
  have "Cut (x @ c # y) c = Some (x, y)" "Cut (x @ c # y) c = Some (x', y')"
    using assms by (simp_all add: Cut_Some)
  then show "x = x'" "y = y'" by simp_all
qed

lemma Itoa_nat_no_underscore: "CHR ''_'' \<notin> set (Itoa (int n))"
proof
  assume "CHR ''_'' \<in> set (Itoa (int n))"
  then have "is_digit CHR ''_''" using dec_digits_digits [of n] by (simp add: Itoa_def list_all_iff)
  then show False by (simp add: is_digit_def char_code_def)
qed

lemma Itoa_nat_inject: "Itoa (int m) = Itoa (int n) \<Longrightarrow> m = n"
proof -
  assume "Itoa (int m) = Itoa (int n)"
  then have "dec_digits m = dec_digits n" by (simp add: Itoa_def)
  then show "m = n" by (metis dec_value_dec_digits)
qed

text \<open>Two questions share a cache key only if they ask the same: a name may contain underscores, but the
  key is read from its end.\<close>

lemma cache_key_inject:
  assumes "cache_key a t k = cache_key a' t' k'"
  shows "a = a' \<and> t = t' \<and> k = k'"
proof -
  have "rev (Itoa (int k)) @ CHR ''_'' # (rev (Itoa (int t)) @ CHR ''_'' # rev a)
      = rev (Itoa (int k')) @ CHR ''_'' # (rev (Itoa (int t')) @ CHR ''_'' # rev a')"
    using arg_cong [OF assms, of rev]
    by (simp only: cache_key_def rev_append rev.simps append_assoc append_Cons append_Nil)
  note outer = append_sep_inject [OF this]
  have k: "rev (Itoa (int k)) = rev (Itoa (int k'))"
    by (rule outer(1)) (simp_all only: set_rev Itoa_nat_no_underscore not_False_eq_True)
  have rest: "rev (Itoa (int t)) @ CHR ''_'' # rev a = rev (Itoa (int t')) @ CHR ''_'' # rev a'"
    by (rule outer(2)) (simp_all only: set_rev Itoa_nat_no_underscore not_False_eq_True)
  note inner = append_sep_inject [OF rest]
  have t: "rev (Itoa (int t)) = rev (Itoa (int t'))"
    by (rule inner(1)) (simp_all only: set_rev Itoa_nat_no_underscore not_False_eq_True)
  have "rev a = rev a'"
    by (rule inner(2)) (simp_all only: set_rev Itoa_nat_no_underscore not_False_eq_True)
  with k t show ?thesis using Itoa_nat_inject by simp
qed

lemma Trim_TrimSuffix_dot: "Trim (TrimSuffix s ''.'') ''.'' = Trim s ''.''"
proof (cases "HasSuffix s ''.''")
  case True
  then obtain t where t: "s = t @ ''.''" by (auto simp: HasSuffix_iff suffix_def)
  have p: "TrimRightFunc p (u @ [c]) = TrimRightFunc p u" if "p c" for p u and c :: char
    using that by (simp add: TrimRightFunc_def)
  have "TrimFunc (\<lambda>c. c \<in> set ''.'') (t @ ''.'') = TrimFunc (\<lambda>c. c \<in> set ''.'') t"
  proof (cases "\<forall>c \<in> set t. c = CHR ''.''")
    case True
    then have "TrimFunc (\<lambda>c. c \<in> set ''.'') (t @ ''.'') = []" "TrimFunc (\<lambda>c. c \<in> set ''.'') t = []"
      by (auto simp: TrimFunc_Nil)
    then show ?thesis by simp
  next
    case False
    then have "dropWhile (\<lambda>c. c \<in> set ''.'') (t @ ''.'') = dropWhile (\<lambda>c. c \<in> set ''.'') t @ ''.''"
      by (auto simp: dropWhile_append)
    then show ?thesis by (simp add: TrimFunc_def p)
  qed
  then show ?thesis using True by (simp add: TrimSuffix_def t Trim_def)
qed (simp add: TrimSuffix_def)

lemma question_matches_key:
  assumes "question_matches q q'"
  shows "norm_name (Name q) = norm_name (Name q')" "Qtype q = Qtype q'" "Qclass q = Qclass q'"
proof -
  have e: "norm_name s = Trim (ToLower (TrimSuffix s ''.'')) ''.''" for s
    by (simp add: norm_name_def Trim_TrimSuffix_dot ToLower_Trim_dot [symmetric])
  show "norm_name (Name q) = norm_name (Name q')"
    using assms unfolding e by (simp add: question_matches_def EqualFold_def)
  show "Qtype q = Qtype q'" "Qclass q = Qclass q'" using assms by (simp_all add: question_matches_def)
qed

section \<open>What is in the cache\<close>

definition same_question :: "Msg \<Rightarrow> Msg \<Rightarrow> bool" where
  "same_question r m \<longleftrightarrow> Questions r \<noteq> [] \<and> Questions m \<noteq> []
     \<and> norm_name (Name (hd (Questions r))) = norm_name (Name (hd (Questions m)))
     \<and> Qtype (hd (Questions r)) = Qtype (hd (Questions m)) \<and> Qclass (hd (Questions r)) = Qclass (hd (Questions m))"

definition key_of :: "Msg \<Rightarrow> string" where
  "key_of m = (let q = hd (Questions m) in cache_key (norm_name (Name q)) (Qtype q) (Qclass q))"

lemma key_of_same: "Questions r \<noteq> [] \<Longrightarrow> Questions m \<noteq> [] \<Longrightarrow> key_of r = key_of m \<longleftrightarrow> same_question r m"
  using cache_key_inject by (auto simp: key_of_def same_question_def Let_def)

definition entry_ok :: "string \<Rightarrow> DNSCacheEntry \<Rightarrow> bool" where
  "entry_ok k e \<longleftrightarrow> Questions (eMsg e) \<noteq> [] \<and> k = key_of (eMsg e) \<and> Response (eMsg e)
     \<and> Rcode (eMsg e) = RcodeSuccess \<and> \<not> Truncated (eMsg e)
     \<and> (\<exists>ttl. 0 < ttl \<and> ttl \<le> 300 \<and> ExpiresAt e = StoredAt e + int ttl * 1000000000
          \<and> (\<forall>rr \<in> set (Answer (eMsg e)). ttl \<le> unat (rrTtl rr)))"

definition cache_ok :: "DnsServer \<Rightarrow> bool" where
  "cache_ok s \<longleftrightarrow> (\<forall>k e. cache s k = Some e \<longrightarrow> entry_ok k e)"

text \<open>What the library documents of an empty reply: it answers the first question of the request, with
  no records and no error.\<close>

definition reply_ok :: "net \<Rightarrow> bool" where
  "reply_ok n \<longleftrightarrow> (\<forall>r. Questions r \<noteq> [] \<longrightarrow>
     (let m = SetReply n r in Response m \<and> Questions m = [hd (Questions r)] \<and> Answer m = [] \<and> \<not> Truncated m))"

lemma answer_ttl_bounds:
  assumes "answer_ttl b rrs \<noteq> 0"
  shows "answer_ttl b rrs \<le> b \<and> (\<forall>rr \<in> set rrs. answer_ttl b rrs \<le> unat (rrTtl rr))"
  using assms
proof (induction rrs arbitrary: b)
  case (Cons rr rrs)
  then have nz: "rrTtl rr \<noteq> 0" by (auto split: if_splits)
  have "answer_ttl (min_ttl_step b (unat (rrTtl rr))) rrs \<noteq> 0" using Cons.prems nz by simp
  note IH = Cons.IH [OF this]
  have "min_ttl_step b (unat (rrTtl rr)) \<le> b" "min_ttl_step b (unat (rrTtl rr)) \<le> unat (rrTtl rr)"
    by (simp_all add: min_ttl_step_def)
  then show ?case using IH nz by auto
qed simp

lemma cache_ok_store:
  assumes "cache_ok s" "Questions m \<noteq> []" "Response m" "\<not> Truncated m"
  shows "cache_ok (cacheAndRecordIP now domain (key_of m) m s)"
proof -
  have "entry_ok (key_of m) \<lparr>eMsg = m, ExpiresAt = now + int (answer_ttl 300 (Answer m)) * 1000000000, StoredAt = now\<rparr>"
    if "answer_ttl 300 (Answer m) \<noteq> 0" "Rcode m = RcodeSuccess"
    using assms(2-4) that answer_ttl_bounds [OF that(1)]
    by (auto simp: entry_ok_def intro!: exI [of _ "answer_ttl 300 (Answer m)"])
  then show ?thesis
    using assms(1) by (auto simp: cacheAndRecordIP_def Let_def cache_ok_def)
qed

lemma same_question_refl: "Questions r \<noteq> [] \<Longrightarrow> same_question r r"
  by (simp add: same_question_def)

lemma responseMatchesQuery_same:
  assumes "responseMatchesQuery r m" "Questions r \<noteq> []"
  shows "same_question r m" "Response m"
proof -
  obtain q qs where r: "Questions r = q # qs" using assms(2) by (cases "Questions r") auto
  then obtain q' qs' where m: "Questions m = q' # qs'" "question_matches q q'"
    using assms(1) by (auto simp: responseMatchesQuery_def list_all2_Cons1)
  then show "same_question r m" "Response m"
    using question_matches_key [OF m(2)] assms(1) by (simp_all add: same_question_def r responseMatchesQuery_def)
qed

lemma route_query_same:
  assumes "reply_ok n" "Questions r \<noteq> []" "route_query n s r qName q viaTCP = (up, Inr m)"
  shows "same_question r m \<and> Response m"
proof -
  have e: "same_question r (SetReply n r) \<and> Response (SetReply n r)"
    using assms(1,2) by (auto simp: reply_ok_def same_question_def Let_def)
  have d: "same_question r x \<and> Response x" if "resolveDirect n r viaTCP = Inr x" for x
    using that assms(2) responseMatchesQuery_same
    by (auto simp: resolveDirect_def split: option.splits if_splits)
  have h: "same_question r x \<and> Response x" if "resolveDoH n r = Inr x" for x
    using that assms(2) responseMatchesQuery_same
    by (auto simp: resolveDoH_def Let_def same_question_def split: option.splits if_splits)
  show ?thesis
    using assms(3) e d h by (auto simp: route_query_def emptyReply_def Let_def split: sum.splits option.splits if_splits)
qed

lemma same_question_sym: "same_question r m \<Longrightarrow> same_question m r"
  by (auto simp: same_question_def)

section \<open>Resolution keeps the cache sound\<close>

lemma record_query_frame [simp, go_frame]:
  "cache (record_query rng n now qName qtype up err s) = cache s"
  "ipToDomain (record_query rng n now qName qtype up err s) = ipToDomain s"
  "router (record_query rng n now qName qtype up err s) = router s"
  "enableIPv6 (record_query rng n now qName qtype up err s) = enableIPv6 s"
  by (simp_all add: record_query_def)

lemma cache_ok_frame [simp]: "cache_ok (record_query rng n now qName qtype up err s) = cache_ok s"
  by (simp add: cache_ok_def)

lemma cache_ok_delete: "cache_ok s \<Longrightarrow> cache_ok (s\<lparr>cache := (cache s)(k := None)\<rparr>)"
  by (simp add: cache_ok_def)

lemma resolve_cases:
  fixes s :: DnsServer
  assumes "Questions r \<noteq> []"
  defines "q \<equiv> hd (Questions r)"
  defines "s1 \<equiv> s\<lparr>cache := (cache s)(key_of r := None)\<rparr>"
  obtains (hit) e where "cache s (key_of r) = Some e" "now < ExpiresAt e"
      "resolve rng n now r viaTCP s =
        (Inr ((ageRRsTTL (word_of_int ((now - StoredAt e) sdiv 1000000000)) (eMsg e))\<lparr>msgId := msgId r\<rparr>),
         record_query rng n now (norm_name (Name q)) (Qtype q) ''cache'' None s)"
    | (failed) up e where "route_query n s1 r (norm_name (Name q)) q viaTCP = (up, Inl e)"
      "resolve rng n now r viaTCP s = (Inl e, record_query rng n now (norm_name (Name q)) (Qtype q) up (Some e) s1)"
    | (answered) up m where "route_query n s1 r (norm_name (Name q)) q viaTCP = (up, Inr m)"
      "resolve rng n now r viaTCP s = (Inr (m\<lparr>msgId := msgId r\<rparr>),
        (let s2 = record_query rng n now (norm_name (Name q)) (Qtype q) up None s1 in
         if Truncated m then s2 else cacheAndRecordIP now (norm_name (Name q)) (key_of r) (m\<lparr>msgId := msgId r\<rparr>) s2))"
proof -
  obtain qs where r: "Questions r = q # qs" using assms(1) by (cases "Questions r") (auto simp: q_def)
  have key: "key_of r = cache_key (norm_name (Name q)) (Qtype q) (Qclass q)" by (simp add: key_of_def q_def Let_def)
  define up where "up = fst (route_query n s1 r (norm_name (Name q)) q viaTCP)"
  define res where "res = snd (route_query n s1 r (norm_name (Name q)) q viaTCP)"
  have rq: "route_query n s1 r (norm_name (Name q)) q viaTCP = (up, res)" by (simp add: up_def res_def)
  show thesis
  proof (cases "\<exists>e. cache s (key_of r) = Some e \<and> now < ExpiresAt e")
    case True
    then obtain e where e: "cache s (key_of r) = Some e" "now < ExpiresAt e" by blast
    show thesis
      by (rule hit [OF e]) (use e in \<open>simp add: resolve_def r Let_def key\<close>)
  next
    case False
    then have miss: "(case cache s (key_of r) of Some e \<Rightarrow> if 0 < ExpiresAt e - now then Some e else None | None \<Rightarrow> None) = None"
      by (auto split: option.splits)
    have res_eq: "resolve rng n now r viaTCP s =
      (case res of
         Inl e \<Rightarrow> (Inl e, record_query rng n now (norm_name (Name q)) (Qtype q) up (Some e) s1)
       | Inr m \<Rightarrow> (Inr (m\<lparr>msgId := msgId r\<rparr>),
          (let s2 = record_query rng n now (norm_name (Name q)) (Qtype q) up None s1 in
           if Truncated m then s2 else cacheAndRecordIP now (norm_name (Name q)) (key_of r) (m\<lparr>msgId := msgId r\<rparr>) s2)))"
      unfolding resolve_def r list.case Let_def key [symmetric] miss option.case s1_def [symmetric] rq prod.case
      by (simp split: sum.splits)
    show thesis
    proof (cases res)
      case (Inl e)
      then show thesis using failed [of up e] rq res_eq by simp
    next
      case (Inr m)
      then show thesis using answered [of up m] rq res_eq by simp
    qed
  qed
qed

lemma cache_ok_resolve:
  assumes "cache_ok s" "reply_ok n"
  shows "cache_ok (snd (resolve rng n now r viaTCP s))"
proof (cases "Questions r = []")
  case False
  note ok1 = cache_ok_delete [OF assms(1), of "key_of r"]
  from False show ?thesis
  proof (cases rule: resolve_cases [of r s now rng n viaTCP])
    case (answered up m)
    define m' where "m' = m\<lparr>msgId := msgId r\<rparr>"
    have "same_question r m'" "Response m'"
      using route_query_same [OF assms(2) False answered(1)] by (simp_all add: m'_def same_question_def)
    then have "key_of r = key_of m'" "Questions m' \<noteq> []"
      using key_of_same [OF False, of m'] by (auto simp: same_question_def)
    then show ?thesis
      using answered(2) ok1 \<open>Response m'\<close>
      by (auto simp: Let_def m'_def [symmetric] intro!: cache_ok_store) (simp_all add: m'_def)
  qed (use assms ok1 in simp_all)
qed (use assms in \<open>simp add: resolve_def\<close>)

text \<open>Runs of the server: queries, sweeps and reverse lookups in any order.\<close>

inductive dns_reach :: "order \<Rightarrow> net \<Rightarrow> DnsServer \<Rightarrow> bool" for rng n where
  fresh: "cache s = Map.empty \<Longrightarrow> dns_reach rng n s"
| query: "dns_reach rng n s \<Longrightarrow> dns_reach rng n (snd (resolve rng n now r viaTCP s))"
| sweep: "dns_reach rng n s \<Longrightarrow> dns_reach rng n (sweepExpired now s)"
| lookup: "dns_reach rng n s \<Longrightarrow> dns_reach rng n (snd (LookupDomainByIP now ip s))"

lemma dns_reach_cache:
  assumes "dns_reach rng n s" "reply_ok n"
  shows "cache_ok s"
  using assms
proof (induction rule: dns_reach.induct)
  case (lookup s now ip)
  then show ?case by (auto simp: LookupDomainByIP_def Let_def cache_ok_def split: option.splits)
next
  case (sweep s now)
  then show ?case by (auto simp: cache_ok_def sweepExpired_def split: option.splits if_splits)
qed (simp_all add: cache_ok_resolve, simp add: cache_ok_def)

text \<open>C17. Every answer answers the question. Whatever the upstreams send and whatever was asked before,
  a reply, also one from the cache, is a response that carries the id of the request and the name
  (up to case and outer dots), type and class of its question: an upstream that answers another
  question cannot poison the cache.\<close>

theorem resolve_answers_question:
  assumes "reply_ok n" and "dns_reach rng n s" and "fst (resolve rng n now r viaTCP s) = Inr m"
  shows "Response m \<and> msgId m = msgId r \<and> same_question r m"
proof -
  have ne: "Questions r \<noteq> []" using assms(3) by (auto simp: resolve_def)
  have ok: "cache_ok s" by (rule dns_reach_cache [OF assms(2,1)])
  from ne show ?thesis
  proof (cases rule: resolve_cases [of r s now rng n viaTCP])
    case (hit e)
    have e: "entry_ok (key_of r) e" using ok hit(1) by (simp add: cache_ok_def)
    then have "same_question r (eMsg e)" using key_of_same [OF ne, of "eMsg e"] unfolding entry_ok_def by blast
    moreover have "m = (ageRRsTTL (word_of_int ((now - StoredAt e) sdiv 1000000000)) (eMsg e))\<lparr>msgId := msgId r\<rparr>"
      using hit(3) assms(3) by simp
    ultimately show ?thesis
      using e by (simp add: entry_ok_def same_question_def ageRRsTTL_def map_RRs_def Let_def)
  next
    case (failed up e)
    then show ?thesis using assms(3) by simp
  next
    case (answered up m')
    then show ?thesis
      using route_query_same [OF assms(1) ne answered(1)] assms(3) by (auto simp: same_question_def)
  qed
qed

text \<open>A world in which the direct server answers the address 1.2.3.4 with a TTL of 60 and truncates over
  UDP, and DoH is down.\<close>

definition test_answer :: "Msg \<Rightarrow> Msg" where
  "test_answer r = r\<lparr>Response := True, Truncated := False, Rcode := 0,
     Answer := [\<lparr>rrType = 1, rrTtl = 60, rrData = A_rr [1, 2, 3, 4]\<rparr>], Ns := [], Extra := []\<rparr>"

definition test_net :: net where
  "test_net = \<lparr>exchange_udp = (\<lambda>r. Some ((test_answer r)\<lparr>Truncated := True\<rparr>)), exchange_tcp = (\<lambda>r. Some (test_answer r)),
     doh_post = (\<lambda>_. None), Pack = (\<lambda>_. Some []), Unpack = (\<lambda>_. None),
     SetReply = (\<lambda>r. r\<lparr>Response := True, Truncated := False, Questions := take 1 (Questions r), Answer := [], Ns := [], Extra := []\<rparr>),
     TypeToString = (\<lambda>t. if t = 1 then Some ''A'' else None)\<rparr>"

definition test_query :: Msg where
  "test_query = \<lparr>msgId = 7, Response = False, Opcode = 0, Truncated = False, Rcode = 0,
     Questions = [\<lparr>Name = ''A.Example.'', Qtype = 1, Qclass = 1\<rparr>], Answer = [], Ns = [], Extra = []\<rparr>"

definition test_server :: DnsServer where
  "test_server = \<lparr>router = None, enableIPv6 = True, cache = Map.empty, ipToDomain = Map.empty, stats = None\<rparr>"

lemma test_net_reply: "reply_ok test_net"
  by (auto simp: reply_ok_def test_net_def Let_def take_Suc)

lemma test_net_matches: "responseMatchesQuery r (test_answer r)" "responseMatchesQuery r ((test_answer r)\<lparr>Truncated := t\<rparr>)"
  by (simp_all add: responseMatchesQuery_def test_answer_def question_matches_def list.rel_refl)

lemma test_resolve:
  "resolve rev test_net now test_query True test_server =
     (Inr (test_answer test_query), cacheAndRecordIP now ''a.example'' (key_of test_query) (test_answer test_query) test_server)"
proof -
  have ne: "Questions test_query \<noteq> []" by (simp add: test_query_def)
  have nn: "norm_name (Name (hd (Questions test_query))) = ''a.example''" by code_simp
  have rq: "route_query test_net s test_query qn (hd (Questions test_query)) True = (''direct'', Inr (test_answer test_query))"
    if "router s = None" "enableIPv6 s" for s qn
    using that test_net_matches
    by (simp add: route_query_def resolveDoH_def resolveDirect_def test_net_def Let_def)
  from ne show ?thesis
  proof (cases rule: resolve_cases [of test_query test_server now rev test_net True])
    case (answered up m)
    then have "m = test_answer test_query" using rq by (simp add: test_server_def)
    moreover have "(test_answer test_query)\<lparr>msgId := msgId test_query\<rparr> = test_answer test_query"
      by (simp add: test_answer_def)
    moreover have "record_query rev test_net now qn qt up err (test_server\<lparr>cache := (cache test_server)(k := None)\<rparr>) = test_server"
      for qn qt up err k by (simp add: record_query_def test_server_def fun_upd_idem)
    ultimately show ?thesis using answered(2) nn by (simp add: Let_def test_answer_def)
  qed (use rq in \<open>simp_all add: test_server_def\<close>)
qed

theorem resolve_answers_question_witness:
  "fst (resolve rev test_net 5 test_query True test_server) = Inr (test_answer test_query)
   \<and> same_question test_query (test_answer test_query) \<and> msgId (test_answer test_query) = 7"
proof -
  have "dns_reach rev test_net test_server" by (rule dns_reach.fresh) (simp add: test_server_def)
  moreover have r: "fst (resolve rev test_net 5 test_query True test_server) = Inr (test_answer test_query)"
    by (simp add: test_resolve)
  ultimately show ?thesis
    using resolve_answers_question [OF test_net_reply] r by (auto simp: test_query_def)
qed

section \<open>Aging\<close>

lemma resolve_hit:
  assumes "Questions r \<noteq> []" "cache s (key_of r) = Some e" "now < ExpiresAt e"
  shows "fst (resolve rng n now r viaTCP s) =
    Inr ((ageRRsTTL (word_of_int ((now - StoredAt e) sdiv 1000000000)) (eMsg e))\<lparr>msgId := msgId r\<rparr>)"
proof -
  obtain q qs where r: "Questions r = q # qs" using assms(1) by (cases "Questions r") auto
  then have "cache s (cache_key (norm_name (Name q)) (Qtype q) (Qclass q)) = Some e"
    using assms(2) by (simp add: key_of_def)
  then show ?thesis using assms(3) by (simp add: resolve_def r)
qed



section \<open>Accounting\<close>

lemma dns_recordErrorLocked [simp]: "dns (recordErrorLocked c scope host msg now) = dns c"
  by (simp add: recordErrorLocked_def Let_def)

lemma qQueries_RecordDNS: "qQueries (dns (RecordDNS rng c now domain qtype upstream err)) = qQueries (dns c) + 1"
  by (auto simp: RecordDNS_def Let_def split: option.splits)

lemma stats_cacheAndRecordIP [simp]: "stats (cacheAndRecordIP now domain key m s) = stats s"
  by (simp add: cacheAndRecordIP_def Let_def)

text \<open>Every query with a question is counted exactly once, whichever way it takes: from the cache, by
  either upstream, by the fallback from one to the other, synthesised, or failed.\<close>

theorem resolve_counts_once:
  assumes "stats s = Some c" and "Questions r \<noteq> []"
  shows "\<exists>c'. stats (snd (resolve rng n now r viaTCP s)) = Some c' \<and> qQueries (dns c') = qQueries (dns c) + 1"
  using assms(2)
proof (cases rule: resolve_cases [of r s now rng n viaTCP])
  case (answered up m)
  then show ?thesis using assms(1) by (auto simp: Let_def record_query_def qQueries_RecordDNS)
qed (use assms(1) in \<open>auto simp: record_query_def qQueries_RecordDNS\<close>)

theorem resolve_counts_once_witness:
  "\<exists>c'. stats (snd (resolve rev test_net 5 test_query True (test_server\<lparr>stats := Some (New_collector 100000000000 test_config)\<rparr>)))
     = Some c' \<and> qQueries (dns c') = 1"
proof -
  have "qQueries (dns (New_collector 100000000000 test_config)) = 0" by code_simp
  then show ?thesis
    using resolve_counts_once [of "test_server\<lparr>stats := Some (New_collector 100000000000 test_config)\<rparr>" _ test_query rev test_net 5 True]
    by (simp add: test_query_def)
qed

section \<open>Truncation\<close>

text \<open>A truncated answer reaches a client over TCP or DoH in exactly one way: the direct server
  truncates over UDP and sets the bit again on the answer to the retry over TCP, which is passed on
  unchecked.\<close>

theorem truncated_over_tcp:
  assumes "reply_ok n" and "dns_reach rng n s" and "fst (resolve rng n now r True s) = Inr m"
  shows "Truncated m \<longleftrightarrow>
    (\<exists>u t. exchange_udp n r = Some u \<and> Truncated u \<and> exchange_tcp n r = Some t \<and> responseMatchesQuery r t
       \<and> m = t\<lparr>msgId := msgId r\<rparr> \<and> Truncated t)"
proof
  have ne: "Questions r \<noteq> []" using assms(3) by (auto simp: resolve_def)
  assume tr: "Truncated m"
  from ne show "\<exists>u t. exchange_udp n r = Some u \<and> Truncated u \<and> exchange_tcp n r = Some t \<and> responseMatchesQuery r t
       \<and> m = t\<lparr>msgId := msgId r\<rparr> \<and> Truncated t"
  proof (cases rule: resolve_cases [of r s now rng n True])
    case (hit e)
    then have "entry_ok (key_of r) e" using dns_reach_cache [OF assms(2,1)] by (simp add: cache_ok_def)
    then show ?thesis
      using hit(3) assms(3) tr by (auto simp: entry_ok_def ageRRsTTL_def map_RRs_def Let_def)
  next
    case (failed up e)
    then show ?thesis using assms(3) by simp
  next
    case (answered up m')
    have e: "\<not> Truncated (SetReply n r)" using assms(1) ne by (simp add: reply_ok_def Let_def)
    have h: "\<not> Truncated x" if "resolveDoH n r = Inr x" for x
      using that by (auto simp: resolveDoH_def Let_def split: option.splits if_splits)
    have m: "m = m'\<lparr>msgId := msgId r\<rparr>" using answered(2) assms(3) by simp
    then have "resolveDirect n r True = Inr m'"
      using answered(1) tr e h
      by (auto simp: route_query_def emptyReply_def Let_def split: sum.splits option.splits if_splits)
    then show ?thesis
      using tr m by (auto simp: resolveDirect_def split: option.splits if_splits)
  qed
qed auto

theorem truncated_over_tcp_witness:
  "let n = test_net\<lparr>exchange_tcp := exchange_udp test_net\<rparr>
   in \<exists>m. fst (resolve rev n 5 test_query True test_server) = Inr m \<and> Truncated m"
proof -
  define n where "n = test_net\<lparr>exchange_tcp := exchange_udp test_net\<rparr>"
  define m where "m = (test_answer test_query)\<lparr>Truncated := True\<rparr>"
  have rep: "reply_ok n" using test_net_reply by (simp add: reply_ok_def n_def)
  have ex: "exchange_udp n test_query = Some m" "exchange_tcp n test_query = Some m" "Pack n test_query = Some []"
    "doh_post n [] = None" by (simp_all add: n_def m_def test_net_def)
  have mt: "responseMatchesQuery test_query m" by (simp add: m_def test_net_matches)
  have tm: "Truncated m" "m\<lparr>msgId := msgId test_query\<rparr> = m" by (simp_all add: m_def test_answer_def)
  have reach: "dns_reach rev n test_server" by (rule dns_reach.fresh) (simp add: test_server_def)
  have rq: "route_query n s test_query qn (hd (Questions test_query)) True = (''direct'', Inr m)"
    if "router s = None" "enableIPv6 s" for s qn
    using that by (simp add: route_query_def resolveDoH_def resolveDirect_def ex mt tm Let_def)
  have "Questions test_query \<noteq> []" by (simp add: test_query_def)
  then have r: "fst (resolve rev n 5 test_query True test_server) = Inr m"
    by (cases rule: resolve_cases [of test_query test_server 5 rev n True])
      (use rq tm in \<open>simp_all add: test_server_def\<close>)
  from truncated_over_tcp [OF rep reach r] have "Truncated m" using ex mt tm by simp
  then show ?thesis using r unfolding n_def [symmetric] Let_def by blast
qed

section \<open>Reverse lookups\<close>

lemma learn_ips:
  assumes "rr \<in> set rrs" "rrData rr = A_rr ip"
  shows "fold (learn_ip domain now) rrs m (IP_String ip) = Some \<lparr>imDomain = domain, imExpires = now + ipMappingTTL\<rparr>"
proof -
  have keep: "fold (learn_ip domain now) rrs m k = Some \<lparr>imDomain = domain, imExpires = now + ipMappingTTL\<rparr>"
    if "m k = Some \<lparr>imDomain = domain, imExpires = now + ipMappingTTL\<rparr>" for rrs m k
    using that by (induction rrs arbitrary: m) (auto simp: learn_ip_def Let_def split: RData.splits)
  show ?thesis using assms
    by (induction rrs arbitrary: m) (auto simp: keep learn_ip_def [of _ _ _ _] Let_def)
qed

text \<open>A connection to an address can be traced to the name it was resolved from: after an answer with
  an A record is recorded, a lookup of that address, however it is spelled, returns the queried name
  until the mapping expires.\<close>

theorem lookup_learned:
  assumes "Rcode msg = RcodeSuccess" and "rr \<in> set (Answer msg)" and "rrData rr = A_rr ip" and "length ip = 4"
    and "ParseIP text = Some p" and "To4 p = Some ip" and "now' \<le> now + ipMappingTTL"
  shows "fst (LookupDomainByIP now' text (cacheAndRecordIP now domain key msg s)) = Some domain"
proof -
  have "ipToDomain (cacheAndRecordIP now domain key msg s) = fold (learn_ip domain now) (Answer msg) (ipToDomain s)"
    using assms(1,2) by (auto simp: cacheAndRecordIP_def Let_def)
  then show ?thesis
    using learn_ips [OF assms(2,3)] assms(5-7) by (simp add: LookupDomainByIP_def Let_def)
qed

theorem lookup_learned_witness:
  "fst (LookupDomainByIP 9 ''1.2.3.4'' (cacheAndRecordIP 5 ''a.example'' ''k'' (test_answer test_query) test_server))
     = Some ''a.example''"
proof -
  have "v4_String [1, 2, 3, 4] = ''1.2.3.4''" by code_simp
  then have p: "ParseIP ''1.2.3.4'' = Some (v4InV6Prefix @ [1, 2, 3, 4])"
    using ParseIP_v4_String [of "[1, 2, 3, 4]"] by simp
  show ?thesis
    by (rule lookup_learned [OF _ _ _ _ p, of _ "\<lparr>rrType = 1, rrTtl = 60, rrData = A_rr [1, 2, 3, 4]\<rparr>" "[1, 2, 3, 4]"])
      (simp_all add: test_answer_def RcodeSuccess_def ipMappingTTL_def)
qed

end
