(* ===== verification/Go_Addr6.thy ===== *)
theory Go_Addr6
  imports Go_Net
begin

text \<open>
  The text of an IPv6 address reads back as the address: \<^verbatim>\<open>net.ParseIP\<close> inverts \<^verbatim>\<open>IP.String\<close> on every
  16-byte address, with the groups printed without leading zeros and the first longest run of zero
  groups replaced by an ellipsis.
\<close>

section \<open>Groups\<close>

definition group_bytes :: "nat list \<Rightarrow> IP" where
  "group_bytes gs = concat (map (\<lambda>g. [of_nat (g div 256), of_nat (g mod 256)]) gs)"

lemma group_bytes_simps [simp]:
  "group_bytes [] = []"
  "group_bytes (g # gs) = of_nat (g div 256) # of_nat (g mod 256) # group_bytes gs"
  "group_bytes (gs @ hs) = group_bytes gs @ group_bytes hs"
  by (simp_all add: group_bytes_def)

lemma length_group_bytes [simp]: "length (group_bytes gs) = 2 * length gs"
  by (induction gs) simp_all

lemma group_bytes_zero [simp]: "group_bytes (replicate k 0) = replicate (2 * k) 0"
  by (induction k) simp_all

lemma group_bytes_groups: "even (length ip) \<Longrightarrow> group_bytes (v6_groups ip) = ip"
proof (induction ip rule: v6_groups.induct)
  case (1 a b r)
  have "unat a < 256" "unat b < 256"
    using unsigned_less [of a, where ?'a = nat] unsigned_less [of b, where ?'a = nat] by simp_all
  then show ?case using 1 by simp
qed simp_all

lemma v6_groups_bound: "g \<in> set (v6_groups ip) \<Longrightarrow> g < 65536"
proof (induction ip rule: v6_groups.induct)
  case (1 a b r)
  have "unat a < 256" "unat b < 256"
    using unsigned_less [of a, where ?'a = nat] unsigned_less [of b, where ?'a = nat] by simp_all
  then show ?case using 1 by auto
qed simp_all

lemma length_v6_groups: "length (v6_groups ip) = length ip div 2"
  by (induction ip rule: v6_groups.induct) simp_all

section \<open>Hexadecimal digits\<close>

lemma hex_char_val: "n < 16 \<Longrightarrow> is_hex (hex_char n) \<and> hex_val (hex_char n) = n"
proof (cases "n < 10")
  case True
  then have "char_code (hex_char n) = 48 + n" by (simp add: hex_char_def digit_char_def char_code_def)
  then show ?thesis using True by (simp add: is_hex_def is_digit_def hex_val_def)
next
  case False
  assume "n < 16"
  with False have "char_code (hex_char n) = 87 + n" by (simp add: hex_char_def char_code_def)
  then show ?thesis using False \<open>n < 16\<close> by (simp add: is_hex_def is_digit_def hex_val_def)
qed

lemma hex_digits_hex: "list_all is_hex (hex_digits n)"
proof (induction n rule: hex_digits.induct)
  case (1 n)
  then show ?case using hex_char_val by (simp add: hex_digits.simps [of n])
qed

lemma hex_digits_ne [simp]: "hex_digits n \<noteq> []"
  by (simp add: hex_digits.simps [of n])

lemma hex_value_digits [simp]: "hex_value (hex_digits n) = n"
proof (induction n rule: hex_digits.induct)
  case (1 n)
  show ?case
  proof (cases "n < 16")
    case True
    then show ?thesis using hex_char_val [OF True] by (simp add: hex_digits.simps [of n] hex_value_def)
  next
    case False
    then show ?thesis
      using 1 [OF False] hex_char_val [of "n mod 16"] by (simp add: hex_digits.simps [of n] hex_value_def)
  qed
qed

lemma length_hex_digits: "0 < k \<Longrightarrow> n < 16 ^ k \<Longrightarrow> length (hex_digits n) \<le> k"
proof (induction k arbitrary: n)
  case (Suc k)
  show ?case
  proof (cases "n < 16")
    case False
    then have "0 < k" using Suc.prems by (cases k) simp_all
    moreover have "n div 16 < 16 ^ k" using Suc.prems by (simp add: less_mult_imp_div_less mult.commute)
    ultimately have "length (hex_digits (n div 16)) \<le> k" by (rule Suc.IH)
    then show ?thesis using False by (simp add: hex_digits.simps [of n])
  qed (simp add: hex_digits.simps [of n])
qed simp

lemma length_hex_group: "g < 65536 \<Longrightarrow> length (hex_digits g) \<le> 4"
  using length_hex_digits [of 4 g] by simp

lemma hex_group_only [simp]:
  "takeWhile is_hex (hex_digits g) = hex_digits g" "dropWhile is_hex (hex_digits g) = []"
  using hex_digits_hex [of g] by (simp_all add: list_all_iff takeWhile_eq_all_conv dropWhile_eq_Nil_conv)

lemma hex_group_split [simp]:
  assumes "\<not> is_hex c"
  shows "takeWhile is_hex (hex_digits g @ c # r) = hex_digits g" "dropWhile is_hex (hex_digits g @ c # r) = c # r"
  using hex_digits_hex [of g] assms by (auto simp: list_all_iff takeWhile_append dropWhile_append)

lemma colon_not_hex [simp]: "\<not> is_hex CHR '':''" "\<not> is_hex CHR ''%''" "\<not> is_hex CHR ''.''"
  by (simp_all add: is_hex_def is_digit_def char_code_def)

definition groups_text :: "nat list \<Rightarrow> string" where
  "groups_text gs = join_colon (map hex_digits gs)"

lemma groups_text_simps [simp]:
  "groups_text [] = []" "groups_text [g] = hex_digits g"
  "groups_text (g # h # gs) = hex_digits g @ CHR '':'' # groups_text (h # gs)"
  by (simp_all add: groups_text_def)

lemma groups_text_hd:
  assumes "gs \<noteq> []"
  shows "groups_text gs \<noteq> []" "is_hex (hd (groups_text gs))" "hd (groups_text gs) \<noteq> CHR '':''"
proof -
  obtain g gs' where g: "gs = g # gs'" using assms by (cases gs) auto
  have "is_hex (hd (hex_digits g))" using hex_digits_hex [of g] by (simp add: list_all_iff)
  then show "is_hex (hd (groups_text gs))" by (cases gs') (simp_all add: g)
  then show "hd (groups_text gs) \<noteq> CHR '':''" by (metis colon_not_hex(1))
  show "groups_text gs \<noteq> []" by (cases gs') (simp_all add: g)
qed

lemma set_groups_text: "c \<in> set (groups_text gs) \<Longrightarrow> is_hex c \<or> c = CHR '':''"
proof (induction gs)
  case (Cons g gs)
  have "d \<in> set (hex_digits g) \<Longrightarrow> is_hex d" for d using hex_digits_hex [of g] by (simp add: list_all_iff)
  then show ?case using Cons by (cases gs) auto
qed simp

section \<open>The loop of the parser on printed groups\<close>

lemma v6_loop_groups:
  assumes "gs \<noteq> []" "\<forall>g \<in> set gs. g < 65536" "length ip + 2 * length gs \<le> 16"
  shows "v6_loop (groups_text gs) ip ell = Some ([], ip @ group_bytes gs, ell)"
  using assms
proof (induction gs arbitrary: ip)
  case (Cons g gs)
  have len: "length ip < 16" and g: "length (hex_digits g) \<le> 4"
    using Cons.prems by (simp_all add: length_hex_group)
  let ?ip = "ip @ [of_nat (g div 256), of_nat (g mod 256)]"
  show ?case
  proof (cases gs)
    case Nil
    then show ?thesis
      using len g by (simp add: v6_loop.simps [of "hex_digits g" ip ell] Let_def)
  next
    case (Cons h hs)
    have t: "groups_text gs \<noteq> []" "hd (groups_text gs) \<noteq> CHR '':''" using groups_text_hd [of gs] Cons by simp_all
    have "v6_loop (hex_digits g @ CHR '':'' # groups_text gs) ip ell = v6_loop (groups_text gs) ?ip ell"
      using len g t
      by (simp add: v6_loop.simps [of "hex_digits g @ _" ip ell] Let_def)
    moreover have "v6_loop (groups_text gs) ?ip ell = Some ([], ?ip @ group_bytes gs, ell)"
      by (rule Cons.IH) (use Cons.prems \<open>gs = h # hs\<close> in auto)
    ultimately show ?thesis using Cons by simp
  qed
qed simp

lemma v6_loop_ellipsis:
  assumes "gs \<noteq> []" "\<forall>g \<in> set gs. g < 65536" "length ip + 2 * length gs \<le> 14"
  shows "v6_loop (groups_text gs @ ''::'' @ t) ip None =
    (let ip' = ip @ group_bytes gs in
     if t = [] then Some ([], ip', Some (length ip')) else v6_loop t ip' (Some (length ip')))"
  using assms
proof (induction gs arbitrary: ip)
  case (Cons g gs)
  have len: "length ip < 16" and g: "length (hex_digits g) \<le> 4"
    using Cons.prems by (simp_all add: length_hex_group)
  let ?ip = "ip @ [of_nat (g div 256), of_nat (g mod 256)]"
  show ?case
  proof (cases gs)
    case Nil
    then show ?thesis
      using len g
      by (simp add: v6_loop.simps [of "hex_digits g @ _" ip None] Let_def)
  next
    case (Cons h hs)
    have t: "groups_text gs \<noteq> []" "hd (groups_text gs) \<noteq> CHR '':''" using groups_text_hd [of gs] Cons by simp_all
    have "v6_loop (hex_digits g @ CHR '':'' # groups_text gs @ ''::'' @ t) ip None
        = v6_loop (groups_text gs @ ''::'' @ t) ?ip None"
      using len g t
      by (simp add: v6_loop.simps [of "hex_digits g @ _" ip None] Let_def)
    moreover have "v6_loop (groups_text gs @ ''::'' @ t) ?ip None =
      (let ip' = ?ip @ group_bytes gs in
       if t = [] then Some ([], ip', Some (length ip')) else v6_loop t ip' (Some (length ip')))"
      by (rule Cons.IH) (use Cons.prems \<open>gs = h # hs\<close> in auto)
    ultimately show ?thesis using Cons by simp
  qed
qed simp

section \<open>The run of zeros\<close>

definition zero_block :: "nat list \<Rightarrow> nat \<times> nat \<Rightarrow> bool" where
  "zero_block gs p \<longleftrightarrow> snd p = 0 \<or> 2 \<le> snd p \<and> gs = take (fst p) gs @ replicate (snd p) 0 @ drop (fst p + snd p) gs
     \<and> fst p + snd p \<le> length gs"

lemma zero_run_block: "i < length gs \<Longrightarrow> 2 \<le> zero_run gs i \<Longrightarrow> zero_block gs (i, zero_run gs i)"
proof -
  assume i: "i < length gs" and two: "2 \<le> zero_run gs i"
  let ?d = "drop i gs"
  have "takeWhile (\<lambda>g. g = 0) ?d = replicate (zero_run gs i) 0"
    unfolding zero_run_def by (rule replicate_eqI) (auto dest: set_takeWhileD)
  moreover have "takeWhile (\<lambda>g. g = 0) ?d = take (zero_run gs i) ?d"
    unfolding zero_run_def by (rule takeWhile_eq_take)
  ultimately have z: "take (zero_run gs i) ?d = replicate (zero_run gs i) 0" by simp
  have "gs = take i gs @ take (zero_run gs i) ?d @ drop (zero_run gs i) ?d"
    by (simp only: append_take_drop_id)
  then have "gs = take i gs @ replicate (zero_run gs i) 0 @ drop (i + zero_run gs i) gs"
    unfolding z by (simp add: add.commute)
  moreover have "zero_run gs i \<le> length ?d" unfolding zero_run_def by (rule length_takeWhile_le)
  ultimately show ?thesis using i two by (simp add: zero_block_def)
qed

lemma longest_zero_run_block: "zero_block gs (longest_zero_run gs)"
proof -
  have "zero_block gs (foldl (\<lambda>(st, l) i. if 2 \<le> zero_run gs i \<and> l < zero_run gs i then (i, zero_run gs i) else (st, l)) p is)"
    if "zero_block gs p" "set is \<subseteq> {..<length gs}" for p "is"
    using that
  proof (induction "is" arbitrary: p)
    case (Cons i "is")
    show ?case unfolding foldl_Cons
      by (rule Cons.IH) (use Cons.prems zero_run_block in \<open>auto split: prod.splits\<close>)
  qed simp
  moreover have "zero_block gs (0, 0)" by (simp add: zero_block_def)
  ultimately show ?thesis unfolding longest_zero_run_def by (auto simp: lessThan_atLeast0)
qed

section \<open>The round trip\<close>

lemma v6_String_text:
  obtains (plain) "v6_String ip = groups_text (v6_groups ip)"
  | (ellipsis) ls k rs where "v6_groups ip = ls @ replicate k 0 @ rs" "2 \<le> k"
      "v6_String ip = groups_text ls @ ''::'' @ groups_text rs"
proof -
  obtain st l where p: "longest_zero_run (v6_groups ip) = (st, l)" by (cases "longest_zero_run (v6_groups ip)")
  show ?thesis
  proof (cases "l = 0")
    case True
    then show ?thesis using plain p by (simp add: v6_String_def groups_text_def)
  next
    case False
    then have "v6_groups ip = take st (v6_groups ip) @ replicate l 0 @ drop (st + l) (v6_groups ip)" "2 \<le> l"
      using longest_zero_run_block [of "v6_groups ip"] by (simp_all add: p zero_block_def)
    moreover have "v6_String ip = groups_text (take st (v6_groups ip)) @ ''::'' @ groups_text (drop (st + l) (v6_groups ip))"
      using False p by (simp add: v6_String_def groups_text_def Let_def)
    ultimately show ?thesis by (rule ellipsis)
  qed
qed

lemma set_v6_String: "c \<in> set (v6_String ip) \<Longrightarrow> is_hex c \<or> c = CHR '':''"
  by (cases ip rule: v6_String_text) (auto dest: set_groups_text)

lemma v6_String_colon: "length ip = 16 \<Longrightarrow> CHR '':'' \<in> set (v6_String ip)"
proof (cases ip rule: v6_String_text)
  case plain
  assume "length ip = 16"
  then have "length (v6_groups ip) = 8" by (simp add: length_v6_groups)
  then obtain g h gs where "v6_groups ip = g # h # gs" by (auto simp: numeral_eq_Suc length_Suc_conv)
  then show ?thesis using plain by simp
qed auto

lemma parseIPv6_v6_String:
  assumes len: "length ip = 16"
  shows "parseIPv6 (v6_String ip) = Some ip"
proof -
  have bound: "\<forall>g \<in> set (v6_groups ip). g < 65536" using v6_groups_bound by blast
  have n8: "length (v6_groups ip) = 8" using len by (simp add: length_v6_groups)
  have bytes: "group_bytes (v6_groups ip) = ip" using len by (simp add: group_bytes_groups)
  have pc: "CHR ''%'' \<notin> set (v6_String ip)" using set_v6_String [of "CHR ''%''" ip] by auto
  show ?thesis
  proof (cases ip rule: v6_String_text)
    case plain
    have "v6_groups ip \<noteq> []" using n8 by auto
    then have "\<not> HasPrefix (v6_String ip) ''::''"
      using groups_text_hd [of "v6_groups ip"] plain by (cases "groups_text (v6_groups ip)") (auto simp: HasPrefix_def)
    then show ?thesis
      using v6_loop_groups [of "v6_groups ip" "[]" None] \<open>v6_groups ip \<noteq> []\<close> bound n8 pc plain len
      by (simp add: parseIPv6_def bytes v6_finish_def)
  next
    case (ellipsis ls k rs)
    have ip: "ip = group_bytes ls @ replicate (2 * k) 0 @ group_bytes rs"
      using bytes by (simp add: ellipsis(1))
    have n: "length ls + k + length rs = 8" using n8 by (simp add: ellipsis(1))
    have b: "\<forall>g \<in> set ls. g < 65536" "\<forall>g \<in> set rs. g < 65536" using bound by (auto simp: ellipsis(1))
    have rep: "16 - (2 * length ls + 2 * length rs) = 2 * k" using n by simp
    let ?rest = "if rs = [] then Some ([], group_bytes ls, Some (2 * length ls))
      else v6_loop (groups_text rs) (group_bytes ls) (Some (2 * length ls))"
    have rest: "?rest = Some ([], group_bytes ls @ group_bytes rs, Some (2 * length ls))"
      using v6_loop_groups [of rs "group_bytes ls" "Some (2 * length ls)"] b n ellipsis(2) by simp
    have fin: "v6_finish ([], group_bytes ls @ group_bytes rs, Some (2 * length ls)) = Some ip"
      using n ellipsis(2) rep by (simp add: v6_finish_def ip)
    show ?thesis
    proof (cases ls)
      case Nil
      have s: "v6_String ip = ''::'' @ groups_text rs" using ellipsis(3) Nil by simp
      show ?thesis
      proof (cases "rs = []")
        case True
        then have "2 * k = 16" using n Nil by simp
        then show ?thesis using True Nil s pc ip by (simp add: parseIPv6_def HasPrefix_def)
      next
        case False
        then have "groups_text rs \<noteq> []" by (rule groups_text_hd)
        then show ?thesis using rest fin False Nil s pc by (simp add: parseIPv6_def HasPrefix_def)
      qed
    next
      case (Cons g gs)
      have ne: "ls \<noteq> []" using Cons by simp
      have "\<not> HasPrefix (v6_String ip) ''::''"
        using groups_text_hd [OF ne] ellipsis(3) by (cases "groups_text ls") (auto simp: HasPrefix_def)
      moreover have "groups_text rs = [] \<longleftrightarrow> rs = []" using groups_text_hd(1) by auto
      then have "v6_loop (v6_String ip) [] None = ?rest"
        using v6_loop_ellipsis [OF ne b(1), of "[]" "groups_text rs"] n ellipsis(2,3) by simp
      ultimately show ?thesis using rest fin pc by (simp add: parseIPv6_def)
    qed
  qed
qed

lemma ParseAddr_v6_String:
  assumes "length ip = 16"
  shows "ParseAddr (v6_String ip) = Some ip"
proof -
  let ?d = "dropWhile (\<lambda>c. c \<notin> set ''.:%'') (v6_String ip)"
  have "?d \<noteq> []" using v6_String_colon [OF assms] by (auto simp: dropWhile_eq_Nil_conv)
  then obtain c r where c: "?d = c # r" by (cases ?d) auto
  then have "c \<in> set ''.:%''" "c \<in> set (v6_String ip)"
    by (metis hd_dropWhile list.sel(1) list.discI, metis list.set_intros(1) set_dropWhileD)
  then have "c = CHR '':''" using set_v6_String [of c ip] by auto
  with c show ?thesis by (simp add: ParseAddr_def parseIPv6_v6_String assms)
qed

lemma ParseIP_IP_String:
  assumes "length ip = 16"
  shows "ParseIP (IP_String ip) = Some ip"
proof (cases "To4 ip")
  case None
  then show ?thesis using assms by (simp add: IP_String_def ParseIP_def ParseAddr_v6_String As16_def)
next
  case (Some v4)
  then have "take 12 ip = v4InV6Prefix" "drop 12 ip = v4"
    using assms by (simp_all add: To4_def split: if_splits)
  then have "ip = v4InV6Prefix @ v4" using append_take_drop_id [of 12 ip] by (simp only:)
  then show ?thesis using Some length_To4 [OF Some] by (simp add: IP_String_def ParseIP_v4_String)
qed

lemma ParseIP_IP_String4: "length ip = 4 \<Longrightarrow> ParseIP (IP_String ip) = Some (v4InV6Prefix @ ip)"
  by (simp add: IP_String_def ParseIP_v4_String)

end
