(* ===== verification/Proxy_Addr.thy ===== *)
theory Proxy_Addr
  imports Go_Addr6
begin

text \<open>
  \<^verbatim>\<open>core/proxy/addr.go\<close>: the canonical spelling of hosts, the choice of the address family of UDP
  sockets, and the registry of the direct UDP sessions of one association.

  A \<^verbatim>\<open>net.Addr\<close> is its text, \<open>None\<close> when nil. The operating system is the argument \<open>udp_env\<close>, which
  decides whether a socket can be bound and what a target resolves to, and may differ from call to
  call; the table of open sockets is threaded through. The lemmas show that the canonical text of an
  address denotes the address and splits off a dial address again, and that the registry stays within
  its cap, never resolves a target twice and closes every socket it opened.
\<close>

section \<open>Hosts\<close>

definition unbracket :: "string \<Rightarrow> string" where
  "unbracket host0 =
     (let host = TrimSpace host0 in
      if 2 \<le> length host \<and> hd host = CHR ''['' \<and> last host = CHR '']'' then butlast (tl host) else host)"

definition canonicalHost :: "string \<Rightarrow> string" where
  "canonicalHost host0 =
     (let host = unbracket host0 in
      case ParseIP host of
        None \<Rightarrow> host
      | Some ip \<Rightarrow> (case To4 ip of Some v4 \<Rightarrow> IP_String v4 | None \<Rightarrow> IP_String ip))"

definition isIPv6Literal :: "string \<Rightarrow> bool" where
  "isIPv6Literal host \<longleftrightarrow> (case ParseIP (unbracket host) of None \<Rightarrow> False | Some ip \<Rightarrow> To4 ip = None)"

definition joinDialAddr :: "string \<Rightarrow> int \<Rightarrow> string" where
  "joinDialAddr host port = JoinHostPort (canonicalHost host) (Itoa port)"

definition addrString :: "string option \<Rightarrow> string" where
  "addrString a = (case a of None \<Rightarrow> [] | Some s \<Rightarrow> s)"

definition addrIP :: "string option \<Rightarrow> IP option" where
  "addrIP a =
     (case a of
        None \<Rightarrow> None
      | Some s \<Rightarrow> (case SplitHostPort s of None \<Rightarrow> ParseIP s | Some (host, _) \<Rightarrow> ParseIP host))"

section \<open>Sockets\<close>

record UDPAddr =
  uaIP :: IP
  uaPort :: int

record fdtable =
  nextFd :: nat
  openFds :: "nat list"

record udp_env =
  can_listen :: "string \<Rightarrow> IP option \<Rightarrow> bool"
  bound_port :: "nat \<Rightarrow> int"
  ResolveUDPAddr :: "string \<Rightarrow> UDPAddr option"

definition IPv4zero :: IP where "IPv4zero = v4InV6Prefix @ [0, 0, 0, 0]"
definition IPv6unspecified :: IP where "IPv6unspecified = replicate 16 0"

definition ListenUDP :: "udp_env \<Rightarrow> string \<Rightarrow> IP option \<Rightarrow> fdtable \<Rightarrow> nat option \<times> fdtable" where
  "ListenUDP e network ip t =
     (if can_listen e network ip
      then (Some (nextFd t), t\<lparr>nextFd := nextFd t + 1, openFds := nextFd t # openFds t\<rparr>) else (None, t))"

definition close_fd :: "nat \<Rightarrow> fdtable \<Rightarrow> fdtable" where
  "close_fd fd t = t\<lparr>openFds := removeAll fd (openFds t)\<rparr>"

definition listenUDPFor :: "udp_env \<Rightarrow> string \<Rightarrow> fdtable \<Rightarrow> nat option \<times> fdtable" where
  "listenUDPFor e host t =
     (case ParseIP (canonicalHost host) of
        Some ip \<Rightarrow> if To4 ip = None then ListenUDP e ''udp6'' (Some IPv6unspecified) t else ListenUDP e ''udp'' None t
      | None \<Rightarrow> ListenUDP e ''udp'' None t)"

definition is_v6 :: "IP option \<Rightarrow> bool" where
  "is_v6 a \<longleftrightarrow> (case a of None \<Rightarrow> False | Some ip \<Rightarrow> To4 ip = None)"

definition relay_ipv6 :: "string option \<Rightarrow> string option \<Rightarrow> bool" where
  "relay_ipv6 localAddr remoteAddr \<longleftrightarrow>
     (let loc = addrIP localAddr; remote = addrIP remoteAddr
      in if remote = None then is_v6 loc else is_v6 remote)"

definition relay_reply_ip :: "string option \<Rightarrow> bool \<Rightarrow> string" where
  "relay_reply_ip localAddr ipv6 =
     (let loc = addrIP localAddr in
      if ipv6 then
        (case loc of
           None \<Rightarrow> ''::1''
         | Some ip \<Rightarrow> if To4 ip = None \<and> \<not> IsUnspecified ip then IP_String ip else ''::1'')
      else
        (case loc of
           None \<Rightarrow> ''127.0.0.1''
         | Some ip \<Rightarrow> (case To4 ip of
                        None \<Rightarrow> ''127.0.0.1''
                      | Some v4 \<Rightarrow> if IsUnspecified v4 then ''127.0.0.1'' else IP_String v4)))"

definition listenClientUDPRelay ::
  "udp_env \<Rightarrow> string option \<Rightarrow> string option \<Rightarrow> fdtable \<Rightarrow> (nat \<times> string) option \<times> fdtable" where
  "listenClientUDPRelay e localAddr remoteAddr t =
     (let ipv6 = relay_ipv6 localAddr remoteAddr;
          (conn, t) = (if ipv6 then ListenUDP e ''udp6'' (Some IPv6unspecified) t
                       else ListenUDP e ''udp4'' (Some IPv4zero) t)
      in case conn of
           None \<Rightarrow> (None, t)
         | Some fd \<Rightarrow> (Some (fd, JoinHostPort (relay_reply_ip localAddr ipv6) (Itoa (bound_port e fd))), t))"

definition sameUDPAddr :: "UDPAddr option \<Rightarrow> UDPAddr option \<Rightarrow> bool" where
  "sameUDPAddr a b \<longleftrightarrow>
     (case (a, b) of
        (Some a, Some b) \<Rightarrow> uaPort a = uaPort b \<and> IP_Equal (uaIP a) (uaIP b)
      | (None, None) \<Rightarrow> True
      | _ \<Rightarrow> False)"

section \<open>The registry of direct sessions\<close>

definition maxDirectUDPSessions :: nat where "maxDirectUDPSessions = 256"

record directUDPSession =
  dsConn :: nat
  dsAddr :: UDPAddr

type_synonym directUDPRegistry = "(string \<times> directUDPSession) list"

definition newDirectUDPRegistry :: directUDPRegistry where
  "newDirectUDPRegistry = []"

datatype udp_error = TooManySessions | ResolveFailed | ListenFailed

definition registry_get ::
  "udp_env \<Rightarrow> string \<Rightarrow> directUDPRegistry \<times> fdtable \<Rightarrow> (udp_error + directUDPSession \<times> bool) \<times> directUDPRegistry \<times> fdtable" where
  "registry_get e targetAddr rt =
     (case rt of (r, t) \<Rightarrow>
        case map_of r targetAddr of
          Some s \<Rightarrow> (Inr (s, False), r, t)
        | None \<Rightarrow>
            if maxDirectUDPSessions \<le> length r then (Inl TooManySessions, r, t)
            else case ResolveUDPAddr e targetAddr of
                   None \<Rightarrow> (Inl ResolveFailed, r, t)
                 | Some addr \<Rightarrow>
                     (case listenUDPFor e (IP_String (uaIP addr)) t of
                        (None, t) \<Rightarrow> (Inl ListenFailed, r, t)
                      | (Some c, t) \<Rightarrow>
                          let sess = \<lparr>dsConn = c, dsAddr = addr\<rparr>
                          in (Inr (sess, True), (targetAddr, sess) # r, t)))"

definition registry_closeAll :: "directUDPRegistry \<times> fdtable \<Rightarrow> directUDPRegistry \<times> fdtable" where
  "registry_closeAll rt = (case rt of (r, t) \<Rightarrow> ([], fold (\<lambda>(_, s). close_fd (dsConn s)) r t))"

section \<open>Canonical hosts\<close>

lemma is_hex_not_space: "is_hex c \<Longrightarrow> \<not> is_space c \<and> c \<noteq> CHR ''[''"
  by (auto simp: is_hex_def is_space_def is_digit_def char_code_def)

lemma IP_String_chars:
  assumes "length ip = 4 \<or> length ip = 16" "c \<in> set (IP_String ip)"
  shows "is_hex c \<or> c = CHR '':'' \<or> c = CHR ''.''"
proof (cases "To4 ip")
  case None
  then show ?thesis using assms(2) set_v6_String [of c ip] by (auto simp: IP_String_def)
next
  case (Some v4)
  then show ?thesis
    using assms(2) set_v4_String [OF length_To4 [OF Some], of c] by (auto simp: IP_String_def is_hex_def)
qed

lemma unbracket_id:
  assumes "s \<noteq> []" "\<forall>c \<in> set s. \<not> is_space c \<and> c \<noteq> CHR ''[''"
  shows "unbracket s = s"
proof -
  have "TrimSpace s = s" unfolding TrimSpace_def by (rule TrimFunc_id) (use assms in simp)
  then show ?thesis using assms by (simp add: unbracket_def)
qed


lemma ParseIP_text:
  assumes "ParseIP h = Some ip"
  defines "text \<equiv> (case To4 ip of Some v4 \<Rightarrow> IP_String v4 | None \<Rightarrow> IP_String ip)"
  shows "ParseIP text = Some ip" "text = IP_String ip"
proof -
  show t: "text = IP_String ip"
    unfolding text_def by (cases "To4 ip") (simp_all add: IP_String_def To4_idem)
  show "ParseIP text = Some ip" unfolding t by (rule ParseIP_IP_String) (rule length_ParseIP [OF assms(1)])
qed

lemma canonicalHost_ip: "ParseIP (unbracket h) = Some ip \<Longrightarrow> canonicalHost h = IP_String ip"
  using ParseIP_text(2) [of "unbracket h" ip] by (simp add: canonicalHost_def Let_def)

lemma canonicalHost_name: "ParseIP (unbracket h) = None \<Longrightarrow> canonicalHost h = unbracket h"
  by (simp add: canonicalHost_def)

lemma unbracket_IP_String:
  assumes "length ip = 16"
  shows "unbracket (IP_String ip) = IP_String ip"
proof (rule unbracket_id)
  show "IP_String ip \<noteq> []"
  proof
    assume "IP_String ip = []"
    then have "ParseIP [] = Some ip" using ParseIP_IP_String [OF assms] by simp
    then show False by (simp add: ParseIP_def ParseAddr_def)
  qed
  show "\<forall>c \<in> set (IP_String ip). \<not> is_space c \<and> c \<noteq> CHR ''[''"
    using IP_String_chars [of ip] is_hex_not_space assms by (fastforce simp: is_space_def char_code_def)
qed

text \<open>The canonical text of an address is its text in the library, denotes the same address and is canonical.\<close>

lemma canonicalHost_address:
  assumes "ParseIP (unbracket h) = Some ip"
  shows "canonicalHost h = IP_String ip" "ParseIP (canonicalHost h) = Some ip"
    "canonicalHost (canonicalHost h) = canonicalHost h" "isIPv6Literal (canonicalHost h) = isIPv6Literal h"
proof -
  have len: "length ip = 16" by (rule length_ParseIP [OF assms])
  show c: "canonicalHost h = IP_String ip" by (rule canonicalHost_ip [OF assms])
  have p: "ParseIP (unbracket (IP_String ip)) = Some ip"
    by (simp add: unbracket_IP_String len ParseIP_IP_String)
  show "ParseIP (canonicalHost h) = Some ip" using p by (simp add: c unbracket_IP_String len)
  show "canonicalHost (canonicalHost h) = canonicalHost h" using canonicalHost_ip [OF p] by (simp add: c)
  show "isIPv6Literal (canonicalHost h) = isIPv6Literal h" using p assms by (simp add: c isIPv6Literal_def)
qed

section \<open>Splitting what was joined\<close>

lemma LastIndexByte_append: "c \<notin> set q \<Longrightarrow> LastIndexByte (p @ c # q) c = Some (length p)"
  by (simp add: LastIndexByte_def IndexByte_append)

lemma SplitHostPort_JoinHostPort:
  assumes "CHR ''['' \<notin> set host" "CHR '']'' \<notin> set host"
    and "set port \<inter> {CHR '':'', CHR ''['', CHR '']''} = {}" and "host \<noteq> []"
  shows "SplitHostPort (JoinHostPort host port) = Some (host, port)"
proof (cases "CHR '':'' \<in> set host")
  case True
  have "LastIndexByte (''['' @ host @ '']:'' @ port) CHR '':'' = Some (length host + 2)"
    using LastIndexByte_append [of "CHR '':''" port "''['' @ host @ '']''"] assms(3) by simp
  moreover have "IndexByte (''['' @ host @ '']:'' @ port) CHR '']'' = Some (length host + 1)"
    using IndexByte_append [of "CHR '']''" "''['' @ host" "CHR '':'' # port"] assms(2) by simp
  ultimately show ?thesis
    using True assms by (simp add: SplitHostPort_def JoinHostPort_def)
next
  case False
  have "LastIndexByte (host @ '':'' @ port) CHR '':'' = Some (length host)"
    using LastIndexByte_append [of "CHR '':''" port host] assms(3) by simp
  moreover have "hd (host @ '':'' @ port) \<noteq> CHR ''[''" using assms(1,4) by (cases host) auto
  ultimately show ?thesis
    using False assms by (simp add: SplitHostPort_def JoinHostPort_def)
qed

lemma Itoa_chars: "c \<in> set (Itoa i) \<Longrightarrow> is_digit c \<or> c = CHR ''-''"
  using dec_digits_digits by (auto simp: Itoa_def list_all_iff split: if_splits)

lemma joinDialAddr_address:
  assumes "ParseIP (unbracket h) = Some ip"
  shows "SplitHostPort (joinDialAddr h port) = Some (IP_String ip, Itoa port)"
proof -
  have len: "length ip = 16" by (rule length_ParseIP [OF assms])
  have chars: "c \<in> set (IP_String ip) \<Longrightarrow> c \<noteq> CHR ''['' \<and> c \<noteq> CHR '']''" for c
    using IP_String_chars [of ip c] len by (auto simp: is_hex_def is_digit_def char_code_def)
  have "set (Itoa port) \<inter> {CHR '':'', CHR ''['', CHR '']''} = {}"
    using Itoa_chars [of "CHR '':''" port] Itoa_chars [of "CHR ''[''" port] Itoa_chars [of "CHR '']''" port]
    by (auto simp: is_digit_def char_code_def)
  moreover have "IP_String ip \<noteq> []" using unbracket_IP_String [OF len] ParseIP_IP_String [OF len] by (auto simp: ParseIP_def ParseAddr_def)
  ultimately show ?thesis
    using chars by (auto simp: joinDialAddr_def canonicalHost_ip [OF assms] intro!: SplitHostPort_JoinHostPort)
qed


section \<open>The registry\<close>

definition fds_of :: "directUDPRegistry \<Rightarrow> nat list" where
  "fds_of r = map (\<lambda>p. dsConn (snd p)) r"

definition fds_ok :: "fdtable \<Rightarrow> bool" where
  "fds_ok t \<longleftrightarrow> distinct (openFds t) \<and> (\<forall>fd \<in> set (openFds t). fd < nextFd t)"

definition registry_ok :: "directUDPRegistry \<times> fdtable \<Rightarrow> bool" where
  "registry_ok rt \<longleftrightarrow> (case rt of (r, t) \<Rightarrow> fds_ok t \<and> distinct (map fst r) \<and> length r \<le> maxDirectUDPSessions
     \<and> distinct (fds_of r) \<and> set (fds_of r) \<subseteq> set (openFds t))"

text \<open>The sockets that belong to someone else.\<close>

definition other_fds :: "directUDPRegistry \<times> fdtable \<Rightarrow> nat list" where
  "other_fds rt = (case rt of (r, t) \<Rightarrow> filter (\<lambda>fd. fd \<notin> set (fds_of r)) (openFds t))"

lemma listenUDPFor_cases:
  obtains (fail) "listenUDPFor e host t = (None, t)"
  | (bound) "listenUDPFor e host t = (Some (nextFd t), t\<lparr>nextFd := nextFd t + 1, openFds := nextFd t # openFds t\<rparr>)"
proof -
  have "listenUDPFor e host t = (None, t) \<or>
    listenUDPFor e host t = (Some (nextFd t), t\<lparr>nextFd := nextFd t + 1, openFds := nextFd t # openFds t\<rparr>)"
    by (simp add: listenUDPFor_def ListenUDP_def split: option.split)
  then show ?thesis using fail bound by blast
qed

lemma registry_get_cases:
  obtains (known) s where "map_of r a = Some s" "registry_get e a (r, t) = (Inr (s, False), r, t)"
  | (fail) err where "map_of r a = None" "registry_get e a (r, t) = (Inl err, r, t)"
  | (fresh) addr where "map_of r a = None" "length r < maxDirectUDPSessions"
      "registry_get e a (r, t) = (Inr (\<lparr>dsConn = nextFd t, dsAddr = addr\<rparr>, True),
         (a, \<lparr>dsConn = nextFd t, dsAddr = addr\<rparr>) # r, t\<lparr>nextFd := nextFd t + 1, openFds := nextFd t # openFds t\<rparr>)"
proof (cases "map_of r a")
  case (Some s)
  then show ?thesis using known by (simp add: registry_get_def)
next
  case None
  show ?thesis
  proof (cases "maxDirectUDPSessions \<le> length r \<or> ResolveUDPAddr e a = None")
    case True
    then have "registry_get e a (r, t) = (Inl (if maxDirectUDPSessions \<le> length r then TooManySessions else ResolveFailed), r, t)"
      using None by (auto simp: registry_get_def)
    then show ?thesis using None fail by blast
  next
    case False
    then obtain addr where "ResolveUDPAddr e a = Some addr" by auto
    then show ?thesis
      using None False fail fresh
      by (cases rule: listenUDPFor_cases [of e "IP_String (uaIP addr)" t]) (auto simp: registry_get_def Let_def)
  qed
qed

lemma registry_get_keeps:
  assumes "registry_ok (r, t)"
  shows "registry_ok (snd (registry_get e a (r, t))) \<and> other_fds (snd (registry_get e a (r, t))) = other_fds (r, t)
    \<and> (map_of r \<subseteq>\<^sub>m map_of (fst (snd (registry_get e a (r, t)))))"
proof (cases rule: registry_get_cases [of r a e t])
  case (fresh addr)
  have new: "nextFd t \<notin> set (openFds t)" using assms by (auto simp: registry_ok_def fds_ok_def)
  then have new': "nextFd t \<notin> set (fds_of r)" using assms by (auto simp: registry_ok_def)
  have "a \<notin> fst ` set r" using fresh(1) by (metis map_of_eq_None_iff)
  then show ?thesis
    using assms new new' fresh
    by (auto simp: registry_ok_def other_fds_def fds_of_def fds_ok_def map_le_def less_Suc_eq intro!: filter_cong)
qed (use assms in auto)

lemma registry_get_known: "map_of r a = Some s \<Longrightarrow> registry_get e a (r, t) = (Inr (s, False), r, t)"
  by (simp add: registry_get_def)

lemma openFds_closeAll: "openFds (snd (registry_closeAll rt)) = other_fds rt"
proof -
  have "openFds (fold (\<lambda>(_, s). close_fd (dsConn s)) r t) = filter (\<lambda>fd. fd \<notin> set (fds_of r)) (openFds t)" for r t
  proof (induction r arbitrary: t)
    case (Cons p r)
    show ?case
      by (cases p, simp only: fold.simps o_apply prod.case Cons.IH)
        (simp add: close_fd_def fds_of_def removeAll_filter_not_eq conj_commute, metis)
  qed (simp add: fds_of_def)
  then show ?thesis by (cases rt) (simp add: registry_closeAll_def other_fds_def)
qed

definition run_gets :: "(udp_env \<times> string) list \<Rightarrow> directUDPRegistry \<times> fdtable \<Rightarrow> directUDPRegistry \<times> fdtable" where
  "run_gets gs rt = fold (\<lambda>(e, a) rt. snd (registry_get e a rt)) gs rt"

lemma run_gets_keeps:
  assumes "registry_ok rt"
  shows "registry_ok (run_gets gs rt) \<and> other_fds (run_gets gs rt) = other_fds rt
    \<and> map_of (fst rt) \<subseteq>\<^sub>m map_of (fst (run_gets gs rt))"
  using assms
proof (induction gs arbitrary: rt)
  case (Cons g gs)
  obtain e a r t where g: "g = (e, a)" "rt = (r, t)" by (cases g, cases rt) auto
  note step = registry_get_keeps [of r t e a]
  show ?case
    using Cons.IH [of "snd (registry_get e a (r, t))"] Cons.prems step
    by (auto simp: run_gets_def g intro: map_le_trans)
qed (simp add: run_gets_def)

text \<open>The registry of direct UDP sessions, over any sequence of datagrams and whatever names resolve to
  at each of them: it holds at most 256 sessions, a target keeps the socket and the endpoint it got
  first for the whole association, and closing the registry closes exactly the sockets it opened, none
  being lost on the error paths.\<close>

theorem registry_sessions:
  assumes "fds_ok t" and "run_gets gs (newDirectUDPRegistry, t) = (r, t')"
  shows "length r \<le> maxDirectUDPSessions \<and> openFds (snd (registry_closeAll (r, t'))) = openFds t
    \<and> (\<forall>a s. map_of r a = Some s \<longrightarrow>
         (\<forall>hs e. fst (registry_get e a (run_gets hs (r, t'))) = Inr (s, False)))"
proof -
  have "registry_ok (newDirectUDPRegistry, t)"
    using assms(1) by (simp add: registry_ok_def newDirectUDPRegistry_def fds_of_def)
  note run = run_gets_keeps [OF this, of gs, unfolded assms(2)]
  have "fst (registry_get e a (run_gets hs (r, t'))) = Inr (s, False)" if "map_of r a = Some s" for a s hs e
  proof -
    obtain r2 t2 where "run_gets hs (r, t') = (r2, t2)" by (cases "run_gets hs (r, t')")
    moreover from this have "map_of r2 a = Some s"
      using run_gets_keeps [of "(r, t')" hs] run that by (auto simp: map_le_def dom_def)
    ultimately show ?thesis by (simp add: registry_get_known)
  qed
  moreover have "other_fds (newDirectUDPRegistry, t) = openFds t"
    by (simp add: other_fds_def newDirectUDPRegistry_def fds_of_def)
  ultimately show ?thesis using run by (simp add: openFds_closeAll registry_ok_def)
qed

definition test_udp_env :: udp_env where
  "test_udp_env = \<lparr>can_listen = (\<lambda>_ _. True), bound_port = int,
     ResolveUDPAddr = (\<lambda>_. Some \<lparr>uaIP = [9, 9, 9, 9], uaPort = 53\<rparr>)\<rparr>"

theorem registry_sessions_witness:
  "fst (registry_get test_udp_env ''a:53''
     (run_gets [(test_udp_env\<lparr>ResolveUDPAddr := (\<lambda>_. Some \<lparr>uaIP = [8, 8, 8, 8], uaPort = 53\<rparr>)\<rparr>, ''b:53'')]
       ([(''a:53'', \<lparr>dsConn = 4, dsAddr = \<lparr>uaIP = [9, 9, 9, 9], uaPort = 53\<rparr>\<rparr>)], \<lparr>nextFd = 5, openFds = [4, 3]\<rparr>)))
   = Inr (\<lparr>dsConn = 4, dsAddr = \<lparr>uaIP = [9, 9, 9, 9], uaPort = 53\<rparr>\<rparr>, False)"
proof -
  have "run_gets [(test_udp_env, ''a:53'')] (newDirectUDPRegistry, \<lparr>nextFd = 4, openFds = [3]\<rparr>)
    = ([(''a:53'', \<lparr>dsConn = 4, dsAddr = \<lparr>uaIP = [9, 9, 9, 9], uaPort = 53\<rparr>\<rparr>)], \<lparr>nextFd = 5, openFds = [4, 3]\<rparr>)"
    by (simp add: run_gets_def registry_get_def newDirectUDPRegistry_def maxDirectUDPSessions_def test_udp_env_def
        listenUDPFor_def ListenUDP_def Let_def split: option.splits)
  then show ?thesis
    using registry_sessions [of "\<lparr>nextFd = 4, openFds = [3]\<rparr>" "[(test_udp_env, ''a:53'')]"]
    by (simp add: fds_ok_def)
qed

end
