(* ===== verification/Proxy_Upstream.thy ===== *)
theory Proxy_Upstream
  imports Proxy_Addr Dns_Server Manager_Leases Stats_Sessions
begin

text \<open>
  What the SOCKS5 and the HTTP proxy of \<^verbatim>\<open>core/proxy\<close> share: their configuration, the interface of the
  upstream provider, the routing decision, the statistics session of a connection, and the counting of
  relayed bytes.

  The provider interface of the source, whose optional parts are found by type assertion, is the
  record \<open>Upstream\<close> of functions on a provider state, an absent part being \<open>None\<close>; the release function
  that \<^verbatim>\<open>PickNode\<close> returns is a lease number given back to \<open>uRelease\<close>. Its contract is the locale
  \<open>upstream_provider\<close>, interpreted on the manager of SPP nodes. The shared objects a connection works
  on are the record \<open>shared\<close>; a nil statistics collector is \<open>None\<close>, and every session operation is then
  without effect.
\<close>

section \<open>The provider of upstream nodes\<close>

record 'u Upstream =
  uSocks5Addr :: "'u \<Rightarrow> string \<times> 'u"
  uSocks5Auth :: "'u \<Rightarrow> string \<times> string"
  uPickNode :: "('u \<Rightarrow> (string \<times> string \<times> nat option) \<times> 'u) option"
  uRelease :: "nat \<Rightarrow> 'u \<Rightarrow> 'u"
  uReportNodeFailure :: "(instant \<Rightarrow> string \<Rightarrow> 'u \<Rightarrow> 'u) option"
  uReportFailure :: "(instant \<Rightarrow> 'u \<Rightarrow> 'u) option"
  uRecordNodeTraffic :: "(instant \<Rightarrow> string \<Rightarrow> int \<Rightarrow> int \<Rightarrow> 'u \<Rightarrow> 'u) option"

text \<open>The configuration of both servers; their two structures have the same fields. The resolver and the
  statistics are shared and so not part of it.\<close>

record 'u Socks5Config =
  ListenAddr :: string
  Username :: string
  Password :: string
  cfgRouter :: "Router option"
  cfgUpstream :: "'u Upstream option"
  ActiveNode :: "('u \<Rightarrow> string) option"
  EnableIPv6 :: bool
  IdleTimeout :: duration

type_synonym 'u HTTPConfig = "'u Socks5Config"

record 'u shared =
  shDNS :: "DnsServer option"
  shStats :: "Collector option"
  shUp :: 'u

definition defaultIdleTimeout :: duration where "defaultIdleTimeout = 300000000000"

section \<open>Calls of the provider\<close>

definition pick_upstream :: "'u Socks5Config \<Rightarrow> 'u shared \<Rightarrow> (string \<times> string \<times> nat option) \<times> 'u shared" where
  "pick_upstream g st =
     (case cfgUpstream g of
        None \<Rightarrow> (([], [], None), st)
      | Some u \<Rightarrow>
          (case uPickNode u of
             Some pick \<Rightarrow> (let (r, s) = pick (shUp st) in (r, st\<lparr>shUp := s\<rparr>))
           | None \<Rightarrow> (let (addr, s) = uSocks5Addr u (shUp st) in ((addr, [], None), st\<lparr>shUp := s\<rparr>))))"

definition release_upstream :: "'u Socks5Config \<Rightarrow> nat option \<Rightarrow> 'u shared \<Rightarrow> 'u shared" where
  "release_upstream g lease st =
     (case (cfgUpstream g, lease) of
        (Some u, Some k) \<Rightarrow> st\<lparr>shUp := uRelease u k (shUp st)\<rparr>
      | _ \<Rightarrow> st)"

definition upstream_auth :: "'u Socks5Config \<Rightarrow> 'u shared \<Rightarrow> string \<times> string" where
  "upstream_auth g st = (case cfgUpstream g of None \<Rightarrow> ([], []) | Some u \<Rightarrow> uSocks5Auth u (shUp st))"

definition report_failure :: "'u Socks5Config \<Rightarrow> instant \<Rightarrow> string \<Rightarrow> 'u shared \<Rightarrow> 'u shared" where
  "report_failure g now nodeName st =
     (case cfgUpstream g of
        None \<Rightarrow> st
      | Some u \<Rightarrow>
          if uReportNodeFailure u \<noteq> None \<and> nodeName \<noteq> []
          then st\<lparr>shUp := the (uReportNodeFailure u) now nodeName (shUp st)\<rparr>
          else case uReportFailure u of None \<Rightarrow> st | Some rep \<Rightarrow> st\<lparr>shUp := rep now (shUp st)\<rparr>)"

definition recordNodeTraffic :: "'u Upstream option \<Rightarrow> instant \<Rightarrow> string \<Rightarrow> int \<Rightarrow> int \<Rightarrow> 'u shared \<Rightarrow> 'u shared" where
  "recordNodeTraffic u now nodeName up down st =
     (case u of
        None \<Rightarrow> st
      | Some u \<Rightarrow>
          if nodeName = [] then st
          else case uRecordNodeTraffic u of
                 None \<Rightarrow> st
               | Some rec \<Rightarrow> st\<lparr>shUp := rec now nodeName up down (shUp st)\<rparr>)"

section \<open>Routing and sessions\<close>

definition routeDecision ::
  "(IP \<Rightarrow> string option) \<Rightarrow> 'u Socks5Config \<Rightarrow> instant \<Rightarrow> string \<Rightarrow> 'u shared \<Rightarrow> (RouteDecision \<times> string) \<times> 'u shared" where
  "routeDecision geo g now host st =
     (let parsedIP = ParseIP host;
          (realHost, st) =
            (case shDNS st of
               None \<Rightarrow> (host, st)
             | Some d \<Rightarrow>
                 let (found, d) = LookupDomainByIP now host d
                 in (case found of None \<Rightarrow> host | Some name \<Rightarrow> name, st\<lparr>shDNS := Some d\<rparr>));
          decision = (case cfgRouter g of None \<Rightarrow> Proxy | Some r \<Rightarrow> Decide geo r realHost parsedIP)
      in ((decision, realHost), st))"

definition statsDecision :: "RouteDecision \<Rightarrow> Decision" where
  "statsDecision d = (if d = Direct then DecisionDirect else DecisionProxy)"

definition stats_begin ::
  "instant \<Rightarrow> Proto \<Rightarrow> string \<Rightarrow> string \<Rightarrow> int \<Rightarrow> Decision \<Rightarrow> string \<Rightarrow> 'u shared \<Rightarrow> int \<times> 'u shared" where
  "stats_begin now p peer host port d node st =
     (case shStats st of
        None \<Rightarrow> (0, st)
      | Some c \<Rightarrow> let (i, c) = Begin c now p peer host port d node in (i, st\<lparr>shStats := Some c\<rparr>))"

definition with_stats :: "(Collector \<Rightarrow> Collector) \<Rightarrow> 'u shared \<Rightarrow> 'u shared" where
  "with_stats f st = st\<lparr>shStats := map_option f (shStats st)\<rparr>"

definition beginSession ::
  "'u Socks5Config \<Rightarrow> instant \<Rightarrow> Proto \<Rightarrow> string \<Rightarrow> string \<Rightarrow> int \<Rightarrow> RouteDecision \<Rightarrow> 'u shared \<Rightarrow> int \<times> 'u shared" where
  "beginSession g now p peer host port decision st =
     (let sd = (if decision = Proxy then DecisionProxy else DecisionDirect);
          node = (case ActiveNode g of
                    None \<Rightarrow> []
                  | Some f \<Rightarrow> if sd = DecisionProxy then f (shUp st) else [])
      in stats_begin now p peer host port sd node st)"

section \<open>Counting what the relay reads\<close>

text \<open>One successful read of the relay: from the client (upload) or from the target (download).\<close>

datatype relay_read = FromClient instant int | FromTarget instant int

definition relay_count ::
  "'u Upstream option \<Rightarrow> order \<Rightarrow> int \<Rightarrow> string \<Rightarrow> relay_read \<Rightarrow> 'u shared \<Rightarrow> 'u shared" where
  "relay_count u rng i nodeName ev st =
     (case ev of
        FromClient now n \<Rightarrow> recordNodeTraffic u now nodeName n 0 (with_stats (\<lambda>c. AddUpload rng c now i n) st)
      | FromTarget now n \<Rightarrow> recordNodeTraffic u now nodeName 0 n (with_stats (\<lambda>c. AddDownload rng c now i n) st))"

definition relay_counts ::
  "'u Upstream option \<Rightarrow> order \<Rightarrow> int \<Rightarrow> string \<Rightarrow> relay_read list \<Rightarrow> 'u shared \<Rightarrow> 'u shared" where
  "relay_counts u rng i nodeName evs st = fold (relay_count u rng i nodeName) evs st"

section \<open>The contract of a provider\<close>

text \<open>\<open>conns u k\<close> counts the open connections of lease \<open>k\<close>: a pick opens one, its release closes it, and
  nothing else changes the counts.\<close>

locale upstream_provider =
  fixes u :: "'u Upstream" and inv :: "'u \<Rightarrow> bool" and conns :: "'u \<Rightarrow> nat \<Rightarrow> int"
  assumes conns_nonneg: "inv s \<Longrightarrow> 0 \<le> conns s k"
    and pick: "uPickNode u = Some pick \<Longrightarrow> inv s \<Longrightarrow> pick s = ((addr, name, lease), s') \<Longrightarrow>
      inv s' \<and> conns s' = (case lease of None \<Rightarrow> conns s | Some k \<Rightarrow> (conns s)(k := conns s k + 1))"
    and addr: "inv s \<Longrightarrow> inv (snd (uSocks5Addr u s)) \<and> conns (snd (uSocks5Addr u s)) = conns s"
    and release: "inv s \<Longrightarrow> 0 < conns s k \<Longrightarrow>
      inv (uRelease u k s) \<and> conns (uRelease u k s) = (conns s)(k := conns s k - 1)"
    and report_node: "uReportNodeFailure u = Some f \<Longrightarrow> inv s \<Longrightarrow> inv (f now name s) \<and> conns (f now name s) = conns s"
    and report: "uReportFailure u = Some g \<Longrightarrow> inv s \<Longrightarrow> inv (g now s) \<and> conns (g now s) = conns s"
    and traffic: "uRecordNodeTraffic u = Some h \<Longrightarrow> inv s \<Longrightarrow>
      inv (h now name up down s) \<and> conns (h now name up down s) = conns s"
begin

text \<open>The provider holds the given lease, over the counts before it was taken.\<close>

definition holds :: "nat option \<Rightarrow> (nat \<Rightarrow> int) \<Rightarrow> 'u shared \<Rightarrow> bool" where
  "holds lease before st \<longleftrightarrow> inv (shUp st) \<and> (\<forall>k. 0 \<le> before k)
     \<and> conns (shUp st) = (case lease of None \<Rightarrow> before | Some k \<Rightarrow> before(k := before k + 1))"

lemma holds_start: "inv (shUp st) \<Longrightarrow> holds None (conns (shUp st)) st"
  by (simp add: holds_def conns_nonneg)

lemma holds_end: "holds None before st \<Longrightarrow> inv (shUp st) \<and> conns (shUp st) = before"
  by (simp add: holds_def)

lemma holds_shUp: "shUp st' = shUp st \<Longrightarrow> holds lease before st' = holds lease before st"
  by (simp add: holds_def)

lemma holds_with_stats [simp]: "holds lease before (with_stats f st) = holds lease before st"
  by (rule holds_shUp) (simp add: with_stats_def)

lemma holds_pick:
  assumes "cfgUpstream g = Some u" "holds None before st" "pick_upstream g st = ((a, name, lease), st')"
  shows "holds lease before st'"
proof (cases "uPickNode u")
  case None
  then show ?thesis
    using assms addr [of "shUp st"] by (auto simp: pick_upstream_def holds_def split: prod.splits)
next
  case (Some f)
  obtain s where s: "f (shUp st) = ((a, name, lease), s)" "st' = st\<lparr>shUp := s\<rparr>"
    using assms(1,3) Some by (auto simp: pick_upstream_def split: prod.splits)
  then show ?thesis
    using assms(2) pick [OF Some _ s(1)] by (auto simp: holds_def split: option.splits)
qed

lemma holds_report:
  assumes "cfgUpstream g = Some u" "holds lease before st"
  shows "holds lease before (report_failure g now name st)"
proof (cases "uReportNodeFailure u \<noteq> None \<and> name \<noteq> []")
  case True
  then show ?thesis
    using assms report_node [of _ "shUp st" now name] by (auto simp: report_failure_def holds_def)
next
  case False
  show ?thesis
  proof (cases "uReportFailure u")
    case None
    then show ?thesis using False assms by (auto simp: report_failure_def)
  next
    case (Some f)
    then show ?thesis
      using False assms report [OF Some, of "shUp st" now] by (auto simp: report_failure_def holds_def)
  qed
qed

lemma holds_traffic:
  assumes "holds lease before st"
  shows "holds lease before (recordNodeTraffic (Some u) now name up down st)"
proof (cases "name = [] \<or> uRecordNodeTraffic u = None")
  case True
  then show ?thesis using assms by (auto simp: recordNodeTraffic_def)
next
  case False
  then obtain h where "uRecordNodeTraffic u = Some h" "name \<noteq> []" by auto
  then show ?thesis
    using assms traffic [of h "shUp st" now name up down] by (auto simp: recordNodeTraffic_def holds_def)
qed

lemma holds_relay: "holds lease before st \<Longrightarrow> holds lease before (relay_counts (Some u) rng i name evs st)"
  unfolding relay_counts_def
proof (induction evs arbitrary: st)
  case (Cons ev evs)
  have "holds lease before (relay_count (Some u) rng i name ev st)"
    using Cons.prems by (cases ev) (simp_all add: relay_count_def holds_traffic)
  then show ?case using Cons.IH by simp
qed simp

lemma holds_release:
  assumes "cfgUpstream g = Some u" "holds lease before st"
  shows "holds None before (release_upstream g lease st)"
proof (cases lease)
  case (Some k)
  have "0 < conns (shUp st) k" using assms(2) Some by (auto simp: holds_def intro: add_nonneg_pos)
  then show ?thesis
    using assms release [of "shUp st" k] Some by (auto simp: release_upstream_def holds_def)
qed (use assms in \<open>simp add: release_upstream_def\<close>)

end

section \<open>The manager as a provider\<close>

text \<open>The probe that a repeated failure starts in the background is not part of the call.\<close>

definition manager_upstream :: "world \<Rightarrow> Manager Upstream" where
  "manager_upstream w =
     \<lparr>uSocks5Addr = Socks5Addr w, uSocks5Auth = Socks5Auth, uPickNode = Some (PickNode w), uRelease = release_conn,
      uReportNodeFailure = Some (\<lambda>now name m. snd (ReportNodeFailure w now name m)),
      uReportFailure = Some (\<lambda>now m. snd (ReportFailure w now m)),
      uRecordNodeTraffic = Some RecordNodeTraffic\<rparr>"

definition mgr_conns :: "Manager \<Rightarrow> nat \<Rightarrow> int" where
  "mgr_conns m k = (if k < length (runtimes m) then activeConns (runtimes m ! k) else 0)"

definition mgr_counts_ok :: "Manager \<Rightarrow> bool" where
  "mgr_counts_ok m \<longleftrightarrow> (\<forall>rt \<in> set (runtimes m). 0 \<le> activeConns rt)"

lemma mgr_counts_cong:
  assumes "map activeConns (runtimes m') = map activeConns (runtimes m)"
  shows "mgr_conns m' = mgr_conns m" "mgr_counts_ok m' = mgr_counts_ok m"
proof -
  have len: "length (runtimes m') = length (runtimes m)" using assms by (rule map_eq_imp_length_eq)
  have nth: "activeConns (runtimes m' ! k) = activeConns (runtimes m ! k)" if "k < length (runtimes m)" for k
    using arg_cong [OF assms, of "\<lambda>xs. xs ! k"] that len by simp
  then show "mgr_conns m' = mgr_conns m" using len by (auto simp: mgr_conns_def)
  show "mgr_counts_ok m' = mgr_counts_ok m"
    using len nth by (simp add: mgr_counts_ok_def all_set_conv_all_nth)
qed

lemma counts_upd_runtime:
  "(\<And>rt. activeConns (f rt) = activeConns rt) \<Longrightarrow>
    map activeConns (runtimes (upd_runtime i f m)) = map activeConns (runtimes m)"
  by (auto simp: list_eq_iff_nth_eq nth_upd_runtime)

lemma counts_ensure [simp]:
  "map activeConns (runtimes (snd (ensureClientRunningLocked w i m))) = map activeConns (runtimes m)"
  using ensure_nth [of _ m w i] by (fastforce simp: list_eq_iff_nth_eq)

lemma counts_ReportNodeFailure: "map activeConns (runtimes (snd (ReportNodeFailure w now name m))) = map activeConns (runtimes m)"
  by (auto simp: ReportNodeFailure_def Let_def counts_upd_runtime split: option.splits)

lemma counts_RecordNodeTraffic: "map activeConns (runtimes (RecordNodeTraffic now name up down m)) = map activeConns (runtimes m)"
  by (auto simp: RecordNodeTraffic_def Let_def intro!: counts_upd_runtime split: option.splits)

lemma counts_add:
  assumes "k < length (runtimes m)" "mgr_counts_ok m" "0 \<le> activeConns (runtimes m ! k) + d"
  defines "m' \<equiv> upd_runtime k (\<lambda>rt. rt\<lparr>activeConns := activeConns rt + d\<rparr>) m"
  shows "mgr_conns m' = (mgr_conns m)(k := mgr_conns m k + d)" "mgr_counts_ok m'"
proof -
  show "mgr_conns m' = (mgr_conns m)(k := mgr_conns m k + d)"
    using assms(1) by (auto simp: m'_def mgr_conns_def nth_upd_runtime)
  show "mgr_counts_ok m'"
    using assms(1-3) by (auto simp: m'_def mgr_counts_ok_def all_set_conv_all_nth nth_upd_runtime)
qed

lemma PickNode_cases:
  obtains (idle) a n where "PickNode w m = ((a, n, None), m)"
  | (picked) a n k where "k < length (runtimes m)"
      "PickNode w m = ((a, n, Some k), upd_runtime k (\<lambda>rt. rt\<lparr>activeConns := activeConns rt + 1\<rparr>) (snd (ensureClientRunningLocked w k m)))"
proof (cases "closed m \<or> getActiveTierCandidatesLocked m = []")
  case True
  then have "PickNode w m = ((if closed m then [] else mLocalSocks5 m, [], None), m)" by (auto simp: PickNode_def)
  then show ?thesis by (rule idle)
next
  case False
  then obtain k where "pickCandidateLocked m (getActiveTierCandidatesLocked m) = Some k"
    "k \<in> set (getActiveTierCandidatesLocked m)"
    by (meson pickCandidateLocked_cheapest)
  moreover from this have "k < length (runtimes m)" by (simp add: candidates_eligible)
  ultimately show ?thesis using picked False by (simp add: PickNode_def Let_def)
qed

lemma PickNode_counts:
  assumes "mgr_counts_ok m" "PickNode w m = ((a, n, lease), m')"
  shows "mgr_counts_ok m' \<and> mgr_conns m' = (case lease of None \<Rightarrow> mgr_conns m | Some k \<Rightarrow> (mgr_conns m)(k := mgr_conns m k + 1))
    \<and> (\<forall>k. lease = Some k \<longrightarrow> k < length (runtimes m'))"
proof (cases rule: PickNode_cases [of w m])
  case (picked a' n' k)
  let ?m = "snd (ensureClientRunningLocked w k m)"
  note same = mgr_counts_cong [OF counts_ensure, of w k m]
  have "0 \<le> activeConns (runtimes ?m ! k) + 1"
    using assms(1) picked(1) same(2) by (auto simp: mgr_counts_ok_def all_set_conv_all_nth)
  then show ?thesis
    using counts_add [of k ?m 1] picked assms same by (auto simp: add.commute)
qed (use assms in auto)

lemma release_counts:
  assumes "mgr_counts_ok m" "0 < mgr_conns m k"
  shows "mgr_counts_ok (release_conn k m) \<and> mgr_conns (release_conn k m) = (mgr_conns m)(k := mgr_conns m k - 1)"
  using counts_add [of k m "- 1"] assms by (auto simp: release_conn_def mgr_conns_def split: if_splits)

interpretation managed: upstream_provider "manager_upstream w" mgr_counts_ok mgr_conns for w
proof unfold_locales
  fix s :: Manager
  show "mgr_counts_ok s \<Longrightarrow> 0 \<le> mgr_conns s k" for k
    by (simp add: mgr_counts_ok_def mgr_conns_def)
  show "uPickNode (manager_upstream w) = Some pick \<Longrightarrow> mgr_counts_ok s \<Longrightarrow> pick s = ((addr, name, lease), s') \<Longrightarrow>
    mgr_counts_ok s' \<and> mgr_conns s' = (case lease of None \<Rightarrow> mgr_conns s | Some k \<Rightarrow> (mgr_conns s)(k := mgr_conns s k + 1))"
    for pick addr name lease s'
    using PickNode_counts [of s w addr name lease s'] by (simp add: manager_upstream_def)
  show rel: "mgr_counts_ok s \<Longrightarrow> 0 < mgr_conns s k \<Longrightarrow>
    mgr_counts_ok (uRelease (manager_upstream w) k s) \<and> mgr_conns (uRelease (manager_upstream w) k s) = (mgr_conns s)(k := mgr_conns s k - 1)"
    for k using release_counts [of s k] by (simp add: manager_upstream_def)
  show "mgr_counts_ok (snd (uSocks5Addr (manager_upstream w) s)) \<and> mgr_conns (snd (uSocks5Addr (manager_upstream w) s)) = mgr_conns s"
    if ok: "mgr_counts_ok s"
  proof -
    obtain a n lease m' where p: "PickNode w s = ((a, n, lease), m')" by (metis prod.collapse)
    note c = PickNode_counts [OF ok p]
    have pos: "0 < mgr_conns m' k" if "lease = Some k" for k
      using c ok that by (auto simp: mgr_counts_ok_def mgr_conns_def)
    show ?thesis
      using c pos release_counts [of m'] by (cases lease) (auto simp: manager_upstream_def Socks5Addr_def p Let_def)
  qed
qed (auto simp: manager_upstream_def ReportFailure_def Let_def mgr_counts_cong [OF counts_ReportNodeFailure]
    mgr_counts_cong [OF counts_RecordNodeTraffic])

end
