(* ===== verification/Proxy_Session.thy ===== *)
theory Proxy_Session
  imports Proxy_Upstream
begin

text \<open>
  The statistics session of one connection. A handler opens it, and every later operation of the
  handler on the collector is an operation on that session; \<open>tracks\<close> says what has become of the
  collector since: only that session has changed, its bytes are those counted, and it is listed as
  active until it is ended, once, whichever of \<^verbatim>\<open>Fail\<close> and the deferred \<^verbatim>\<open>End\<close> comes first.
\<close>

record account =
  acUp :: int
  acDown :: int
  acErrors :: int
  acDone :: bool

definition tracks :: "int \<Rightarrow> Collector \<Rightarrow> account \<Rightarrow> Collector \<Rightarrow> bool" where
  "tracks i c0 a c \<longleftrightarrow> ledger_ok c \<and> nextID c = nextID c0
     \<and> (\<exists>s. map_of (sessions c) = (map_of (sessions c0))(i \<mapsto> s) \<and> sUpload s = acUp a \<and> sDownload s = acDown a
          \<and> sDone s = acDone a)
     \<and> active c = (if acDone a then removeAll i (active c0) else active c0)
     \<and> cConns (totals c) = cConns (totals c0) + (if acDone a then 1 else 0)
     \<and> cErrors (totals c) = cErrors (totals c0) + acErrors a"

section \<open>Operations on one session\<close>

lemma update_same: "map_of (AList.update i s m) = (map_of m)(i \<mapsto> s)"
  by (rule update_conv')

lemma flush_session:
  assumes "map_of (sessions c) i = Some s"
  shows "\<exists>s'. map_of (sessions (flush rng c now i)) = (map_of (sessions c))(i \<mapsto> s') \<and> sUpload s' = sUpload s
    \<and> sDownload s' = sDownload s \<and> sDone s' = sDone s"
  and "active (flush rng c now i) = active c" "nextID (flush rng c now i) = nextID c" "totals (flush rng c now i) = totals c"
  using assms by (auto simp: flush_def Let_def update_same)

lemma AddUpload_session:
  assumes "map_of (sessions c) i = Some s" "0 < n"
  shows "\<exists>s'. map_of (sessions (AddUpload rng c now i n)) = (map_of (sessions c))(i \<mapsto> s')
      \<and> sUpload s' = sUpload s + n \<and> sDownload s' = sDownload s \<and> sDone s' = sDone s"
    and "active (AddUpload rng c now i n) = active c" "nextID (AddUpload rng c now i n) = nextID c"
    and "totals (AddUpload rng c now i n) = addDownload 0 (addUpload n (totals c))"
proof -
  define s1 where "s1 = s\<lparr>sUpload := sUpload s + n, sPendingUp := sPendingUp s + n\<rparr>"
  define c1 where "c1 = put_session i s1 (addTraffic (put_session i (s\<lparr>sUpload := sUpload s + n\<rparr>) c) now n 0 (sDecision s))"
  have m: "map_of (sessions c1) = (map_of (sessions c))(i \<mapsto> s1)" by (simp add: c1_def update_same)
  have e: "AddUpload rng c now i n = (if flushThreshold \<le> sPendingUp s1 then flush rng c1 now i else c1)"
    using assms by (simp add: AddUpload_def Let_def s1_def c1_def)
  have i: "map_of (sessions c1) i = Some s1" by (simp add: m)
  show "\<exists>s'. map_of (sessions (AddUpload rng c now i n)) = (map_of (sessions c))(i \<mapsto> s')
      \<and> sUpload s' = sUpload s + n \<and> sDownload s' = sDownload s \<and> sDone s' = sDone s"
    using flush_session(1) [OF i, of rng now] m by (auto simp: e s1_def)
  show "active (AddUpload rng c now i n) = active c" "nextID (AddUpload rng c now i n) = nextID c"
    "totals (AddUpload rng c now i n) = addDownload 0 (addUpload n (totals c))"
    using flush_session(2-4) [OF i, of rng now] by (auto simp: e c1_def)
qed

lemma AddDownload_session:
  assumes "map_of (sessions c) i = Some s" "0 < n"
  shows "\<exists>s'. map_of (sessions (AddDownload rng c now i n)) = (map_of (sessions c))(i \<mapsto> s')
      \<and> sUpload s' = sUpload s \<and> sDownload s' = sDownload s + n \<and> sDone s' = sDone s"
    and "active (AddDownload rng c now i n) = active c" "nextID (AddDownload rng c now i n) = nextID c"
    and "totals (AddDownload rng c now i n) = addDownload n (addUpload 0 (totals c))"
proof -
  define s1 where "s1 = s\<lparr>sDownload := sDownload s + n, sPendingDown := sPendingDown s + n\<rparr>"
  define c1 where "c1 = put_session i s1 (addTraffic (put_session i (s\<lparr>sDownload := sDownload s + n\<rparr>) c) now 0 n (sDecision s))"
  have m: "map_of (sessions c1) = (map_of (sessions c))(i \<mapsto> s1)" by (simp add: c1_def update_same)
  have e: "AddDownload rng c now i n = (if flushThreshold \<le> sPendingDown s1 then flush rng c1 now i else c1)"
    using assms by (simp add: AddDownload_def Let_def s1_def c1_def)
  have i: "map_of (sessions c1) i = Some s1" by (simp add: m)
  show "\<exists>s'. map_of (sessions (AddDownload rng c now i n)) = (map_of (sessions c))(i \<mapsto> s')
      \<and> sUpload s' = sUpload s \<and> sDownload s' = sDownload s + n \<and> sDone s' = sDone s"
    using flush_session(1) [OF i, of rng now] m by (auto simp: e s1_def)
  show "active (AddDownload rng c now i n) = active c" "nextID (AddDownload rng c now i n) = nextID c"
    "totals (AddDownload rng c now i n) = addDownload n (addUpload 0 (totals c))"
    using flush_session(2-4) [OF i, of rng now] by (auto simp: e c1_def)
qed

lemma finish_session:
  assumes "map_of (sessions c) i = Some s" "sId s = i"
  shows "\<exists>s'. map_of (sessions (finish rng c now s err)) = (map_of (sessions c))(i \<mapsto> s') \<and> sUpload s' = sUpload s
      \<and> sDownload s' = sDownload s \<and> sDone s' = sDone s"
    and "active (finish rng c now s err) = removeAll i (active c)" "nextID (finish rng c now s err) = nextID c"
    and "cConns (totals (finish rng c now s err)) = cConns (totals c) + 1"
    and "cErrors (totals (finish rng c now s err)) = cErrors (totals c) + (if err = None then 0 else 1)"
proof -
  have "map_of (sessions c) = (map_of (sessions c))(i \<mapsto> s)" using assms(1) by (simp add: fun_upd_idem)
  then show "\<exists>s'. map_of (sessions (finish rng c now s err)) = (map_of (sessions c))(i \<mapsto> s') \<and> sUpload s' = sUpload s
      \<and> sDownload s' = sDownload s \<and> sDone s' = sDone s"
    using assms(2) by (cases "sHost s = []") (auto simp: finish_def Let_def update_same split: option.splits)
qed (use assms(2) in \<open>auto simp: finish_def Let_def split: option.splits\<close>)

section \<open>Tracking\<close>

definition acct0 :: account where "acct0 = \<lparr>acUp = 0, acDown = 0, acErrors = 0, acDone = False\<rparr>"

lemma tracks_Begin:
  assumes "ledger_ok c" "Begin c now p peer host port d node = (i, c0)"
  shows "tracks i c0 acct0 c0" "active c0 = active c @ [i]" "i \<notin> set (active c)" "map_of (sessions c) i = None"
    "totals c0 = totals c" "i = nextID c + 1" "nextID c0 = i"
proof -
  have c0: "c0 = snd (Begin c now p peer host port d node)" using assms(2) by simp
  have i: "i = nextID c + 1" using assms(2) by (simp add: Begin_def Let_def)
  have ok: "ledger_ok c0" unfolding c0 using assms(1) by (rule ledger_ok_Begin)
  show "active c0 = active c @ [i]" "totals c0 = totals c" "nextID c0 = i" "i = nextID c + 1"
    using i by (simp_all add: c0 Begin_def Let_def)
  have s: "sessions_ok c" using assms(1) by (simp add: ledger_ok_def)
  then have "i \<notin> fst ` set (sessions c)" using i by (force simp: sessions_ok_def)
  then show none: "map_of (sessions c) i = None" by (simp add: map_of_eq_None_iff)
  then show "i \<notin> set (active c)" using s unfolding sessions_ok_def by (auto simp del: map_of_eq_Some_iff)
  have "map_of (sessions c0) i = Some (new_session i now p peer host port d node)"
    using i by (simp add: c0 Begin_def Let_def update_same)
  then show "tracks i c0 acct0 c0"
    using ok by (auto simp: tracks_def acct0_def new_session_def fun_upd_idem_iff intro!: exI [of _ "new_session i now p peer host port d node"])
qed

lemma tracks_Upload:
  assumes "tracks i c0 a c" "0 < n"
  shows "tracks i c0 (a\<lparr>acUp := acUp a + n\<rparr>) (AddUpload rng c now i n)"
proof -
  obtain s where s: "map_of (sessions c) = (map_of (sessions c0))(i \<mapsto> s)" "sUpload s = acUp a" "sDownload s = acDown a" "sDone s = acDone a"
    using assms(1) by (auto simp: tracks_def)
  then have "map_of (sessions c) i = Some s" by simp
  note o = AddUpload_session [OF this assms(2), of rng now]
  show ?thesis using assms(1) o s ledger_ok_AddUpload [of c rng now i n] by (auto simp: tracks_def addUpload_def addDownload_def)
qed

lemma tracks_Download:
  assumes "tracks i c0 a c" "0 < n"
  shows "tracks i c0 (a\<lparr>acDown := acDown a + n\<rparr>) (AddDownload rng c now i n)"
proof -
  obtain s where s: "map_of (sessions c) = (map_of (sessions c0))(i \<mapsto> s)" "sUpload s = acUp a" "sDownload s = acDown a" "sDone s = acDone a"
    using assms(1) by (auto simp: tracks_def)
  then have "map_of (sessions c) i = Some s" by simp
  note o = AddDownload_session [OF this assms(2), of rng now]
  show ?thesis using assms(1) o s ledger_ok_AddDownload [of c rng now i n] by (auto simp: tracks_def addUpload_def addDownload_def)
qed

lemma tracks_SetNode:
  assumes "tracks i c0 a c"
  shows "tracks i c0 a (SetNode c i name)"
proof -
  obtain s where s: "map_of (sessions c) = (map_of (sessions c0))(i \<mapsto> s)" "sUpload s = acUp a" "sDownload s = acDown a" "sDone s = acDone a"
    using assms(1) by (auto simp: tracks_def)
  then have "map_of (sessions c) i = Some s" by simp
  then show ?thesis
    using assms s ledger_ok_SetNode [of c i name]
    by (auto simp: tracks_def SetNode_def update_same intro!: exI [of _ "s\<lparr>sNode := Some name\<rparr>"])
qed

definition end_account :: "string option \<Rightarrow> account \<Rightarrow> account" where
  "end_account err a = a\<lparr>acDone := True, acErrors := acErrors a + (if acDone a \<or> err = None then 0 else 1)\<rparr>"

lemma tracks_End:
  assumes "tracks i c0 a c"
  shows "tracks i c0 (end_account err a) (End rng c now i err)"
proof -
  obtain s where s: "map_of (sessions c) = (map_of (sessions c0))(i \<mapsto> s)" "sUpload s = acUp a" "sDownload s = acDown a" "sDone s = acDone a"
    using assms(1) by (auto simp: tracks_def)
  then have m: "map_of (sessions c) i = Some s" by simp
  have "sId s = i"
    using assms m by (auto simp: tracks_def ledger_ok_def sessions_ok_def dest!: map_of_SomeD)
  then have f: "map_of (sessions (put_session i (s\<lparr>sDone := True\<rparr>) c)) i = Some (s\<lparr>sDone := True\<rparr>)" "sId (s\<lparr>sDone := True\<rparr>) = i"
    by (simp_all add: update_same)
  note fin = finish_session [OF f, of rng now err]
  show ?thesis
  proof (cases "sDone s")
    case True
    then have "End rng c now i err = c" using m by (simp add: End_def)
    then show ?thesis using assms True s by (auto simp: tracks_def end_account_def)
  next
    case False
    then have e: "End rng c now i err = finish rng (put_session i (s\<lparr>sDone := True\<rparr>) c) now (s\<lparr>sDone := True\<rparr>) err"
      using m by (simp add: End_def Let_def)
    then show ?thesis
      using assms False s fin ledger_ok_End [of c rng now i err] by (auto simp: tracks_def end_account_def update_same)
  qed
qed

section \<open>Tracking through the shared state\<close>

text \<open>The same of the shared state of a connection, where statistics may be disabled.\<close>

definition sh_tracks :: "int \<Rightarrow> Collector option \<Rightarrow> account \<Rightarrow> 'u shared \<Rightarrow> bool" where
  "sh_tracks i c0 a st \<longleftrightarrow>
     (case (c0, shStats st) of
        (None, None) \<Rightarrow> True
      | (Some c0, Some c) \<Rightarrow> tracks i c0 a c
      | _ \<Rightarrow> False)"

lemma sh_tracks_cong: "shStats st' = shStats st \<Longrightarrow> sh_tracks i c0 a st' = sh_tracks i c0 a st"
  by (simp add: sh_tracks_def)

lemma shStats_frame [simp]:
  "shStats (release_upstream g lease st) = shStats st" "shStats (report_failure g now name st) = shStats st"
  "shStats (recordNodeTraffic u now name up down st) = shStats st"
  by (auto simp: release_upstream_def report_failure_def recordNodeTraffic_def split: option.splits)

lemma shStats_pick: "pick_upstream g st = (r, st') \<Longrightarrow> shStats st' = shStats st"
  by (auto simp: pick_upstream_def split: option.splits prod.splits)

lemma shStats_route: "routeDecision geo g now host st = (r, st') \<Longrightarrow> shStats st' = shStats st \<and> shUp st' = shUp st"
  by (auto simp: routeDecision_def Let_def split: option.splits prod.splits)

lemma sh_tracks_frame [simp]:
  "sh_tracks i c0 a (release_upstream g lease st) = sh_tracks i c0 a st"
  "sh_tracks i c0 a (report_failure g now name st) = sh_tracks i c0 a st"
  "sh_tracks i c0 a (recordNodeTraffic u now name up down st) = sh_tracks i c0 a st"
  by (rule sh_tracks_cong; simp)+

lemma sh_tracks_SetNode: "sh_tracks i c0 a st \<Longrightarrow> sh_tracks i c0 a (with_stats (\<lambda>c. SetNode c i name) st)"
  by (auto simp: sh_tracks_def with_stats_def tracks_SetNode split: option.splits)

lemma sh_tracks_End:
  "sh_tracks i c0 a st \<Longrightarrow> sh_tracks i c0 (end_account err a) (with_stats (\<lambda>c. End rng c now i err) st)"
  by (auto simp: sh_tracks_def with_stats_def tracks_End split: option.splits)

text \<open>What a list of reads adds to the account; an empty read is not counted.\<close>

definition read_up :: "relay_read \<Rightarrow> int" where
  "read_up ev = (case ev of FromClient _ n \<Rightarrow> max 0 n | FromTarget _ _ \<Rightarrow> 0)"

definition read_down :: "relay_read \<Rightarrow> int" where
  "read_down ev = (case ev of FromClient _ _ \<Rightarrow> 0 | FromTarget _ n \<Rightarrow> max 0 n)"

definition add_reads :: "relay_read list \<Rightarrow> account \<Rightarrow> account" where
  "add_reads evs a = a\<lparr>acUp := acUp a + (\<Sum>ev\<leftarrow>evs. read_up ev), acDown := acDown a + (\<Sum>ev\<leftarrow>evs. read_down ev)\<rparr>"

lemma add_reads_Cons: "add_reads (ev # evs) a = add_reads evs (add_reads [ev] a)"
  by (simp add: add_reads_def add.assoc)

lemma empty_read: "n \<le> 0 \<Longrightarrow> AddUpload rng c now i n = c" "n \<le> 0 \<Longrightarrow> AddDownload rng c now i n = c"
  by (simp_all add: AddUpload_def AddDownload_def split: option.splits)

lemma sh_tracks_read:
  assumes "sh_tracks i c0 a st"
  shows "sh_tracks i c0 (add_reads [ev] a) (relay_count u rng i name ev st)"
proof (cases ev)
  case (FromClient now n)
  then show ?thesis
    using assms tracks_Upload [of i _ a _ n rng now]
    by (cases "0 < n") (auto simp: sh_tracks_def with_stats_def relay_count_def add_reads_def read_up_def read_down_def
        empty_read split: option.splits)
next
  case (FromTarget now n)
  then show ?thesis
    using assms tracks_Download [of i _ a _ n rng now]
    by (cases "0 < n") (auto simp: sh_tracks_def with_stats_def relay_count_def add_reads_def read_up_def read_down_def
        empty_read split: option.splits)
qed

lemma sh_tracks_reads:
  "sh_tracks i c0 a st \<Longrightarrow> sh_tracks i c0 (add_reads evs a) (relay_counts u rng i name evs st)"
proof (induction evs arbitrary: a st)
  case Nil
  then show ?case by (simp add: relay_counts_def add_reads_def)
next
  case (Cons ev evs)
  show ?case
    using Cons.IH [OF sh_tracks_read [OF Cons.prems, of ev u rng name]]
    unfolding relay_counts_def add_reads_Cons [of ev evs] by simp
qed

lemma sh_tracks_begin:
  assumes "stats_begin now p peer host port d node st = (i, st')" "\<forall>c. shStats st = Some c \<longrightarrow> ledger_ok c"
  shows "sh_tracks i (shStats st') acct0 st'" "shUp st' = shUp st"
proof -
  show "shUp st' = shUp st"
    using assms(1) by (cases "shStats st") (auto simp: stats_begin_def split: prod.splits)
  show "sh_tracks i (shStats st') acct0 st'"
  proof (cases "shStats st")
    case None
    then show ?thesis using assms(1) by (simp add: stats_begin_def sh_tracks_def)
  next
    case (Some c)
    obtain c0 where b: "Begin c now p peer host port d node = (i, c0)" "st' = st\<lparr>shStats := Some c0\<rparr>"
      using assms(1) Some by (auto simp: stats_begin_def split: prod.splits)
    then show ?thesis using tracks_Begin(1) [OF _ b(1)] assms(2) Some by (simp add: sh_tracks_def)
  qed
qed

text \<open>What a finished session leaves behind, compared with the collector before it was opened.\<close>

definition session_closed :: "Collector \<Rightarrow> account \<Rightarrow> Collector \<Rightarrow> bool" where
  "session_closed c a c' \<longleftrightarrow> ledger_ok c' \<and> active c' = active c
     \<and> cConns (totals c') = cConns (totals c) + 1 \<and> cErrors (totals c') = cErrors (totals c) + acErrors a
     \<and> cUpload (totals c') = cUpload (totals c) + acUp a \<and> cDownload (totals c') = cDownload (totals c) + acDown a
     \<and> (\<exists>s. map_of (sessions c') = (map_of (sessions c))(nextID c + 1 \<mapsto> s) \<and> sDone s
          \<and> sUpload s = acUp a \<and> sDownload s = acDown a)"

lemma rows_sum_new:
  assumes "distinct (map fst m)" "distinct (map fst m')" "map_of m' = (map_of m)(i \<mapsto> s)" "map_of m i = None"
  shows "rows_sum f m' = rows_sum f m + f s"
proof -
  let ?n = "(i, s) # m"
  have d: "distinct (map fst ?n)" using assms(1,4) by (simp add: map_of_eq_None_iff)
  have "map_of m' = map_of ?n" using assms(3) by simp
  then have set_eq: "set m' = set ?n" using map_of_inject_set [OF assms(2) d] by blast
  have "rows_sum f m' = (\<Sum>p\<in>set m'. f (snd p))"
    unfolding rows_sum_def by (rule sum_list_distinct_conv_sum_set) (metis assms(2) distinct_map)
  also have "\<dots> = rows_sum f ?n"
    unfolding rows_sum_def set_eq by (rule sum_list_distinct_conv_sum_set [symmetric]) (metis d distinct_map)
  finally show ?thesis by simp
qed

lemma tracks_closed:
  assumes "ledger_ok c" "Begin c now p peer host port d node = (i, c0)" "tracks i c0 a c'" "acDone a"
  shows "session_closed c a c'"
proof -
  note b = tracks_Begin [OF assms(1,2)]
  obtain s where s: "map_of (sessions c') = (map_of (sessions c0))(i \<mapsto> s)" "sDone s" "sUpload s = acUp a" "sDownload s = acDown a"
    using assms(3,4) by (auto simp: tracks_def)
  have "map_of (sessions c0) = (map_of (sessions c))(i \<mapsto> new_session i now p peer host port d node)"
    using assms(2) by (auto simp: Begin_def Let_def update_same)
  then have m: "map_of (sessions c') = (map_of (sessions c))(i \<mapsto> s)" using s(1) by simp
  have l: "ledger_ok c'" using assms(3) by (simp add: tracks_def)
  have sum: "rows_sum f (sessions c') = rows_sum f (sessions c) + f s" for f
    by (rule rows_sum_new [OF _ _ m b(4)]) (use assms(1) l in \<open>auto simp: ledger_ok_def sessions_ok_def\<close>)
  have act: "removeAll i (active c @ [i]) = active c" using b(3) by simp
  then show ?thesis
    using assms(3,4) l sum m s assms(1) b by (auto simp: session_closed_def tracks_def ledger_ok_def)
qed

text \<open>A handler that ends its session: the collector afterwards.\<close>

lemma sh_closed:
  assumes "shStats st = Some c" "ledger_ok c" "stats_begin now p peer host port d node st = (i, st0)"
    and "sh_tracks i (shStats st0) a st'" "acDone a"
  shows "\<exists>c'. shStats st' = Some c' \<and> session_closed c a c'"
proof -
  obtain c0 where b: "Begin c now p peer host port d node = (i, c0)" "st0 = st\<lparr>shStats := Some c0\<rparr>"
    using assms(1,3) by (auto simp: stats_begin_def split: prod.splits)
  then obtain c' where "shStats st' = Some c'" "tracks i c0 a c'"
    using assms(4) by (auto simp: sh_tracks_def split: option.splits)
  then show ?thesis using tracks_closed [OF assms(2) b(1) _ assms(5)] by blast
qed

end
