(* ===== verification/Proxy_Relay.thy ===== *)
theory Proxy_Relay
  imports Proxy_Session
begin

text \<open>
  \<^verbatim>\<open>relayStreamsWithNode\<close> of \<^verbatim>\<open>core/proxy/socks5.go\<close>: two goroutines that copy in the two directions and a
  watchdog, as a step relation on their shared state.

  A pipe is named by the side it reads from. A step is one section of a pipe between two blocking
  calls: a read returns, a write returns, the error of the read is examined, the pipe leaves; or the
  watchdog finds the connection idle. What a read or a write returns and when is up to the network,
  within what \<^verbatim>\<open>net.Conn\<close> documents: a read returns octets or an error, times out only once its deadline
  has passed, and fails on a closed connection. The clock does not go back.
\<close>

datatype side = Client | Target

fun peer :: "side \<Rightarrow> side" where
  "peer Client = Target"
| "peer Target = Client"

datatype read_err = NoErr | TimeoutErr | OtherErr

datatype pipe_state = Reading | Writing "byte list" read_err | Checking read_err | Leaving | Exited

record 'u relay =
  rNow :: instant
  lastActivity :: instant
  openPipes :: int
  writeAborted :: bool
  rPipe :: "side \<Rightarrow> pipe_state"
  readDeadline :: "side \<Rightarrow> instant option"
  writeDeadline :: "side \<Rightarrow> instant option"
  rGot :: "side \<Rightarrow> byte list"
  rSent :: "side \<Rightarrow> byte list"
  writeClosed :: "side \<Rightarrow> bool"
  socketsClosed :: bool
  watching :: bool
  rShared :: "'u shared"

record 'u relay_params =
  rpIdle :: duration
  rpUpstream :: "'u Upstream option"
  rpOrder :: order
  rpSession :: int
  rpNode :: string

definition relay_start :: "instant \<Rightarrow> 'u shared \<Rightarrow> 'u relay" where
  "relay_start now st =
     \<lparr>rNow = now, lastActivity = now, openPipes = 2, writeAborted = False, rPipe = (\<lambda>_. Reading),
      readDeadline = (\<lambda>_. None), writeDeadline = (\<lambda>_. None), rGot = (\<lambda>_. []), rSent = (\<lambda>_. []),
      writeClosed = (\<lambda>_. False), socketsClosed = False, watching = True, rShared = st\<rparr>"

section \<open>The sections of a pipe\<close>

definition read_event :: "side \<Rightarrow> instant \<Rightarrow> int \<Rightarrow> relay_read" where
  "read_event src now n = (case src of Client \<Rightarrow> FromClient now n | Target \<Rightarrow> FromTarget now n)"

definition set_pipe :: "side \<Rightarrow> pipe_state \<Rightarrow> 'u relay \<Rightarrow> 'u relay" where
  "set_pipe src p s = s\<lparr>rPipe := (rPipe s)(src := p)\<rparr>"

definition pipe_read :: "'u relay_params \<Rightarrow> side \<Rightarrow> byte list \<Rightarrow> read_err \<Rightarrow> instant \<Rightarrow> 'u relay \<Rightarrow> 'u relay" where
  "pipe_read g src data rerr now s0 =
     (let s = s0\<lparr>rNow := now\<rparr> in
      if data \<noteq> [] then
        let s = s\<lparr>lastActivity := now\<rparr>;
            s = (if writeAborted s then s else s\<lparr>readDeadline := (readDeadline s)(src := Some (now + rpIdle g))\<rparr>);
            s = s\<lparr>rGot := (rGot s)(src := rGot s src @ data),
                  rShared := relay_count (rpUpstream g) (rpOrder g) (rpSession g) (rpNode g)
                    (read_event src now (int (length data))) (rShared s)\<rparr>;
            s = s\<lparr>writeDeadline := (writeDeadline s)(peer src := Some (now + rpIdle g))\<rparr>
        in set_pipe src (Writing data rerr) s
      else set_pipe src (Checking rerr) s)"

text \<open>A write returns after \<open>k\<close> octets, all of them when it succeeds.\<close>

definition pipe_write :: "side \<Rightarrow> byte list \<Rightarrow> read_err \<Rightarrow> nat \<Rightarrow> bool \<Rightarrow> instant \<Rightarrow> 'u relay \<Rightarrow> 'u relay" where
  "pipe_write src data rerr k ok now s0 =
     (let s = s0\<lparr>rNow := now, rSent := (rSent s0)(peer src := rSent s0 (peer src) @ take k data)\<rparr> in
      if ok then set_pipe src (Checking rerr) (s\<lparr>lastActivity := now\<rparr>)
      else set_pipe src Leaving (s\<lparr>writeAborted := True\<rparr>))"

definition pipe_check :: "'u relay_params \<Rightarrow> side \<Rightarrow> read_err \<Rightarrow> instant \<Rightarrow> 'u relay \<Rightarrow> 'u relay" where
  "pipe_check g src rerr now s0 =
     (let s = s0\<lparr>rNow := now\<rparr> in
      if rerr \<noteq> NoErr then
        (if rerr = TimeoutErr \<and> \<not> writeAborted s \<and> openPipes s = 2 \<and> now - lastActivity s < rpIdle g
         then set_pipe src Reading (s\<lparr>readDeadline := (readDeadline s)(src := Some (now + rpIdle g))\<rparr>)
         else set_pipe src Leaving s)
      else set_pipe src Reading s)"

definition pipe_leave :: "'u relay_params \<Rightarrow> side \<Rightarrow> instant \<Rightarrow> 'u relay \<Rightarrow> 'u relay" where
  "pipe_leave g src now s0 =
     (let s = s0\<lparr>rNow := now, openPipes := openPipes s0 - 1, writeClosed := (writeClosed s0)(peer src := True)\<rparr>;
          grace = (if 15000000000 < rpIdle g then 15000000000 else rpIdle g);
          s = s\<lparr>readDeadline := (readDeadline s)(src := Some (now + grace), peer src := Some (now + grace))\<rparr>
      in set_pipe src Exited s)"

definition watchdog_fires :: "instant \<Rightarrow> 'u relay \<Rightarrow> 'u relay" where
  "watchdog_fires now s = s\<lparr>rNow := now, socketsClosed := True, watching := False\<rparr>"

section \<open>The step relation\<close>

text \<open>A step is silent when no octet is read.\<close>

inductive silent_step :: "'u relay_params \<Rightarrow> 'u relay \<Rightarrow> 'u relay \<Rightarrow> bool" for g where
  read_fails: "rPipe s src = Reading \<Longrightarrow> rNow s \<le> now \<Longrightarrow> rerr \<noteq> NoErr
    \<Longrightarrow> (rerr = TimeoutErr \<longrightarrow> \<not> socketsClosed s \<and> (\<exists>t. readDeadline s src = Some t \<and> t \<le> now))
    \<Longrightarrow> silent_step g s (pipe_read g src [] rerr now s)"
| write_ok: "rPipe s src = Writing data rerr \<Longrightarrow> rNow s \<le> now \<Longrightarrow> \<not> socketsClosed s
    \<Longrightarrow> silent_step g s (pipe_write src data rerr (length data) True now s)"
| write_fails: "rPipe s src = Writing data rerr \<Longrightarrow> rNow s \<le> now \<Longrightarrow> k \<le> length data
    \<Longrightarrow> silent_step g s (pipe_write src data rerr k False now s)"
| check: "rPipe s src = Checking rerr \<Longrightarrow> rNow s \<le> now \<Longrightarrow> silent_step g s (pipe_check g src rerr now s)"
| leave: "rPipe s src = Leaving \<Longrightarrow> rNow s \<le> now \<Longrightarrow> silent_step g s (pipe_leave g src now s)"
| watchdog: "watching s \<Longrightarrow> rNow s \<le> now \<Longrightarrow> rpIdle g < now - lastActivity s
    \<Longrightarrow> silent_step g s (watchdog_fires now s)"

inductive relay_step :: "'u relay_params \<Rightarrow> 'u relay \<Rightarrow> 'u relay \<Rightarrow> bool" for g where
  silent: "silent_step g s s' \<Longrightarrow> relay_step g s s'"
| read_data: "rPipe s src = Reading \<Longrightarrow> rNow s \<le> now \<Longrightarrow> data \<noteq> [] \<Longrightarrow> length data \<le> 32768 \<Longrightarrow> \<not> socketsClosed s
    \<Longrightarrow> relay_step g s (pipe_read g src data rerr now s)"

inductive_cases silent_stepE: "silent_step g s s'"
inductive_cases relay_stepE: "relay_step g s s'"

lemmas pipe_defs = pipe_read_def pipe_write_def pipe_check_def pipe_leave_def watchdog_fires_def set_pipe_def Let_def

section \<open>Integrity\<close>

definition exited :: "'u relay \<Rightarrow> side \<Rightarrow> int" where
  "exited s src = (if rPipe s src = Exited then 1 else 0)"

definition pending :: "pipe_state \<Rightarrow> byte list" where
  "pending p = (case p of Writing data _ \<Rightarrow> data | _ \<Rightarrow> [])"

definition leaving :: "pipe_state \<Rightarrow> bool" where
  "leaving p \<longleftrightarrow> p = Leaving \<or> p = Exited"

definition pipe_ok :: "'u relay \<Rightarrow> side \<Rightarrow> bool" where
  "pipe_ok s src \<longleftrightarrow>
     (if leaving (rPipe s src) \<and> writeAborted s then prefix (rSent s (peer src)) (rGot s src)
      else rGot s src = rSent s (peer src) @ pending (rPipe s src))
     \<and> (writeClosed s (peer src) \<longleftrightarrow> rPipe s src = Exited)"

definition relay_inv :: "'u relay_params \<Rightarrow> 'u shared \<Rightarrow> 'u relay \<Rightarrow> bool" where
  "relay_inv g st0 s \<longleftrightarrow> lastActivity s \<le> rNow s \<and> openPipes s = 2 - exited s Client - exited s Target
     \<and> pipe_ok s Client \<and> pipe_ok s Target
     \<and> (\<exists>evs. rShared s = relay_counts (rpUpstream g) (rpOrder g) (rpSession g) (rpNode g) evs st0
          \<and> (\<Sum>ev\<leftarrow>evs. read_up ev) = int (length (rGot s Client))
          \<and> (\<Sum>ev\<leftarrow>evs. read_down ev) = int (length (rGot s Target)))"

lemma relay_inv_start: "relay_inv g st (relay_start now st)"
  by (auto simp: relay_inv_def relay_start_def exited_def pipe_ok_def leaving_def pending_def relay_counts_def
      intro!: exI [of _ "[]"])

lemma peer_simps [simp]: "peer (peer x) = x" "peer x \<noteq> x" "x \<noteq> peer x"
  by (cases x; simp)+

lemma peer_eq: "peer x = y \<longleftrightarrow> x = peer y"
  by (cases x; cases y) simp_all

lemma side_cases: "(\<forall>x. P x) \<longleftrightarrow> P src \<and> P (peer src)"
  by (cases src) (metis peer.simps side.exhaust)+

lemma shared_frame [simp]:
  "rShared (pipe_write src data rerr k ok now s) = rShared s" "rGot (pipe_write src data rerr k ok now s) = rGot s"
  "rShared (pipe_check g src rerr now s) = rShared s" "rGot (pipe_check g src rerr now s) = rGot s"
  "rShared (pipe_leave g src now s) = rShared s" "rGot (pipe_leave g src now s) = rGot s"
  "rShared (watchdog_fires now s) = rShared s" "rGot (watchdog_fires now s) = rGot s"
  "rShared (pipe_read g src [] rerr now s) = rShared s" "rGot (pipe_read g src [] rerr now s) = rGot s"
  by (simp_all add: pipe_defs)

lemma relay_inv_cong:
  assumes "relay_inv g st0 s" "rShared s' = rShared s" "rGot s' = rGot s" "lastActivity s' \<le> rNow s'"
    and "openPipes s' = 2 - exited s' Client - exited s' Target" "pipe_ok s' Client" "pipe_ok s' Target"
  shows "relay_inv g st0 s'"
  using assms by (simp add: relay_inv_def)

lemma pipe_ok_both: "relay_inv g st0 s \<Longrightarrow> pipe_ok s src"
  by (cases src) (simp_all add: relay_inv_def)

lemma pipe_ok_write:
  assumes "pipe_ok s src" "pipe_ok s (peer src)" "rPipe s src = Writing data rerr" "ok \<Longrightarrow> k = length data"
  shows "pipe_ok (pipe_write src data rerr k ok now s) x"
proof (cases "x = src")
  case True
  have "prefix (rSent s (peer src) @ take k data) (rSent s (peer src) @ data)" by (simp add: take_is_prefix)
  then show ?thesis
    using assms True by (auto simp: pipe_ok_def leaving_def pending_def pipe_defs)
next
  case False
  then have "x = peer src" by (cases x; cases src) simp_all
  then show ?thesis
    using assms(2) by (auto simp: pipe_ok_def leaving_def pending_def pipe_defs split: if_splits)
qed

text \<open>The other sections move a pipe without touching what it has sent.\<close>

lemma pipe_ok_prefix: "pipe_ok s x \<Longrightarrow> prefix (rSent s (peer x)) (rGot s x)"
  by (auto simp: pipe_ok_def split: if_splits)

lemma pipe_ok_move:
  assumes "pipe_ok s x" "rSent s' = rSent s" "rGot s' = rGot s" "writeAborted s' = writeAborted s"
    and "writeClosed s' (peer x) = (rPipe s' x = Exited)" "pending (rPipe s' x) = pending (rPipe s x)"
    and "leaving (rPipe s x) \<Longrightarrow> leaving (rPipe s' x)"
  shows "pipe_ok s' x"
  using assms(1) pipe_ok_prefix [OF assms(1)] assms(2-7) unfolding pipe_ok_def by (simp split: if_splits)

lemma writeClosed_iff: "pipe_ok s x \<Longrightarrow> writeClosed s (peer x) = (rPipe s x = Exited)"
  by (simp add: pipe_ok_def)

lemma moved_pipe:
  assumes inv: "relay_inv g st0 s" and "rShared s' = rShared s" "rGot s' = rGot s" "rSent s' = rSent s"
    "writeAborted s' = writeAborted s" "rNow s \<le> rNow s'" "lastActivity s' = lastActivity s"
    and pipe: "rPipe s' = (rPipe s)(src := p)" "pending (rPipe s src) = []" "pending p = []" "leaving (rPipe s src) \<Longrightarrow> leaving p"
    and ex: "rPipe s src \<noteq> Exited" "openPipes s' = openPipes s - (if p = Exited then 1 else 0)"
      "writeClosed s' = (if p = Exited then (writeClosed s)(peer src := True) else writeClosed s)"
  shows "relay_inv g st0 s'"
proof (rule relay_inv_cong [OF inv])
  have wc: "writeClosed s (peer x) = (rPipe s x = Exited)" for x using pipe_ok_both [OF inv] by (simp add: pipe_ok_def)
  have ok: "pipe_ok s' x" for x
  proof (rule pipe_ok_move [OF pipe_ok_both [OF inv]])
    show "writeClosed s' (peer x) = (rPipe s' x = Exited)"
      using wc [of x] ex pipe(1) by (cases "x = src") (auto simp: peer_eq)
    show "pending (rPipe s' x) = pending (rPipe s x)" using pipe by simp
    show "leaving (rPipe s x) \<Longrightarrow> leaving (rPipe s' x)" using pipe by auto
  qed (use assms in simp_all)
  then show "pipe_ok s' Client" "pipe_ok s' Target" by simp_all
  have "openPipes s = 2 - exited s Client - exited s Target" using inv by (simp add: relay_inv_def)
  then show "openPipes s' = 2 - exited s' Client - exited s' Target"
    using ex(1,2) pipe(1) by (cases src) (simp_all add: exited_def)
  have "lastActivity s \<le> rNow s" using inv by (simp add: relay_inv_def)
  then show "lastActivity s' \<le> rNow s'" using assms by simp
qed (use assms in simp_all)

lemma relay_inv_silent:
  assumes step: "silent_step g s s'" and inv: "relay_inv g st0 s"
  shows "relay_inv g st0 s'"
  using step
proof (cases rule: silent_step.cases)
  case (read_fails src now rerr)
  show ?thesis unfolding read_fails(1)
    by (rule moved_pipe [OF inv, of _ src "Checking rerr"]) (use read_fails in \<open>simp_all add: pipe_defs leaving_def pending_def\<close>)
next
  case (write_ok src data rerr now)
  show ?thesis unfolding write_ok(1)
    by (rule relay_inv_cong [OF inv])
      (use write_ok inv pipe_ok_write [of s src data rerr True] pipe_ok_both [OF inv] in
        \<open>auto simp: relay_inv_def exited_def pipe_defs\<close>)
next
  case (write_fails src data rerr now k)
  show ?thesis unfolding write_fails(1)
    by (rule relay_inv_cong [OF inv])
      (use write_fails inv pipe_ok_write [of s src data rerr False] pipe_ok_both [OF inv] in
        \<open>auto simp: relay_inv_def exited_def pipe_defs\<close>)
next
  case (check src rerr now)
  show ?thesis unfolding check(1)
    by (rule moved_pipe [OF inv, of _ src "rPipe (pipe_check g src rerr now s) src"])
      (use check in \<open>simp_all add: pipe_defs leaving_def pending_def\<close>)
next
  case (leave src now)
  show ?thesis unfolding leave(1)
    by (rule moved_pipe [OF inv, of _ src Exited]) (use leave in \<open>simp_all add: pipe_defs leaving_def pending_def\<close>)
next
  case (watchdog now)
  show ?thesis unfolding watchdog(1)
    by (rule relay_inv_cong [OF inv]; (rule pipe_ok_move [OF pipe_ok_both [OF inv]])?)
      (use watchdog inv writeClosed_iff [OF pipe_ok_both [OF inv, of Client]] writeClosed_iff [OF pipe_ok_both [OF inv, of Target]]
        in \<open>simp_all add: relay_inv_def exited_def pipe_defs\<close>)
qed

lemma relay_counts_snoc: "relay_counts u rng i name (evs @ [ev]) st = relay_count u rng i name ev (relay_counts u rng i name evs st)"
  by (simp add: relay_counts_def)

lemma relay_inv_read:
  assumes inv: "relay_inv g st0 s" and r: "rPipe s src = Reading" "rNow s \<le> now" "data \<noteq> []"
  shows "relay_inv g st0 (pipe_read g src data rerr now s)"
proof -
  obtain evs where evs: "rShared s = relay_counts (rpUpstream g) (rpOrder g) (rpSession g) (rpNode g) evs st0"
    "(\<Sum>ev\<leftarrow>evs. read_up ev) = int (length (rGot s Client))" "(\<Sum>ev\<leftarrow>evs. read_down ev) = int (length (rGot s Target))"
    using inv by (auto simp: relay_inv_def)
  let ?s = "pipe_read g src data rerr now s" and ?ev = "read_event src now (int (length data))"
  have "rShared ?s = relay_counts (rpUpstream g) (rpOrder g) (rpSession g) (rpNode g) (evs @ [?ev]) st0"
    using r(3) evs(1) by (simp add: pipe_defs relay_counts_snoc)
  moreover have "(\<Sum>ev\<leftarrow>evs @ [?ev]. read_up ev) = int (length (rGot ?s Client))"
    "(\<Sum>ev\<leftarrow>evs @ [?ev]. read_down ev) = int (length (rGot ?s Target))"
    using r(3) evs(2,3) by (cases src; simp add: pipe_defs read_event_def read_up_def read_down_def)+
  moreover have "pipe_ok ?s x" for x
    using r pipe_ok_both [OF inv, of x] by (auto simp: pipe_ok_def pipe_defs leaving_def pending_def split: if_splits)
  moreover have "openPipes ?s = 2 - exited ?s Client - exited ?s Target" "lastActivity ?s \<le> rNow ?s"
    using inv r by (auto simp: relay_inv_def exited_def pipe_defs)
  ultimately show ?thesis unfolding relay_inv_def by blast
qed

interpretation relay_system: transition_invariant "relay_step g" "relay_inv g st0" for g st0
proof unfold_locales
  fix s s' assume "relay_inv g st0 s" "relay_step g s s'"
  then show "relay_inv g st0 s'"
    by (auto elim!: relay_stepE intro: relay_inv_silent relay_inv_read)
qed

text \<open>C11. The relay neither loses nor reorders nor invents octets, in any interleaving of the two pipes and the
  watchdog: what has been sent to a side is a prefix of what was read from the other, all of it once
  the pipe is not in the middle of a write unless a write has failed; a side is told of the end of the
  stream only after its pipe has left; and the session is charged exactly the octets read.\<close>

theorem relay_integrity:
  assumes "(relay_step g)\<^sup>*\<^sup>* (relay_start now st) s"
  shows "prefix (rSent s Target) (rGot s Client) \<and> prefix (rSent s Client) (rGot s Target)
    \<and> (\<not> writeAborted s \<longrightarrow> pending (rPipe s Client) = [] \<longrightarrow> rSent s Target = rGot s Client)
    \<and> (\<not> writeAborted s \<longrightarrow> pending (rPipe s Target) = [] \<longrightarrow> rSent s Client = rGot s Target)
    \<and> (writeClosed s Target \<longrightarrow> rPipe s Client = Exited) \<and> (writeClosed s Client \<longrightarrow> rPipe s Target = Exited)
    \<and> (sh_tracks (rpSession g) c0 a st \<longrightarrow>
         sh_tracks (rpSession g) c0 (a\<lparr>acUp := acUp a + int (length (rGot s Client)),
           acDown := acDown a + int (length (rGot s Target))\<rparr>) (rShared s))"
proof -
  have inv: "relay_inv g st s" by (rule relay_system.steps_inv [OF assms relay_inv_start])
  then obtain evs where evs: "rShared s = relay_counts (rpUpstream g) (rpOrder g) (rpSession g) (rpNode g) evs st"
    "(\<Sum>ev\<leftarrow>evs. read_up ev) = int (length (rGot s Client))" "(\<Sum>ev\<leftarrow>evs. read_down ev) = int (length (rGot s Target))"
    by (auto simp: relay_inv_def)
  have "sh_tracks (rpSession g) c0 (add_reads evs a) (rShared s)" if "sh_tracks (rpSession g) c0 a st"
    unfolding evs(1) by (rule sh_tracks_reads [OF that])
  then have "sh_tracks (rpSession g) c0 a st \<longrightarrow> sh_tracks (rpSession g) c0 (a\<lparr>acUp := acUp a + int (length (rGot s Client)),
    acDown := acDown a + int (length (rGot s Target))\<rparr>) (rShared s)"
    by (simp add: add_reads_def evs(2,3))
  moreover have c: "pipe_ok s Client" and t: "pipe_ok s Target" using inv by (simp_all add: relay_inv_def)
  moreover have "prefix (rSent s Target) (rGot s Client)" "prefix (rSent s Client) (rGot s Target)"
    using pipe_ok_prefix [OF c] pipe_ok_prefix [OF t] by simp_all
  ultimately show ?thesis by (auto simp: pipe_ok_def)
qed

section \<open>Silence ends the relay\<close>

text \<open>A read whose deadline is at least the idle time after the last activity cannot be retried.\<close>

definition late :: "'u relay_params \<Rightarrow> 'u relay \<Rightarrow> side \<Rightarrow> bool" where
  "late g s src \<longleftrightarrow> (\<exists>t. readDeadline s src = Some t \<and> lastActivity s + rpIdle g \<le> t)"

definition pipe_rank :: "'u relay_params \<Rightarrow> 'u relay \<Rightarrow> side \<Rightarrow> nat" where
  "pipe_rank g s src =
     (case rPipe s src of
        Exited \<Rightarrow> 0
      | Leaving \<Rightarrow> 10
      | Checking NoErr \<Rightarrow> 16
      | Checking TimeoutErr \<Rightarrow> if rNow s - lastActivity s < rpIdle g then 14 else 11
      | Checking OtherErr \<Rightarrow> 11
      | Reading \<Rightarrow> if late g s src then 12 else 15
      | Writing _ _ \<Rightarrow> 40)"

definition relay_rank :: "'u relay_params \<Rightarrow> 'u relay \<Rightarrow> nat" where
  "relay_rank g s = pipe_rank g s Client + pipe_rank g s Target + (if watching s then 1 else 0)"

lemma pipe_rank_bound: "pipe_rank g s src \<le> 40"
  by (auto simp: pipe_rank_def split: pipe_state.splits read_err.splits)

lemma relay_rank_split: "relay_rank g s = pipe_rank g s src + pipe_rank g s (peer src) + (if watching s then 1 else 0)"
  by (cases src) (simp_all add: relay_rank_def)

lemma pipe_rank_shift: "rPipe s' x = rPipe s x \<Longrightarrow> pipe_rank g s' x \<le> pipe_rank g s x + 3"
  by (auto simp: pipe_rank_def split: pipe_state.splits read_err.splits)

lemma pipe_rank_wait:
  "rPipe s' x = rPipe s x \<Longrightarrow> rNow s \<le> rNow s' \<Longrightarrow> lastActivity s' = lastActivity s \<Longrightarrow> readDeadline s' x = readDeadline s x
    \<Longrightarrow> pipe_rank g s' x \<le> pipe_rank g s x"
  by (auto simp: pipe_rank_def late_def split: pipe_state.splits read_err.splits)

lemma silent_step_rank:
  assumes "silent_step g s s'" "lastActivity s \<le> rNow s"
  shows "relay_rank g s' < relay_rank g s"
  using assms(1)
proof (cases rule: silent_step.cases)
  case (read_fails src now rerr)
  have "pipe_rank g s' src < pipe_rank g s src"
  proof (cases "late g s src \<and> rerr = TimeoutErr")
    case True
    then have "rpIdle g \<le> now - lastActivity s" using read_fails(5) by (auto simp: late_def)
    then show ?thesis using True read_fails by (simp add: pipe_rank_def pipe_defs)
  next
    case False
    then show ?thesis
      using read_fails by (auto simp: pipe_rank_def pipe_defs split: read_err.splits)
  qed
  moreover have "pipe_rank g s' (peer src) \<le> pipe_rank g s (peer src)"
    by (rule pipe_rank_wait) (use read_fails in \<open>simp_all add: pipe_defs\<close>)
  moreover have "watching s' = watching s" using read_fails by (simp add: pipe_defs)
  ultimately show ?thesis by (simp add: relay_rank_split [of g _ src])
next
  case (write_ok src data rerr now)
  have "pipe_rank g s' src \<le> 16" "pipe_rank g s src = 40"
    using write_ok by (auto simp: pipe_rank_def pipe_defs split: read_err.splits)
  moreover have "pipe_rank g s' (peer src) \<le> pipe_rank g s (peer src) + 3"
    by (rule pipe_rank_shift) (use write_ok in \<open>simp add: pipe_defs\<close>)
  moreover have "watching s' = watching s" using write_ok by (simp add: pipe_defs)
  ultimately show ?thesis by (simp add: relay_rank_split [of g _ src])
next
  case (write_fails src data rerr now k)
  have "pipe_rank g s' src \<le> 16" "pipe_rank g s src = 40"
    using write_fails by (auto simp: pipe_rank_def pipe_defs)
  moreover have "pipe_rank g s' (peer src) \<le> pipe_rank g s (peer src) + 3"
    by (rule pipe_rank_shift) (use write_fails in \<open>simp add: pipe_defs\<close>)
  moreover have "watching s' = watching s" using write_fails by (simp add: pipe_defs)
  ultimately show ?thesis by (simp add: relay_rank_split [of g _ src])
next
  case (check src rerr now)
  have "pipe_rank g s' src < pipe_rank g s src"
    using check assms(2) by (cases rerr) (auto simp: pipe_rank_def pipe_defs late_def)
  moreover have "pipe_rank g s' (peer src) \<le> pipe_rank g s (peer src)"
    by (rule pipe_rank_wait) (use check in \<open>simp_all add: pipe_defs\<close>)
  moreover have "watching s' = watching s" using check by (simp add: pipe_defs)
  ultimately show ?thesis by (simp add: relay_rank_split [of g _ src])
next
  case (leave src now)
  have "pipe_rank g s' src = 0" "pipe_rank g s src = 10" using leave by (simp_all add: pipe_rank_def pipe_defs)
  moreover have "pipe_rank g s' (peer src) \<le> pipe_rank g s (peer src) + 3"
    by (rule pipe_rank_shift) (use leave in \<open>simp add: pipe_defs\<close>)
  moreover have "watching s' = watching s" using leave by (simp add: pipe_defs)
  ultimately show ?thesis by (simp add: relay_rank_split [of g _ src])
next
  case (watchdog now)
  have "pipe_rank g s' x \<le> pipe_rank g s x" for x
    by (rule pipe_rank_wait) (use watchdog in \<open>simp_all add: pipe_defs\<close>)
  then have "pipe_rank g s' Client \<le> pipe_rank g s Client" "pipe_rank g s' Target \<le> pipe_rank g s Target" by blast+
  moreover have "\<not> watching s'" "watching s" using watchdog by (simp_all add: watchdog_fires_def)
  ultimately show ?thesis by (simp add: relay_rank_def)
qed

lemma silent_run_rank:
  assumes "(silent_step g ^^ n) s s'" "relay_inv g st s"
  shows "relay_inv g st s' \<and> n + relay_rank g s' \<le> relay_rank g s"
  using assms(1)
proof (induction n arbitrary: s')
  case 0
  then show ?case using assms(2) by simp
next
  case (Suc n)
  then obtain t where t: "(silent_step g ^^ n) s t" "silent_step g t s'" by auto
  then have inv: "relay_inv g st t" and n: "n + relay_rank g t \<le> relay_rank g s" using Suc.IH by auto
  have "lastActivity t \<le> rNow t" using inv by (simp add: relay_inv_def)
  then have "relay_rank g s' < relay_rank g t" by (rule silent_step_rank [OF t(2)])
  then show ?case using relay_inv_silent [OF t(2) inv] n by simp
qed

lemma shut_progress:
  assumes "socketsClosed s" "rPipe s src \<noteq> Exited"
  shows "\<exists>s'. silent_step g s s'"
proof (cases "rPipe s src")
  case Reading
  then show ?thesis using silent_step.read_fails [OF Reading order_refl, of OtherErr] by auto
next
  case (Writing data rerr)
  then show ?thesis using silent_step.write_fails [OF Writing order_refl, of 0] by auto
next
  case (Checking rerr)
  then show ?thesis using silent_step.check [OF Checking order_refl] by auto
next
  case Leaving
  then show ?thesis using silent_step.leave [OF Leaving order_refl] by auto
qed (use assms in simp)

text \<open>C16. A relay on which nothing arrives any more ends. From any state it can get into, at most 81 steps are
  possible without a further octet being read, so the retries after a timeout do not go on for ever;
  and if the watchdog has closed the sockets it can only stop with both pipes gone.\<close>

theorem relay_terminates:
  assumes "(relay_step g)\<^sup>*\<^sup>* (relay_start now st) s" and "(silent_step g ^^ n) s s'"
  shows "n \<le> 81 \<and> (socketsClosed s' \<longrightarrow> (\<forall>t. \<not> silent_step g s' t) \<longrightarrow> rPipe s' Client = Exited \<and> rPipe s' Target = Exited)"
proof -
  have inv: "relay_inv g st s" by (rule relay_system.steps_inv [OF assms(1) relay_inv_start])
  have "relay_rank g s \<le> 81"
    using pipe_rank_bound [of g s Client] pipe_rank_bound [of g s Target] by (simp add: relay_rank_def)
  then have "n \<le> 81" using silent_run_rank [OF assms(2) inv] by simp
  then show ?thesis using shut_progress [of s' _ g] by blast
qed

definition test_relay_params :: "Manager relay_params" where
  "test_relay_params = \<lparr>rpIdle = 100, rpUpstream = None, rpOrder = rev, rpSession = 1, rpNode = []\<rparr>"

definition test_relay :: "Manager relay" where
  "test_relay = relay_start 5 \<lparr>shDNS = None, shStats = None, shUp = test_manager\<rparr>"

text \<open>One octet goes from the client to the target.\<close>

definition test_copied :: "Manager relay" where
  "test_copied = pipe_write Client [7] NoErr 1 True 8 (pipe_read test_relay_params Client [7] NoErr 7 test_relay)"

lemma test_copied_reached: "(relay_step test_relay_params)\<^sup>*\<^sup>* test_relay test_copied"
proof -
  let ?s = "pipe_read test_relay_params Client [7] NoErr 7 test_relay"
  have "relay_step test_relay_params test_relay ?s"
    by (rule relay_step.read_data) (simp_all add: test_relay_def relay_start_def)
  moreover have "silent_step test_relay_params ?s (pipe_write Client [7] NoErr (length [7 :: byte]) True 8 ?s)"
    by (rule silent_step.write_ok) (simp_all add: pipe_defs test_relay_def relay_start_def)
  ultimately show ?thesis
    unfolding test_copied_def by (auto intro: relay_step.silent converse_rtranclp_into_rtranclp)
qed

theorem relay_integrity_witness: "rSent test_copied Target = [7] \<and> rGot test_copied Client = [7]"
proof -
  have "rSent test_copied Target = rGot test_copied Client"
    using relay_integrity [OF test_copied_reached [unfolded test_relay_def], of None acct0]
    by (simp add: test_copied_def pipe_defs pending_def test_relay_def relay_start_def)
  then show ?thesis by (simp add: test_copied_def pipe_defs test_relay_def relay_start_def test_relay_params_def)
qed

text \<open>Nothing ever arrives: the watchdog fires, and both pipes leave.\<close>

definition gone :: "side \<Rightarrow> Manager relay \<Rightarrow> Manager relay" where
  "gone src s = pipe_leave test_relay_params src 200 (pipe_check test_relay_params src OtherErr 200
     (pipe_read test_relay_params src [] OtherErr 200 s))"

lemma gone_steps:
  assumes "rPipe s src = Reading" "rNow s \<le> 200"
  shows "(silent_step test_relay_params ^^ 3) s (gone src s)"
proof -
  let ?g = test_relay_params
  let ?s1 = "pipe_read ?g src [] OtherErr 200 s"
  let ?s2 = "pipe_check ?g src OtherErr 200 ?s1"
  have "silent_step ?g s ?s1" by (rule silent_step.read_fails) (use assms in simp_all)
  moreover have "silent_step ?g ?s1 ?s2" by (rule silent_step.check) (simp_all add: pipe_defs)
  moreover have "silent_step ?g ?s2 (gone src s)"
    unfolding gone_def by (rule silent_step.leave) (simp_all add: pipe_defs)
  ultimately show ?thesis by (auto simp: numeral_3_eq_3)
qed

definition test_idle :: "Manager relay" where
  "test_idle = gone Target (gone Client (watchdog_fires 200 test_relay))"

lemma test_idle_steps: "(silent_step test_relay_params ^^ 7) test_relay test_idle"
proof -
  have w: "(silent_step test_relay_params ^^ 1) test_relay (watchdog_fires 200 test_relay)"
    unfolding relpowp_1 by (rule silent_step.watchdog) (simp_all add: test_relay_def relay_start_def test_relay_params_def)
  have c: "(silent_step test_relay_params ^^ 3) (watchdog_fires 200 test_relay) (gone Client (watchdog_fires 200 test_relay))"
    by (rule gone_steps) (simp_all add: watchdog_fires_def test_relay_def relay_start_def)
  have t: "(silent_step test_relay_params ^^ 3) (gone Client (watchdog_fires 200 test_relay)) test_idle"
    unfolding test_idle_def by (rule gone_steps) (simp_all add: gone_def pipe_defs test_relay_def relay_start_def)
  show ?thesis using relpowp_trans [OF w relpowp_trans [OF c t]] by simp
qed

theorem relay_terminates_witness: "rPipe test_idle Client = Exited \<and> rPipe test_idle Target = Exited \<and> (7 :: nat) \<le> 81"
proof -
  have start: "(relay_step test_relay_params)\<^sup>*\<^sup>* (relay_start 5 \<lparr>shDNS = None, shStats = None, shUp = test_manager\<rparr>) test_relay"
    by (simp add: test_relay_def)
  have "socketsClosed test_idle" by (simp add: test_idle_def gone_def pipe_defs)
  moreover have "\<not> silent_step test_relay_params test_idle t" for t
  proof
    have p: "rPipe test_idle x = Exited" for x by (cases x) (simp_all add: test_idle_def gone_def pipe_defs)
    have w: "\<not> watching test_idle" by (simp add: test_idle_def gone_def pipe_defs)
    assume "silent_step test_relay_params test_idle t"
    then show False using p w by (auto elim!: silent_stepE)
  qed
  ultimately show ?thesis using relay_terminates [OF start test_idle_steps] by blast
qed

end
