(* ===== verification/Proxy_Socks5.thy ===== *)
theory Proxy_Socks5
  imports Proxy_Session
begin

text \<open>
  \<^verbatim>\<open>core/proxy/socks5.go\<close>, the SOCKS5 server without its UDP association: the address of a request and
  the handler of \<^verbatim>\<open>CONNECT\<close>.

  The input of a client is the list of octets it sends before it closes; reading past its end is the
  error of \<^verbatim>\<open>io.ReadFull\<close>. The network is the argument \<open>dialer\<close>: for every attempt it gives the text of
  the error, \<open>None\<close> for success; it also gives the readings of the clock, the order of map iterations
  and the reads that the relay of the connection goes on to make. The handler returns the code of the
  reply it sends. Deferred calls run in the order Go gives them: the release of the node, then the end
  of the session.
\<close>

section \<open>The server\<close>

definition NewSocks5Server :: "'u Socks5Config \<Rightarrow> 'u Socks5Config" where
  "NewSocks5Server g =
     (let g = (if ListenAddr g = [] then g\<lparr>ListenAddr := ''127.0.0.1:1080''\<rparr> else g)
      in if IdleTimeout g \<le> 0 then g\<lparr>IdleTimeout := defaultIdleTimeout\<rparr> else g)"

text \<open>The life cycle of the listener: whether there is one, the flag \<^verbatim>\<open>closed\<close> and whether \<^verbatim>\<open>stopCh\<close> is closed.\<close>

record listener_state =
  lsListening :: bool
  lsClosed :: bool
  lsStopped :: bool

definition server_new :: listener_state where
  "server_new = \<lparr>lsListening = False, lsClosed = False, lsStopped = False\<rparr>"

definition server_Start :: "bool \<Rightarrow> listener_state \<Rightarrow> bool \<times> listener_state" where
  "server_Start can_bind s =
     (if lsListening s then (True, s)
      else if \<not> can_bind then (False, s)
      else (True, s\<lparr>lsListening := True, lsClosed := False\<rparr>))"

definition server_Stop :: "listener_state \<Rightarrow> listener_state" where
  "server_Stop s = (if lsClosed s then s else s\<lparr>lsClosed := True, lsStopped := True, lsListening := False\<rparr>)"

text \<open>One turn of \<^verbatim>\<open>acceptLoop\<close> after \<^verbatim>\<open>Accept\<close> returned an error: whether the loop goes on.\<close>

definition accept_error :: "listener_state \<Rightarrow> bool" where
  "accept_error s \<longleftrightarrow> \<not> lsStopped s"

section \<open>The address of a request\<close>

definition ReadFull :: "nat \<Rightarrow> byte list \<Rightarrow> (byte list \<times> byte list) option" where
  "ReadFull n input = (if length input < n then None else Some (take n input, drop n input))"

definition byte_char :: "byte \<Rightarrow> char" where
  "byte_char b = char_of (unat b)"

definition char_byte :: "char \<Rightarrow> byte" where
  "char_byte c = of_nat (of_char c)"

definition read_host :: "byte \<Rightarrow> byte list \<Rightarrow> (string \<times> byte list) option" where
  "read_host atyp input =
     (if atyp = 0x01 then map_option (\<lambda>(ip, r). (IP_String ip, r)) (ReadFull 4 input)
      else if atyp = 0x03 then
        (case ReadFull 1 input of
           None \<Rightarrow> None
         | Some (lenBuf, r) \<Rightarrow>
             map_option (\<lambda>(name, r). (map byte_char name, r)) (ReadFull (unat (hd lenBuf)) r))
      else if atyp = 0x04 then map_option (\<lambda>(ip, r). (IP_String ip, r)) (ReadFull 16 input)
      else None)"

definition readSocks5Addr :: "byte list \<Rightarrow> byte \<Rightarrow> (string \<times> int \<times> byte list) option" where
  "readSocks5Addr input atyp =
     (case read_host atyp input of
        None \<Rightarrow> None
      | Some (host, r) \<Rightarrow>
          (case ReadFull 2 r of
             None \<Rightarrow> None
           | Some (portBuf, r) \<Rightarrow>
               Some (canonicalHost host, int (unat (portBuf ! 0)) * 256 + int (unat (portBuf ! 1)), r)))"

section \<open>CONNECT\<close>

record dialer =
  dRng :: order
  dGeo :: "IP \<Rightarrow> string option"
  dClock :: "nat \<Rightarrow> instant"
  dRemote :: "string option"
  dDirect :: "string \<Rightarrow> string option"
  dResolveTCP :: "string \<Rightarrow> string option"
  dDialTCP :: "string \<Rightarrow> string option"
  dHandshake :: "string \<times> string \<Rightarrow> string option"
  dSetRequest :: "string \<Rightarrow> int \<Rightarrow> string option"
  dWritten :: bool
  dRelay :: "relay_read list"

definition fail_session :: "dialer \<Rightarrow> int \<Rightarrow> string \<Rightarrow> 'u shared \<Rightarrow> 'u shared" where
  "fail_session d i msg st = with_stats (\<lambda>c. Fail (dRng d) c (dClock d 2) i (Some msg)) st"

definition end_session :: "dialer \<Rightarrow> int \<Rightarrow> 'u shared \<Rightarrow> 'u shared" where
  "end_session d i st = with_stats (\<lambda>c. End (dRng d) c (dClock d 3) i None) st"

definition connect_direct :: "dialer \<Rightarrow> string \<Rightarrow> int \<Rightarrow> 'u shared \<Rightarrow> nat \<times> 'u shared" where
  "connect_direct d targetAddr i st =
     (case dDirect d targetAddr of
        Some err \<Rightarrow> (0x05, fail_session d i (''direct dial '' @ targetAddr @ '': '' @ err) st)
      | None \<Rightarrow>
          (0x00, if \<not> dWritten d then st else relay_counts None (dRng d) i [] (dRelay d) st))"

definition connect_via ::
  "dialer \<Rightarrow> 'u Socks5Config \<Rightarrow> string \<Rightarrow> int \<Rightarrow> int \<Rightarrow> string \<Rightarrow> string \<Rightarrow> 'u shared \<Rightarrow> nat \<times> 'u shared" where
  "connect_via d g targetHost targetPort i sppAddr nodeName st =
     (if sppAddr = [] then (0x01, fail_session d i ''no upstream SPP proxy available'' st)
      else case dResolveTCP d sppAddr of
        Some err \<Rightarrow> (0x01, fail_session d i (''resolve SPP upstream: '' @ err) st)
      | None \<Rightarrow>
          (case dDialTCP d sppAddr of
             Some err \<Rightarrow>
               (0x01, fail_session d i (''dial SPP upstream: '' @ err) (report_failure g (dClock d 4) nodeName st))
           | None \<Rightarrow>
               (case dHandshake d (upstream_auth g st) of
                  Some err \<Rightarrow>
                    (0x01, fail_session d i (''SPP upstream handshake: '' @ err) (report_failure g (dClock d 4) nodeName st))
                | None \<Rightarrow>
                    (case dSetRequest d (canonicalHost targetHost) targetPort of
                       Some err \<Rightarrow> (0x01, fail_session d i (''SPP upstream connect: '' @ err) st)
                     | None \<Rightarrow>
                         let st = recordNodeTraffic (cfgUpstream g) (dClock d 5) nodeName 1 1 st
                         in (0x00, if \<not> dWritten d then st
                                   else relay_counts (cfgUpstream g) (dRng d) i nodeName (dRelay d) st)))))"

definition connect_proxy ::
  "dialer \<Rightarrow> 'u Socks5Config \<Rightarrow> string \<Rightarrow> int \<Rightarrow> int \<Rightarrow> 'u shared \<Rightarrow> nat \<times> 'u shared" where
  "connect_proxy d g targetHost targetPort i st =
     (if \<not> EnableIPv6 g \<and> isIPv6Literal targetHost then (0x03, st)
      else
        let ((sppAddr, nodeName, lease), st) = pick_upstream g st;
            st = (if nodeName \<noteq> [] then with_stats (\<lambda>c. SetNode c i nodeName) st else st);
            (reply, st) = connect_via d g targetHost targetPort i sppAddr nodeName st
        in (reply, release_upstream g lease st))"

definition handleConnect :: "dialer \<Rightarrow> 'u Socks5Config \<Rightarrow> string \<Rightarrow> int \<Rightarrow> 'u shared \<Rightarrow> nat \<times> 'u shared" where
  "handleConnect d g targetHost0 targetPort st =
     (let targetHost = canonicalHost targetHost0;
          ((decision, realHost), st) = routeDecision (dGeo d) g (dClock d 0) targetHost st;
          targetAddr = joinDialAddr targetHost targetPort;
          (i, st) = beginSession g (dClock d 1) ProtoSOCKS5 (addrString (dRemote d)) realHost targetPort decision st;
          (reply, st) = (if decision = Direct then connect_direct d targetAddr i st
                         else connect_proxy d g targetHost targetPort i st)
      in (reply, end_session d i st))"

section \<open>Addresses on the wire\<close>

text \<open>RFC 1928: the three kinds of address and their octets.\<close>

datatype wire_addr = Wire_v4 IP | Wire_name string | Wire_v6 IP

fun wire_ok :: "wire_addr \<Rightarrow> bool" where
  "wire_ok (Wire_v4 ip) \<longleftrightarrow> length ip = 4"
| "wire_ok (Wire_name s) \<longleftrightarrow> length s \<le> 255"
| "wire_ok (Wire_v6 ip) \<longleftrightarrow> length ip = 16"

fun wire_type :: "wire_addr \<Rightarrow> byte" where
  "wire_type (Wire_v4 ip) = 0x01"
| "wire_type (Wire_name s) = 0x03"
| "wire_type (Wire_v6 ip) = 0x04"

fun wire_bytes :: "wire_addr \<Rightarrow> byte list" where
  "wire_bytes (Wire_v4 ip) = ip"
| "wire_bytes (Wire_name s) = of_nat (length s) # map char_byte s"
| "wire_bytes (Wire_v6 ip) = ip"

fun wire_text :: "wire_addr \<Rightarrow> string" where
  "wire_text (Wire_v4 ip) = IP_String ip"
| "wire_text (Wire_name s) = canonicalHost s"
| "wire_text (Wire_v6 ip) = IP_String ip"

definition port_bytes :: "nat \<Rightarrow> byte list" where
  "port_bytes p = [of_nat (p div 256), of_nat (p mod 256)]"

lemma byte_char_byte [simp]: "byte_char (char_byte c) = c"
proof -
  have "unat (char_byte c) = of_char c"
    by (simp add: char_byte_def unsigned_of_nat take_bit_nat_eq_self)
  then show ?thesis by (simp add: byte_char_def)
qed

lemma ReadFull_append [simp]: "ReadFull (length xs) (xs @ ys) = Some (xs, ys)"
  by (simp add: ReadFull_def)

lemma ReadFull_length: "length xs = n \<Longrightarrow> ReadFull n (xs @ ys) = Some (xs, ys)"
  by (simp add: ReadFull_def)

lemma unat_byte: "n < 256 \<Longrightarrow> unat (of_nat n :: byte) = n"
  by (simp add: unsigned_of_nat take_bit_nat_eq_self)

lemma canonicalHost_IP_String:
  assumes "length ip = 4 \<or> length ip = 16"
  shows "canonicalHost (IP_String ip) = IP_String ip" "ParseIP (IP_String ip) = Some (As16 ip)"
proof -
  have same: "IP_String ip = IP_String (As16 ip)"
    using assms by (auto simp: IP_String_def As16_def)
  have len: "length (As16 ip) = 16" using assms by (auto simp: As16_def)
  show p: "ParseIP (IP_String ip) = Some (As16 ip)" unfolding same by (rule ParseIP_IP_String [OF len])
  have "ParseIP (unbracket (IP_String ip)) = Some (As16 ip)"
    using p unbracket_IP_String [OF len] by (simp add: same)
  then show "canonicalHost (IP_String ip) = IP_String ip" using canonicalHost_ip same by simp
qed

fun wire_raw :: "wire_addr \<Rightarrow> string" where
  "wire_raw (Wire_v4 ip) = IP_String ip"
| "wire_raw (Wire_name s) = s"
| "wire_raw (Wire_v6 ip) = IP_String ip"

lemma read_host_wire:
  assumes "wire_ok a"
  shows "read_host (wire_type a) (wire_bytes a @ r) = Some (wire_raw a, r) \<and> canonicalHost (wire_raw a) = wire_text a"
proof (cases a)
  case (Wire_name s)
  then have "unat (of_nat (length s) :: byte) = length s" using assms by (intro unat_byte) simp
  moreover have "map byte_char (map char_byte s) = s" by (simp add: map_idI)
  ultimately show ?thesis
    using ReadFull_length [of "map char_byte s" "length s" r] Wire_name
    by (simp add: read_host_def ReadFull_def del: map_map)
qed (use assms canonicalHost_IP_String in \<open>simp_all add: read_host_def ReadFull_length\<close>)

lemma read_host_short:
  assumes "wire_ok a" "k < length (wire_bytes a)"
  shows "read_host (wire_type a) (take k (wire_bytes a)) = None"
proof (cases a)
  case (Wire_name s)
  have n: "unat (of_nat (length s) :: byte) = length s" using assms Wire_name by (intro unat_byte) simp
  show ?thesis using assms Wire_name n by (cases k) (simp_all add: read_host_def ReadFull_def)
qed (use assms in \<open>simp_all add: read_host_def ReadFull_def\<close>)

lemma read_port: "p < 65536 \<Longrightarrow> int (unat (port_bytes p ! 0)) * 256 + int (unat (port_bytes p ! 1)) = int p"
proof -
  assume "p < 65536"
  then have "unat (of_nat (p div 256) :: byte) = p div 256" "unat (of_nat (p mod 256) :: byte) = p mod 256"
    by (auto intro!: unat_byte)
  moreover have "int (p div 256) * 256 + int (p mod 256) = int p"
    by (metis div_mult_mod_eq of_nat_add of_nat_mult of_nat_numeral)
  ultimately show ?thesis by (simp only: port_bytes_def nth_Cons_0 nth_Cons_Suc One_nat_def)
qed

text \<open>C24. The address of a request survives its encoding. Reading the octets RFC 1928 prescribes for an
  IPv4 or IPv6 address or a name of up to 255 octets, and a port, gives that host in canonical text,
  which for an address parses to the same address, and that port, and leaves the rest of the stream;
  any proper prefix of the octets is an error, so nothing is acted on before the address is complete.\<close>

theorem socks_address_roundtrip:
  assumes "wire_ok a" and "p < 65536"
  shows "readSocks5Addr (wire_bytes a @ port_bytes p @ rest) (wire_type a) = Some (wire_text a, int p, rest)
    \<and> (\<forall>ip. a = Wire_v4 ip \<or> a = Wire_v6 ip \<longrightarrow> ParseIP (wire_text a) = Some (As16 ip))
    \<and> (\<forall>k < length (wire_bytes a @ port_bytes p). readSocks5Addr (take k (wire_bytes a @ port_bytes p)) (wire_type a) = None)"
proof (intro conjI allI impI)
  have two: "length (port_bytes p) = 2" by (simp add: port_bytes_def)
  show "readSocks5Addr (wire_bytes a @ port_bytes p @ rest) (wire_type a) = Some (wire_text a, int p, rest)"
    using read_host_wire [OF assms(1)] read_port [OF assms(2)] by (simp add: readSocks5Addr_def ReadFull_length two)
  fix ip assume "a = Wire_v4 ip \<or> a = Wire_v6 ip"
  then show "ParseIP (wire_text a) = Some (As16 ip)"
    using assms(1) canonicalHost_IP_String(2) [of ip] by auto
next
  fix k assume k: "k < length (wire_bytes a @ port_bytes p)"
  show "readSocks5Addr (take k (wire_bytes a @ port_bytes p)) (wire_type a) = None"
  proof (cases "k < length (wire_bytes a)")
    case True
    then show ?thesis using read_host_short [OF assms(1) True] by (simp add: readSocks5Addr_def)
  next
    case False
    then have "take k (wire_bytes a @ port_bytes p) = wire_bytes a @ take (k - length (wire_bytes a)) (port_bytes p)" by simp
    then show ?thesis
      using read_host_wire [OF assms(1)] k False by (simp add: readSocks5Addr_def ReadFull_def port_bytes_def)
  qed
qed

theorem socks_address_roundtrip_witness:
  "readSocks5Addr ([0x20, 0x01, 0x0d, 0xb8, 0, 0, 0, 0, 0, 0, 0, 0, 0, 0, 0, 1] @ [1, 187] @ [9]) 0x04
     = Some (IP_String [0x20, 0x01, 0x0d, 0xb8, 0, 0, 0, 0, 0, 0, 0, 0, 0, 0, 0, 1], 443, [9])
   \<and> readSocks5Addr ([3] @ [119, 119, 119] @ [0, 80]) 0x03 = Some (''www'', 80, [])"
proof
  show "readSocks5Addr ([0x20, 0x01, 0x0d, 0xb8, 0, 0, 0, 0, 0, 0, 0, 0, 0, 0, 0, 1] @ [1, 187] @ [9]) 0x04
     = Some (IP_String [0x20, 0x01, 0x0d, 0xb8, 0, 0, 0, 0, 0, 0, 0, 0, 0, 0, 0, 1], 443, [9])"
    using socks_address_roundtrip [of "Wire_v6 [0x20, 0x01, 0x0d, 0xb8, 0, 0, 0, 0, 0, 0, 0, 0, 0, 0, 0, 1]" 443 "[9]"]
    by (simp add: port_bytes_def)
  have "canonicalHost ''www'' = ''www''" by code_simp
  then show "readSocks5Addr ([3] @ [119, 119, 119] @ [0, 80]) 0x03 = Some (''www'', 80, [])"
    using socks_address_roundtrip [of "Wire_name ''www''" 80 "[]"]
    by (simp add: port_bytes_def char_byte_def)
qed

section \<open>The outcome of CONNECT\<close>

text \<open>The reply a connection gets, in the order in which the handler finds out.\<close>

definition via_reply :: "dialer \<Rightarrow> string \<Rightarrow> int \<Rightarrow> string \<Rightarrow> string \<times> string \<Rightarrow> nat" where
  "via_reply d host port sppAddr auth =
     (if sppAddr \<noteq> [] \<and> dResolveTCP d sppAddr = None \<and> dDialTCP d sppAddr = None \<and> dHandshake d auth = None
         \<and> dSetRequest d (canonicalHost host) port = None then 0x00 else 0x01)"

definition reply_account :: "dialer \<Rightarrow> nat \<Rightarrow> account" where
  "reply_account d reply =
     (let a = (if reply = 0x00 \<and> dWritten d then add_reads (dRelay d) acct0 else acct0)
      in a\<lparr>acDone := True, acErrors := (if reply = 0x01 \<or> reply = 0x05 then 1 else 0)\<rparr>)"

lemma sh_tracks_fail: "sh_tracks i c0 a st \<Longrightarrow> sh_tracks i c0 (end_account (Some msg) a) (fail_session d i msg st)"
  by (simp add: fail_session_def Fail_def sh_tracks_End)

lemma fail_session_shUp [simp]: "shUp (fail_session d i msg st) = shUp st"
  by (simp add: fail_session_def with_stats_def)

lemma end_session_shUp [simp]: "shUp (end_session d i st) = shUp st"
  by (simp add: end_session_def with_stats_def)

text \<open>What a handler leaves of its session before the deferred end of it.\<close>

definition outcome :: "dialer \<Rightarrow> int \<Rightarrow> Collector option \<Rightarrow> nat \<times> 'u shared \<Rightarrow> bool" where
  "outcome d i c0 r \<longleftrightarrow> (\<exists>a. sh_tracks i c0 a (snd r) \<and> end_account None a = reply_account d (fst r))"

lemma outcome_failed:
  assumes "sh_tracks i c0 acct0 st" "reply = 0x01 \<or> reply = 0x05"
  shows "outcome d i c0 (reply, fail_session d i msg st)"
proof -
  have "end_account None (end_account (Some msg) acct0) = reply_account d reply"
    using assms(2) by (auto simp: end_account_def acct0_def reply_account_def Let_def)
  then show ?thesis using sh_tracks_fail [OF assms(1)] unfolding outcome_def by fastforce
qed

lemma outcome_relayed:
  assumes "sh_tracks i c0 acct0 st"
  shows "outcome d i c0 (0x00, if \<not> dWritten d then st else relay_counts u (dRng d) i name (dRelay d) st)"
proof -
  have "end_account None (if dWritten d then add_reads (dRelay d) acct0 else acct0) = reply_account d 0x00"
    by (auto simp: end_account_def acct0_def reply_account_def add_reads_def)
  then show ?thesis
    using assms sh_tracks_reads [OF assms, of "dRelay d" u "dRng d" name] unfolding outcome_def by (cases "dWritten d") auto
qed

lemma connect_direct_outcome:
  assumes "sh_tracks i c0 acct0 st"
  shows "outcome d i c0 (connect_direct d targetAddr i st)"
  by (cases "dDirect d targetAddr")
    (simp_all add: connect_direct_def outcome_failed [OF assms] outcome_relayed [OF assms] split del: if_split)

lemma connect_via_outcome:
  assumes "sh_tracks i c0 acct0 st"
  shows "outcome d i c0 (connect_via d g host port i sppAddr name st)"
proof -
  have f: "sh_tracks i c0 acct0 (report_failure g now name st)" "sh_tracks i c0 acct0 (recordNodeTraffic u now name up down st)"
    for now u up down using assms by simp_all
  show "outcome d i c0 (connect_via d g host port i sppAddr name st)"
    by (cases "sppAddr = []"; cases "dResolveTCP d sppAddr"; cases "dDialTCP d sppAddr"; cases "dHandshake d (upstream_auth g st)";
        cases "dSetRequest d (canonicalHost host) port")
      (simp_all add: connect_via_def Let_def outcome_failed [OF assms] outcome_failed [OF f(1)] outcome_relayed [OF f(2)]
        split del: if_split)
qed

lemma outcome_release: "outcome d i c0 (reply, release_upstream g lease st) = outcome d i c0 (reply, st)"
  by (simp add: outcome_def)

text \<open>The handler once IPv6 is not in the way: pick, remember the node, connect, release.\<close>

lemma connect_proxy_picked:
  fixes i :: int
  assumes "\<not> (\<not> EnableIPv6 g \<and> isIPv6Literal host)" "pick_upstream g st = ((a, name, lease), st1)"
  defines "st2 \<equiv> (if name \<noteq> [] then with_stats (\<lambda>c. SetNode c i name) st1 else st1)"
  shows "connect_proxy d g host port i st =
    (fst (connect_via d g host port i a name st2), release_upstream g lease (snd (connect_via d g host port i a name st2)))"
proof -
  have "(\<not> EnableIPv6 g \<and> isIPv6Literal host) = False" using assms(1) by simp
  then show ?thesis
    unfolding connect_proxy_def st2_def assms(2) Let_def by (simp only: if_False split_def fst_conv snd_conv)
qed

lemma connect_proxy_outcome:
  assumes "sh_tracks i c0 acct0 st"
  shows "outcome d i c0 (connect_proxy d g host port i st)"
proof (cases "\<not> EnableIPv6 g \<and> isIPv6Literal host")
  case True
  have "end_account None acct0 = reply_account d 0x03" by (simp add: end_account_def acct0_def reply_account_def)
  then show ?thesis using True assms by (auto simp: connect_proxy_def outcome_def)
next
  case False
  obtain a name lease st1 where p: "pick_upstream g st = ((a, name, lease), st1)" by (metis prod.collapse)
  define st2 where "st2 = (if name \<noteq> [] then with_stats (\<lambda>c. SetNode c i name) st1 else st1)"
  have "sh_tracks i c0 acct0 st1" using assms sh_tracks_cong [OF shStats_pick [OF p]] by simp
  then have "sh_tracks i c0 acct0 st2" by (simp add: st2_def sh_tracks_SetNode)
  note via = connect_via_outcome [OF this, of d g host port a name]
  then show ?thesis
    using connect_proxy_picked [OF False p, of d port i] by (simp add: st2_def [symmetric] outcome_release)
qed

text \<open>The session of a handler, from the decision to the deferred end.\<close>

lemma handler_session:
  assumes "shStats st = Some c" "ledger_ok c" "routeDecision geo g now host st = ((dec, rh), st1)"
    and "beginSession g now' p peer host' port dec st1 = (i, st2)"
  shows "shUp st2 = shUp st" "sh_tracks i (shStats st2) acct0 st2"
    and "sh_tracks i (shStats st2) a st3 \<Longrightarrow>
      \<exists>c'. shStats (end_session d i st3) = Some c' \<and> session_closed c (end_account None a) c'"
proof -
  have s1: "shStats st1 = Some c" "shUp st1 = shUp st" using shStats_route [OF assms(3)] assms(1) by simp_all
  obtain sd node where sb: "stats_begin now' p peer host' port sd node st1 = (i, st2)"
    using assms(4) by (auto simp: beginSession_def Let_def)
  show "shUp st2 = shUp st" "sh_tracks i (shStats st2) acct0 st2" using sh_tracks_begin [OF sb] s1 assms(2) by simp_all
  show "\<exists>c'. shStats (end_session d i st3) = Some c' \<and> session_closed c (end_account None a) c'"
    if "sh_tracks i (shStats st2) a st3"
    by (rule sh_closed [OF s1(1) assms(2) sb]) (use sh_tracks_End [OF that, of None] in \<open>auto simp: end_session_def end_account_def\<close>)
qed

lemma handleConnect_steps:
  assumes "shStats st = Some c" "ledger_ok c"
  obtains i st2 r where "shUp st2 = shUp st" "sh_tracks i (shStats st2) acct0 st2"
    "r = connect_direct d (joinDialAddr (canonicalHost host) port) i st2 \<or> r = connect_proxy d g (canonicalHost host) port i st2"
    "handleConnect d g host port st = (fst r, end_session d i (snd r))"
    "\<And>a. sh_tracks i (shStats st2) a (snd r) \<Longrightarrow>
       \<exists>c'. shStats (end_session d i (snd r)) = Some c' \<and> session_closed c (end_account None a) c'"
proof -
  obtain dec real st1 where rt: "routeDecision (dGeo d) g (dClock d 0) (canonicalHost host) st = ((dec, real), st1)"
    by (metis prod.collapse)
  obtain i st2 where b: "beginSession g (dClock d 1) ProtoSOCKS5 (addrString (dRemote d)) real port dec st1 = (i, st2)"
    by (cases "beginSession g (dClock d 1) ProtoSOCKS5 (addrString (dRemote d)) real port dec st1")
  define r where "r = (if dec = Direct then connect_direct d (joinDialAddr (canonicalHost host) port) i st2
    else connect_proxy d g (canonicalHost host) port i st2)"
  note session = handler_session [OF assms rt b]
  show ?thesis
  proof (rule that [of st2 i r])
    show "r = connect_direct d (joinDialAddr (canonicalHost host) port) i st2 \<or> r = connect_proxy d g (canonicalHost host) port i st2"
      by (simp add: r_def)
    show "handleConnect d g host port st = (fst r, end_session d i (snd r))"
      unfolding handleConnect_def Let_def rt prod.case b r_def [symmetric] by (simp add: split_def)
  qed (use session in auto)
qed

context upstream_provider
begin

lemma holds_fail [simp]: "holds lease before (fail_session d i msg st) = holds lease before st"
  by (rule holds_shUp) simp

lemma holds_end_session [simp]: "holds lease before (end_session d i st) = holds lease before st"
  by (rule holds_shUp) simp

lemma holds_direct:
  assumes "holds lease before st"
  shows "holds lease before (snd (connect_direct d a i st))"
proof -
  have "shUp (relay_counts None rng i name evs s) = shUp s" for rng name evs and s :: "'u shared"
    unfolding relay_counts_def
    by (induction evs arbitrary: s) (auto simp: relay_count_def recordNodeTraffic_def with_stats_def split: relay_read.splits)
  then have "holds lease before (relay_counts None rng i name evs st)" for rng name evs
    using assms holds_shUp by metis
  then show ?thesis using assms by (auto simp: connect_direct_def split: option.splits)
qed

lemma holds_via:
  assumes "cfgUpstream g = Some u" "holds lease before st"
  shows "holds lease before (snd (connect_via d g host port i a name st))"
  using assms holds_report [OF assms] holds_traffic [OF assms(2)] holds_relay
  by (auto simp: connect_via_def Let_def split: option.splits)

lemma holds_proxy:
  assumes "cfgUpstream g = Some u" "holds None before st"
  shows "holds None before (snd (connect_proxy d g host port i st))"
proof (cases "\<not> EnableIPv6 g \<and> isIPv6Literal host")
  case False
  obtain a name lease st1 where p: "pick_upstream g st = ((a, name, lease), st1)" by (metis prod.collapse)
  define st2 where "st2 = (if name \<noteq> [] then with_stats (\<lambda>c. SetNode c i name) st1 else st1)"
  have "holds lease before st2" using holds_pick [OF assms p] by (simp add: st2_def)
  note via = holds_release [OF assms(1) holds_via [OF assms(1) this, of d host port i a name]]
  then show ?thesis
    using connect_proxy_picked [OF False p, of d port i] by (simp add: st2_def [symmetric])
qed (use assms in \<open>simp add: connect_proxy_def\<close>)

lemma handleConnect_balanced:
  assumes "cfgUpstream g = Some u" "inv (shUp st)" "shStats st = Some c" "ledger_ok c"
  shows "inv (shUp (snd (handleConnect d g host port st))) \<and> conns (shUp (snd (handleConnect d g host port st))) = conns (shUp st)"
proof (rule handleConnect_steps [OF assms(3,4), of d host port g])
  fix i st2 and r :: "nat \<times> 'u shared"
  assume up: "shUp st2 = shUp st"
    and r: "r = connect_direct d (joinDialAddr (canonicalHost host) port) i st2 \<or> r = connect_proxy d g (canonicalHost host) port i st2"
    and h: "handleConnect d g host port st = (fst r, end_session d i (snd r))"
  have "holds None (conns (shUp st)) st2" using holds_start [OF assms(2)] holds_shUp [OF up] by simp
  then have "holds None (conns (shUp st)) (snd r)" using r holds_direct holds_proxy [OF assms(1)] by auto
  then show ?thesis using h holds_end [of _ "end_session d i (snd r)"] by simp
qed

end

section \<open>The reply\<close>

lemma shUp_begin: "beginSession g now p peer host port dec st = (i, st') \<Longrightarrow> shUp st' = shUp st"
  by (cases "shStats st") (auto simp: beginSession_def stats_begin_def Let_def split: prod.splits)

lemma pick_upstream_shUp:
  assumes "shUp st' = shUp st"
  shows "fst (pick_upstream g st') = fst (pick_upstream g st)" "shUp (snd (pick_upstream g st')) = shUp (snd (pick_upstream g st))"
  using assms by (auto simp: pick_upstream_def split: option.splits prod.splits)

lemma upstream_auth_shUp: "shUp st' = shUp st \<Longrightarrow> upstream_auth g st' = upstream_auth g st"
  by (simp add: upstream_auth_def split: option.split)

lemma fst_connect_via: "fst (connect_via d g host port i sppAddr name st) = via_reply d host port sppAddr (upstream_auth g st)"
  by (auto simp: connect_via_def via_reply_def Let_def split: option.splits)

text \<open>The code of the reply is determined by the decision of the router and the first attempt that fails:
  5 when the target cannot be reached directly, 3 for an IPv6 target while IPv6 is disabled, 1 when no
  node is available or any step through it fails, and 0 otherwise.\<close>

lemma handleConnect_reply:
  "fst (handleConnect d g host0 port st) =
     (let host = canonicalHost host0;
          decision = fst (fst (routeDecision (dGeo d) g (dClock d 0) host st));
          ((sppAddr, _, _), st1) = pick_upstream g st
      in if decision = Direct then (if dDirect d (joinDialAddr host port) = None then 0x00 else 0x05)
         else if \<not> EnableIPv6 g \<and> isIPv6Literal host then 0x03
         else via_reply d host port sppAddr (upstream_auth g st1))"
proof -
  let ?host = "canonicalHost host0"
  obtain dec real st1 where rt: "routeDecision (dGeo d) g (dClock d 0) ?host st = ((dec, real), st1)"
    by (metis prod.collapse)
  obtain i st2 where b: "beginSession g (dClock d 1) ProtoSOCKS5 (addrString (dRemote d)) real port dec st1 = (i, st2)"
    by (cases "beginSession g (dClock d 1) ProtoSOCKS5 (addrString (dRemote d)) real port dec st1")
  have up: "shUp st2 = shUp st" using shUp_begin [OF b] shStats_route [OF rt] by simp
  obtain a name lease s1 where p: "pick_upstream g st = ((a, name, lease), s1)" by (metis prod.collapse)
  obtain s2 where p2: "pick_upstream g st2 = ((a, name, lease), s2)" and u2: "shUp s2 = shUp s1"
    using pick_upstream_shUp [OF up, of g] p by (cases "pick_upstream g st2") auto
  define s3 where "s3 = (if name \<noteq> [] then with_stats (\<lambda>c. SetNode c i name) s2 else s2)"
  have "shUp s3 = shUp s1" by (simp add: s3_def with_stats_def u2)
  then have proxy: "fst (connect_proxy d g ?host port i st2) = via_reply d ?host port a (upstream_auth g s1)"
    if "\<not> (\<not> EnableIPv6 g \<and> isIPv6Literal ?host)"
    using connect_proxy_picked [OF that p2, of d port i] upstream_auth_shUp [of s3 s1 g]
    by (simp add: s3_def [symmetric] fst_connect_via)
  have "fst (handleConnect d g host0 port st) =
      fst (if dec = Direct then connect_direct d (joinDialAddr ?host port) i st2 else connect_proxy d g ?host port i st2)"
    unfolding handleConnect_def Let_def rt prod.case b by (simp add: split_def)
  also have "\<dots> = (if dec = Direct then (if dDirect d (joinDialAddr ?host port) = None then 0x00 else 0x05)
      else if \<not> EnableIPv6 g \<and> isIPv6Literal ?host then 0x03 else via_reply d ?host port a (upstream_auth g s1))"
    using proxy by (auto simp: connect_direct_def connect_proxy_def split: option.splits)
  finally show ?thesis by (simp add: rt p Let_def)
qed

lemma handleConnect_closed:
  assumes "shStats st = Some c" and "ledger_ok c" and "handleConnect d g host port st = (reply, st')"
  shows "\<exists>c'. shStats st' = Some c' \<and> session_closed c (reply_account d reply) c'"
proof (rule handleConnect_steps [OF assms(1,2), of d host port g])
  fix i st2 r
  assume tr: "sh_tracks i (shStats st2) acct0 st2"
    and r: "r = connect_direct d (joinDialAddr (canonicalHost host) port) i st2 \<or> r = connect_proxy d g (canonicalHost host) port i st2"
    and h: "handleConnect d g host port st = (fst r, end_session d i (snd r))"
    and e: "\<And>a. sh_tracks i (shStats st2) a (snd r) \<Longrightarrow>
      \<exists>c'. shStats (end_session d i (snd r)) = Some c' \<and> session_closed c (end_account None a) c'"
  have "outcome d i (shStats st2) r" using r connect_direct_outcome [OF tr] connect_proxy_outcome [OF tr] by auto
  then obtain a where "sh_tracks i (shStats st2) a (snd r)" "end_account None a = reply_account d (fst r)"
    by (auto simp: outcome_def)
  then show ?thesis using e [of a] h assms(3) by auto
qed

text \<open>C9. Nothing of a connection is left behind. Whatever fails on the way, and whatever the client and the
  target send, when \<^verbatim>\<open>handleConnect\<close> returns every node has the number of connections it had before,
  the session it opened is no longer active and is counted once, with exactly the bytes the relay read
  in each direction, and one error is counted if the reply was a failure (codes 1 and 5) and none
  otherwise.\<close>

theorem connect_leaves_nothing:
  assumes "cfgUpstream g = Some (manager_upstream w)" and "mgr_counts_ok (shUp st)"
    and "shStats st = Some c" and "reach accounting rng cf c"
    and "handleConnect d g host port st = (reply, st')"
  shows "mgr_conns (shUp st') = mgr_conns (shUp st)
    \<and> (\<exists>c'. shStats st' = Some c' \<and> session_closed c (reply_account d reply) c')"
proof
  have l: "ledger_ok c" by (rule reach_ledger [OF assms(4)])
  show "mgr_conns (shUp st') = mgr_conns (shUp st)"
    using managed.handleConnect_balanced [OF assms(1,2,3) l, of d host port] assms(5) by simp
  show "\<exists>c'. shStats st' = Some c' \<and> session_closed c (reply_account d reply) c'"
    by (rule handleConnect_closed [OF assms(3) l assms(5)])
qed

definition test_dialer :: dialer where
  "test_dialer = \<lparr>dRng = rev, dGeo = (\<lambda>_. None), dClock = (\<lambda>k. 100000000000 + int k), dRemote = Some ''10.0.0.9:4000'',
     dDirect = (\<lambda>_. None), dResolveTCP = (\<lambda>_. None), dDialTCP = (\<lambda>_. None), dHandshake = (\<lambda>_. None),
     dSetRequest = (\<lambda>_ _. None), dWritten = True,
     dRelay = [FromClient 100000000007 120, FromTarget 100000000008 4096, FromTarget 100000000009 904]\<rparr>"

definition test_socks_config :: "Manager Socks5Config" where
  "test_socks_config = \<lparr>ListenAddr = [], Username = [], Password = [], cfgRouter = None,
     cfgUpstream = Some (manager_upstream test_world), ActiveNode = Some ActiveNodeName, EnableIPv6 = False, IdleTimeout = 0\<rparr>"

definition test_shared :: "Manager shared" where
  "test_shared = \<lparr>shDNS = None, shStats = Some (New_collector 100000000000 test_config), shUp = test_manager\<rparr>"

lemma test_PickNode: "fst (PickNode test_world test_manager) = (''x:2'', ''a'', Some 1)"
proof -
  have "runtimes test_manager \<noteq> []" "\<not> closed test_manager" by (simp_all add: test_manager_def)
  then obtain i where "fst (PickNode test_world test_manager) =
      (localSocks5 (runtimes test_manager ! i), ndName (rnode (runtimes test_manager ! i)), Some i)"
    "i \<in> set (getActiveTierCandidatesLocked test_manager)"
    using PickNode_result [of test_manager test_world] by auto
  moreover have "getActiveTierCandidatesLocked test_manager = [1]" by code_simp
  ultimately show ?thesis by (simp add: test_manager_def new_runtime_def test_node_def)
qed

lemma test_not_address: "canonicalHost ''a.example'' = ''a.example''" "isIPv6Literal ''a.example'' = False"
  by code_simp+

lemma test_connect_reply: "fst (handleConnect test_dialer test_socks_config ''a.example'' 443 test_shared) = 0"
proof -
  obtain m' where "pick_upstream test_socks_config test_shared = ((''x:2'', ''a'', Some 1), test_shared\<lparr>shUp := m'\<rparr>)"
    using test_PickNode
    by (cases "PickNode test_world test_manager")
      (auto simp: pick_upstream_def test_socks_config_def test_shared_def manager_upstream_def)
  then show ?thesis
    using test_not_address
    by (simp add: handleConnect_reply routeDecision_def test_shared_def test_socks_config_def test_dialer_def via_reply_def)
qed

theorem connect_leaves_nothing_witness:
  "\<exists>c'. shStats (snd (handleConnect test_dialer test_socks_config ''a.example'' 443 test_shared)) = Some c'
     \<and> active c' = [] \<and> cConns (totals c') = 1 \<and> cErrors (totals c') = 0
     \<and> cUpload (totals c') = 120 \<and> cDownload (totals c') = 5000
     \<and> mgr_conns (shUp (snd (handleConnect test_dialer test_socks_config ''a.example'' 443 test_shared))) = mgr_conns test_manager"
proof -
  let ?c = "New_collector 100000000000 test_config"
  have r: "reach accounting rev test_config ?c"
    by (rule reach_new) (simp add: clock_ok_def test_config_def default_config_def stats_consts interval_secs_def Unix_def)
  have ok: "mgr_counts_ok test_manager" by (simp add: mgr_counts_ok_def test_manager_def new_runtime_def)
  have zero: "active ?c = []" "cConns (totals ?c) = 0" "cErrors (totals ?c) = 0" "cUpload (totals ?c) = 0" "cDownload (totals ?c) = 0"
    by (simp_all add: New_collector_def Let_def zero_counters_def)
  obtain st' where h: "handleConnect test_dialer test_socks_config ''a.example'' 443 test_shared = (0, st')"
    using test_connect_reply by (metis prod.collapse)
  show ?thesis
    using connect_leaves_nothing [of test_socks_config test_world test_shared ?c rev test_config test_dialer "''a.example''" 443 0 st'] r ok zero h
    by (simp add: test_socks_config_def test_shared_def session_closed_def reply_account_def acct0_def add_reads_def test_dialer_def
        read_up_def read_down_def) blast
qed

end
