(* ===== verification/Proxy_Udp.thy ===== *)
theory Proxy_Udp
  imports Proxy_Socks5
begin

text \<open>
  \<^verbatim>\<open>core/proxy/socks5.go\<close>, the UDP association of the SOCKS5 server and the dispatch of its requests.

  An association is the record \<open>assoc\<close>: the sockets it owns, the client endpoint it is pinned to, its
  session with an upstream relay, its direct sessions, and logs of the datagrams it sent out and back.
  Its steps are the iterations of the loops of \<^verbatim>\<open>handleUDPAssociate\<close> and of the goroutines it starts: a
  datagram from the client, from the upstream relay or from a direct target arrives, or the control
  connection dies. The encoding of datagrams and the dialogue with the upstream are functions of
  \<^verbatim>\<open>gohome\<close> and part of the argument \<open>assoc_env\<close>, chosen anew at every step.
\<close>

section \<open>State\<close>

record spp_session =
  ssTcp :: nat
  ssUdp :: nat
  ssRelay :: UDPAddr
  ssLease :: "nat option"

text \<open>A datagram in a log: where it came from, where it was sent, and its octets.\<close>

type_synonym datagram = "UDPAddr \<times> UDPAddr \<times> byte list"

record 'u assoc =
  aRelay :: nat
  aSession :: int
  assocClosed :: bool
  activeClientUDP :: "UDPAddr option"
  aSpp :: "spp_session option"
  directSessions :: directUDPRegistry
  aFds :: fdtable
  aOut :: "datagram list"
  aBack :: "datagram list"
  aShared :: "'u shared"

record assoc_env =
  eRng :: order
  eGeo :: "IP \<Rightarrow> string option"
  eNow :: instant
  eUdp :: udp_env
  eUnpack :: "byte list \<Rightarrow> (string \<times> int \<times> byte list) option"
  ePack :: "string \<Rightarrow> int \<Rightarrow> byte list \<Rightarrow> byte list option"
  eResolveTCP :: "string \<Rightarrow> string option"
  eDialTCP :: "string \<Rightarrow> string option"
  eHandshake :: "string \<times> string \<Rightarrow> string option"
  eUDPRequest :: "string + string"
  eRemoteIP :: IP
  eSplitError :: string
  eListenError :: string
  eSent :: bool

section \<open>The session with the upstream relay\<close>

text \<open>\<^verbatim>\<open>strconv.Atoi\<close> with its error ignored: zero for a malformed number, the nearest bound for one out of
  range.\<close>

definition Atoi_value :: "string \<Rightarrow> int" where
  "Atoi_value s =
     (let neg = HasPrefix s ''-'';
          body = (if neg \<or> HasPrefix s ''+'' then drop 1 s else s)
      in case parse_digits body of
           None \<Rightarrow> 0
         | Some n \<Rightarrow>
             if neg then (if 2 ^ 63 \<le> int n then - (2 ^ 63) else - int n)
             else (if 2 ^ 63 \<le> int n then 2 ^ 63 - 1 else int n))"

definition relay_target :: "assoc_env \<Rightarrow> string \<Rightarrow> string \<Rightarrow> UDPAddr" where
  "relay_target e bndH bndP =
     \<lparr>uaIP = (case ParseIP bndH of
                None \<Rightarrow> eRemoteIP e
              | Some ip \<Rightarrow> if IsUnspecified ip then eRemoteIP e else ip),
      uaPort = Atoi_value bndP\<rparr>"

definition open_fd :: "fdtable \<Rightarrow> nat \<times> fdtable" where
  "open_fd t = (nextFd t, t\<lparr>nextFd := nextFd t + 1, openFds := nextFd t # openFds t\<rparr>)"

text \<open>Giving the lease back, and with it the control connection to the upstream, on an error.\<close>

definition spp_fail ::
  "'u Socks5Config \<Rightarrow> nat option \<Rightarrow> nat option \<Rightarrow> string \<Rightarrow> 'u assoc \<Rightarrow> (string + spp_session) \<times> 'u assoc" where
  "spp_fail g tcp lease err a =
     (let a = (case tcp of None \<Rightarrow> a | Some fd \<Rightarrow> a\<lparr>aFds := close_fd fd (aFds a)\<rparr>)
      in (Inl err, a\<lparr>aShared := release_upstream g lease (aShared a)\<rparr>))"

definition spp_connected ::
  "assoc_env \<Rightarrow> 'u Socks5Config \<Rightarrow> string \<Rightarrow> nat option \<Rightarrow> nat \<Rightarrow> 'u assoc \<Rightarrow> (string + spp_session) \<times> 'u assoc" where
  "spp_connected e g nodeName lease tcp a =
     (case eHandshake e (upstream_auth g (aShared a)) of
        Some err \<Rightarrow> spp_fail g (Some tcp) lease err a
      | None \<Rightarrow>
          (case eUDPRequest e of
             Inl err \<Rightarrow> spp_fail g (Some tcp) lease err a
           | Inr bnd \<Rightarrow>
               (case SplitHostPort bnd of
                  None \<Rightarrow> spp_fail g (Some tcp) lease (eSplitError e) a
                | Some (bndH, bndP) \<Rightarrow>
                    (case ListenUDP (eUdp e) ''udp'' None (aFds a) of
                       (None, t) \<Rightarrow> spp_fail g (Some tcp) lease (eListenError e) (a\<lparr>aFds := t\<rparr>)
                     | (Some fd, t) \<Rightarrow>
                         let s = \<lparr>ssTcp = tcp, ssUdp = fd, ssRelay = relay_target e bndH bndP, ssLease = lease\<rparr>;
                             a = a\<lparr>aFds := t, aSpp := Some s\<rparr>;
                             a = (if nodeName \<noteq> [] then a\<lparr>aShared := with_stats (\<lambda>c. SetNode c (aSession a) nodeName) (aShared a)\<rparr> else a)
                         in (Inr s, a)))))"

definition getOrCreateSPPUDPSession ::
  "assoc_env \<Rightarrow> 'u Socks5Config \<Rightarrow> 'u assoc \<Rightarrow> (string + spp_session) \<times> 'u assoc" where
  "getOrCreateSPPUDPSession e g a =
     (case aSpp a of
        Some s \<Rightarrow> (Inr s, a)
      | None \<Rightarrow>
          let ((sppAddr, nodeName, lease), sh) = pick_upstream g (aShared a);
              a = a\<lparr>aShared := sh\<rparr>
          in if sppAddr = [] then spp_fail g None lease ''no upstream SPP socks5 available'' a
             else case eResolveTCP e sppAddr of
               Some err \<Rightarrow> spp_fail g None lease err a
             | None \<Rightarrow>
                 (case eDialTCP e sppAddr of
                    Some err \<Rightarrow> spp_fail g None lease err a
                  | None \<Rightarrow>
                      let (tcp, t) = open_fd (aFds a)
                      in spp_connected e g nodeName lease tcp (a\<lparr>aFds := t\<rparr>)))"

definition closeSPP :: "'u Socks5Config \<Rightarrow> 'u assoc \<Rightarrow> 'u assoc" where
  "closeSPP g a =
     (case aSpp a of
        None \<Rightarrow> a
      | Some s \<Rightarrow> a\<lparr>aFds := close_fd (ssUdp s) (close_fd (ssTcp s) (aFds a)), aSpp := None,
                    aShared := release_upstream g (ssLease s) (aShared a)\<rparr>)"

section \<open>Datagrams\<close>

definition count_datagram :: "assoc_env \<Rightarrow> string \<Rightarrow> Decision \<Rightarrow> int \<Rightarrow> int \<Rightarrow> 'u assoc \<Rightarrow> 'u assoc" where
  "count_datagram e host d up down a =
     a\<lparr>aShared := with_stats (\<lambda>c. AddDatagram (eRng e) c (eNow e) (aSession a) host d up down) (aShared a)\<rparr>"

definition send_direct :: "assoc_env \<Rightarrow> UDPAddr \<Rightarrow> string \<Rightarrow> string \<Rightarrow> byte list \<Rightarrow> 'u assoc \<Rightarrow> 'u assoc" where
  "send_direct e src dstHost targetAddr payload a =
     (case registry_get (eUdp e) targetAddr (directSessions a, aFds a) of
        (Inl _, r, t) \<Rightarrow> a\<lparr>directSessions := r, aFds := t\<rparr>
      | (Inr (sess, fresh), r, t) \<Rightarrow>
          count_datagram e dstHost (statsDecision Direct) (int (length payload)) 0
            (a\<lparr>directSessions := r, aFds := t, aOut := aOut a @ [(src, dsAddr sess, payload)]\<rparr>))"

definition send_proxy ::
  "assoc_env \<Rightarrow> 'u Socks5Config \<Rightarrow> UDPAddr \<Rightarrow> string \<Rightarrow> string \<Rightarrow> byte list \<Rightarrow> byte list \<Rightarrow> 'u assoc \<Rightarrow> 'u assoc" where
  "send_proxy e g src dstHost targetAddr pkt payload a =
     (if \<not> EnableIPv6 g \<and> isIPv6Literal dstHost then a
      else
        case getOrCreateSPPUDPSession e g a of
          (Inl err, a) \<Rightarrow>
            a\<lparr>aShared := with_stats (\<lambda>c. RecordError c (eNow e) ''socks5'' dstHost
                (''SPP UDP session for '' @ targetAddr @ '': '' @ err)) (aShared a)\<rparr>
        | (Inr s, a) \<Rightarrow>
            if eSent e
            then count_datagram e dstHost DecisionProxy (int (length payload)) 0
                   (a\<lparr>aOut := aOut a @ [(src, ssRelay s, pkt)]\<rparr>)
            else a)"

text \<open>The body of the main loop, on a datagram \<open>pkt\<close> received from \<open>src\<close>.\<close>

definition pin_client :: "UDPAddr \<Rightarrow> 'u assoc \<Rightarrow> 'u assoc" where
  "pin_client src a = (case activeClientUDP a of None \<Rightarrow> a\<lparr>activeClientUDP := Some src\<rparr> | Some _ \<Rightarrow> a)"

definition client_datagram :: "assoc_env \<Rightarrow> 'u Socks5Config \<Rightarrow> UDPAddr \<Rightarrow> byte list \<Rightarrow> 'u assoc \<Rightarrow> 'u assoc" where
  "client_datagram e g src pkt a0 =
     (if pkt = [] then a0
      else if activeClientUDP a0 \<noteq> None \<and> \<not> sameUDPAddr (activeClientUDP a0) (Some src) then a0
      else
        let a = pin_client src a0 in
        case eUnpack e pkt of
          None \<Rightarrow> a
        | Some (dstHost0, dstPort, payload) \<Rightarrow>
            if payload = [] then a
            else
              let dstHost = canonicalHost dstHost0;
                  ((decision, realHost), sh) = routeDecision (eGeo e) g (eNow e) dstHost (aShared a);
                  targetAddr = joinDialAddr dstHost dstPort;
                  a = a\<lparr>aShared := sh\<rparr>
              in if decision = Direct then send_direct e src dstHost targetAddr payload a
                 else send_proxy e g src dstHost targetAddr pkt payload a)"

text \<open>The goroutine that reads from the upstream relay, and the one of a direct session.\<close>

definition spp_datagram :: "assoc_env \<Rightarrow> spp_session \<Rightarrow> UDPAddr \<Rightarrow> byte list \<Rightarrow> 'u assoc \<Rightarrow> 'u assoc" where
  "spp_datagram e s rAddr buf a =
     (if \<not> sameUDPAddr (Some rAddr) (Some (ssRelay s)) then a
      else case activeClientUDP a of
             None \<Rightarrow> a
           | Some cAddr \<Rightarrow>
               if buf = [] then a
               else count_datagram e [] DecisionProxy 0 (int (length buf)) (a\<lparr>aBack := aBack a @ [(rAddr, cAddr, buf)]\<rparr>))"

definition direct_datagram :: "assoc_env \<Rightarrow> directUDPSession \<Rightarrow> UDPAddr \<Rightarrow> byte list \<Rightarrow> 'u assoc \<Rightarrow> 'u assoc" where
  "direct_datagram e sess rAddr buf a =
     (if \<not> sameUDPAddr (Some rAddr) (Some (dsAddr sess)) then a
      else case activeClientUDP a of
             None \<Rightarrow> a
           | Some cAddr \<Rightarrow>
               if buf = [] then a
               else case ePack e (IP_String (uaIP rAddr)) (uaPort rAddr) buf of
                      None \<Rightarrow> a
                    | Some packed \<Rightarrow>
                        count_datagram e [] (statsDecision Direct) 0 (int (length buf))
                          (a\<lparr>aBack := aBack a @ [(rAddr, cAddr, packed)]\<rparr>))"

section \<open>The association\<close>

definition control_dies :: "'u assoc \<Rightarrow> 'u assoc" where
  "control_dies a = a\<lparr>assocClosed := True, aFds := close_fd (aRelay a) (aFds a)\<rparr>"

text \<open>The deferred calls, last first.\<close>

definition assoc_teardown :: "assoc_env \<Rightarrow> 'u Socks5Config \<Rightarrow> 'u assoc \<Rightarrow> 'u assoc" where
  "assoc_teardown e g a =
     (let (r, t) = registry_closeAll (directSessions a, aFds a);
          a = closeSPP g (a\<lparr>directSessions := r, aFds := t\<rparr>);
          a = a\<lparr>aShared := with_stats (\<lambda>c. End (eRng e) c (eNow e) (aSession a) None) (aShared a)\<rparr>
      in a\<lparr>aFds := close_fd (aRelay a) (aFds a)\<rparr>)"

text \<open>The part of \<^verbatim>\<open>handleUDPAssociate\<close> before its loop: the reply it sends, and the association unless the
  socket could not be bound or the reply not be written.\<close>

definition handleUDPAssociate ::
  "assoc_env \<Rightarrow> string option \<Rightarrow> string option \<Rightarrow> fdtable \<Rightarrow> 'u shared \<Rightarrow> (nat \<times> string) \<times> fdtable \<times> 'u shared \<times> 'u assoc option" where
  "handleUDPAssociate e localAddr remoteAddr t st =
     (case listenClientUDPRelay (eUdp e) localAddr remoteAddr t of
        (None, t) \<Rightarrow> ((0x01, ''0.0.0.0:0''), t, st, None)
      | (Some (fd, bndAddr), t) \<Rightarrow>
          if \<not> eSent e then ((0x00, bndAddr), close_fd fd t, st, None)
          else
            let (i, st) = stats_begin (eNow e) ProtoUDP (addrString remoteAddr) [] 0 DecisionNone [] st
            in ((0x00, bndAddr), t, st,
                Some \<lparr>aRelay = fd, aSession = i, assocClosed = False, activeClientUDP = None, aSpp = None,
                      directSessions = newDirectUDPRegistry, aFds = t, aOut = [], aBack = [], aShared = st\<rparr>))"

text \<open>A datagram the main loop has already read is still handled after the control connection died, so the
  first rule has no guard; the two other goroutines test the flag on every datagram.\<close>

inductive assoc_step :: "'u Socks5Config \<Rightarrow> 'u assoc \<Rightarrow> 'u assoc \<Rightarrow> bool" for g where
  from_client: "assoc_step g a (client_datagram e g src pkt a)"
| from_spp: "\<not> assocClosed a \<Longrightarrow> aSpp a = Some s \<Longrightarrow> assoc_step g a (spp_datagram e s rAddr buf a)"
| from_target: "\<not> assocClosed a \<Longrightarrow> map_of (directSessions a) targetAddr = Some sess
    \<Longrightarrow> assoc_step g a (direct_datagram e sess rAddr buf a)"
| control: "\<not> assocClosed a \<Longrightarrow> assoc_step g a (control_dies a)"

inductive_cases assoc_stepE: "assoc_step g a a'"

section \<open>Requests\<close>

text \<open>The handshake of the library is the argument \<open>hs\<close>: given the credentials and what the client sends, it
  returns what follows the handshake, or \<open>None\<close>.\<close>

datatype socks_request = Dropped | BadAddress | BadCommand | Connect string int | Associate string int

definition read_request ::
  "(string \<Rightarrow> string \<Rightarrow> byte list \<Rightarrow> byte list option) \<Rightarrow> 'u Socks5Config \<Rightarrow> byte list \<Rightarrow> socks_request" where
  "read_request hs g input =
     (case hs (Username g) (Password g) input of
        None \<Rightarrow> Dropped
      | Some r \<Rightarrow>
          (case ReadFull 4 r of
             None \<Rightarrow> Dropped
           | Some (header, r) \<Rightarrow>
               if header ! 0 \<noteq> 0x05 then Dropped
               else case readSocks5Addr r (header ! 3) of
                      None \<Rightarrow> BadAddress
                    | Some (host, port, _) \<Rightarrow>
                        if header ! 1 = 0x01 then Connect host port
                        else if header ! 1 = 0x03 then Associate host port
                        else BadCommand))"

definition handleClient ::
  "(string \<Rightarrow> string \<Rightarrow> byte list \<Rightarrow> byte list option) \<Rightarrow> dialer \<Rightarrow> assoc_env \<Rightarrow> string option \<Rightarrow> 'u Socks5Config
     \<Rightarrow> byte list \<Rightarrow> fdtable \<Rightarrow> 'u shared \<Rightarrow> (nat \<times> string) option \<times> fdtable \<times> 'u shared \<times> 'u assoc option" where
  "handleClient hs d e localAddr g input t st =
     (case read_request hs g input of
        Dropped \<Rightarrow> (None, t, st, None)
      | BadAddress \<Rightarrow> (Some (0x08, ''0.0.0.0:0''), t, st, None)
      | BadCommand \<Rightarrow> (Some (0x07, ''0.0.0.0:0''), t, st, None)
      | Connect host port \<Rightarrow> (let (reply, st) = handleConnect d g host port st in (Some (reply, ''0.0.0.0:0''), t, st, None))
      | Associate host port \<Rightarrow> (let (reply, r) = handleUDPAssociate e localAddr (dRemote d) t st in (Some reply, r)))"

section \<open>What opening a session does\<close>

text \<open>The table after \<open>k\<close> sockets have been opened, and the sockets closed again on a failure.\<close>

definition opened :: "fdtable \<Rightarrow> fdtable" where
  "opened t = t\<lparr>nextFd := nextFd t + 1, openFds := nextFd t # openFds t\<rparr>"

lemma ListenUDP_opened: "ListenUDP e network ip t = (if can_listen e network ip then (Some (nextFd t), opened t) else (None, t))"
  by (simp add: ListenUDP_def opened_def)

lemma open_fd_opened: "open_fd t = (nextFd t, opened t)"
  by (simp add: open_fd_def opened_def)

lemma close_opened: "fds_ok t \<Longrightarrow> close_fd (nextFd t) (opened t) = t\<lparr>nextFd := nextFd t + 1\<rparr>"
  by (auto simp: close_fd_def opened_def fds_ok_def removeAll_id)

lemma spp_connected_cases:
  assumes "fds_ok t" "aFds a = opened t"
  obtains (fail) err where "spp_connected e g name lease (nextFd t) a =
      (Inl err, a\<lparr>aFds := t\<lparr>nextFd := nextFd t + 1\<rparr>, aShared := release_upstream g lease (aShared a)\<rparr>)"
  | (new) s sh where "spp_connected e g name lease (nextFd t) a = (Inr s, a\<lparr>aFds := opened (opened t), aSpp := Some s, aShared := sh\<rparr>)"
      "ssTcp s = nextFd t" "ssUdp s = nextFd (opened t)" "ssLease s = lease"
      "sh = aShared a \<or> sh = with_stats (\<lambda>c. SetNode c (aSession a) name) (aShared a)"
proof -
  let ?fail = "\<lambda>err. (Inl err, a\<lparr>aFds := t\<lparr>nextFd := nextFd t + 1\<rparr>, aShared := release_upstream g lease (aShared a)\<rparr>)"
  have f: "spp_fail g (Some (nextFd t)) lease err a = ?fail err" for err
    using close_opened [OF assms(1)] assms(2) by (simp add: spp_fail_def)
  have same: "a\<lparr>aFds := opened t\<rparr> = a" using assms(2) by simp
  show ?thesis
  proof (cases "eHandshake e (upstream_auth g (aShared a))")
    case (Some err)
    then show ?thesis using fail [of err] f by (simp add: spp_connected_def)
  next
    case None
    note hs = this
    show ?thesis
    proof (cases "eUDPRequest e")
      case (Inl err)
      then show ?thesis using fail [of err] f hs by (simp add: spp_connected_def)
    next
      case (Inr bnd)
      show ?thesis
      proof (cases "SplitHostPort bnd")
        case None
        then show ?thesis using fail [of "eSplitError e"] f hs Inr by (simp add: spp_connected_def)
      next
        case (Some hp)
        obtain h p where hp: "hp = (h, p)" by (cases hp)
        show ?thesis
        proof (cases "can_listen (eUdp e) ''udp'' None")
          case False
          then show ?thesis
            using fail [of "eListenError e"] f hs Inr Some hp assms(2) same by (simp add: spp_connected_def ListenUDP_opened)
        next
          case True
          define s where "s = \<lparr>ssTcp = nextFd t, ssUdp = nextFd (opened t), ssRelay = relay_target e h p, ssLease = lease\<rparr>"
          show ?thesis
            by (rule new [of s "if name \<noteq> [] then with_stats (\<lambda>c. SetNode c (aSession a) name) (aShared a) else aShared a"])
              (use hs Inr Some hp True assms(2) in \<open>auto simp: spp_connected_def ListenUDP_opened s_def Let_def\<close>)
        qed
      qed
    qed
  qed
qed

lemma getOrCreate_cases:
  assumes "fds_ok (aFds a)"
  obtains (known) s where "aSpp a = Some s" "getOrCreateSPPUDPSession e g a = (Inr s, a)"
  | (fail) err n addr name lease sh where "aSpp a = None" "pick_upstream g (aShared a) = ((addr, name, lease), sh)"
      "getOrCreateSPPUDPSession e g a =
        (Inl err, a\<lparr>aFds := (aFds a)\<lparr>nextFd := nextFd (aFds a) + n\<rparr>, aShared := release_upstream g lease sh\<rparr>)"
  | (new) s addr name lease sh sh' where "aSpp a = None" "pick_upstream g (aShared a) = ((addr, name, lease), sh)"
      "getOrCreateSPPUDPSession e g a = (Inr s, a\<lparr>aFds := opened (opened (aFds a)), aSpp := Some s, aShared := sh'\<rparr>)"
      "ssTcp s = nextFd (aFds a)" "ssUdp s = nextFd (opened (aFds a))" "ssLease s = lease"
      "sh' = sh \<or> sh' = with_stats (\<lambda>c. SetNode c (aSession a) name) sh"
proof (cases "aSpp a")
  case (Some s)
  then show ?thesis using known by (simp add: getOrCreateSPPUDPSession_def)
next
  case None
  obtain addr name lease sh where p: "pick_upstream g (aShared a) = ((addr, name, lease), sh)" by (metis prod.collapse)
  let ?a = "a\<lparr>aShared := sh\<rparr>"
  show ?thesis
  proof (cases "addr \<noteq> [] \<and> eResolveTCP e addr = None \<and> eDialTCP e addr = None")
    case False
    then obtain err where "getOrCreateSPPUDPSession e g a = spp_fail g None lease err ?a"
      using None p by (cases "addr = []"; cases "eResolveTCP e addr"; cases "eDialTCP e addr")
        (auto simp: getOrCreateSPPUDPSession_def)
    then have "getOrCreateSPPUDPSession e g a = (Inl err, a\<lparr>aFds := (aFds a)\<lparr>nextFd := nextFd (aFds a) + 0\<rparr>, aShared := release_upstream g lease sh\<rparr>)"
      by (simp add: spp_fail_def)
    then show ?thesis using fail None p by blast
  next
    case True
    let ?b = "?a\<lparr>aFds := opened (aFds a)\<rparr>"
    have c: "getOrCreateSPPUDPSession e g a = spp_connected e g name lease (nextFd (aFds a)) ?b"
      using True None p by (simp add: getOrCreateSPPUDPSession_def open_fd_opened)
    have b: "aFds ?b = opened (aFds a)" by simp
    show ?thesis
    proof (rule spp_connected_cases [OF assms b, of e g name lease])
      fix err
      assume "spp_connected e g name lease (nextFd (aFds a)) ?b = (Inl err, ?b\<lparr>aFds := (aFds a)\<lparr>nextFd := nextFd (aFds a) + 1\<rparr>,
        aShared := release_upstream g lease (aShared ?b)\<rparr>)"
      then show ?thesis using fail [of addr name lease sh err 1] None p c by simp
    next
      fix s sh'
      assume "spp_connected e g name lease (nextFd (aFds a)) ?b = (Inr s, ?b\<lparr>aFds := opened (opened (aFds a)), aSpp := Some s, aShared := sh'\<rparr>)"
        "ssTcp s = nextFd (aFds a)" "ssUdp s = nextFd (opened (aFds a))" "ssLease s = lease"
        "sh' = aShared ?b \<or> sh' = with_stats (\<lambda>c. SetNode c (aSession ?b) name) (aShared ?b)"
      then show ?thesis using new [of addr name lease sh s sh'] None p c by simp
    qed
  qed
qed

section \<open>The sockets of an association\<close>

definition spp_fds :: "spp_session option \<Rightarrow> nat list" where
  "spp_fds x = (case x of None \<Rightarrow> [] | Some s \<Rightarrow> [ssTcp s, ssUdp s])"

definition owned_fds :: "'u assoc \<Rightarrow> nat list" where
  "owned_fds a = (if assocClosed a then [] else [aRelay a]) @ spp_fds (aSpp a) @ fds_of (directSessions a)"

definition fd_inv :: "nat set \<Rightarrow> 'u assoc \<Rightarrow> bool" where
  "fd_inv base a \<longleftrightarrow> fds_ok (aFds a) \<and> distinct (owned_fds a) \<and> base \<inter> set (owned_fds a) = {}
     \<and> set (openFds (aFds a)) = base \<union> set (owned_fds a) \<and> length (directSessions a) \<le> maxDirectUDPSessions
     \<and> aRelay a < nextFd (aFds a) \<and> aRelay a \<notin> base \<union> set (spp_fds (aSpp a)) \<union> set (fds_of (directSessions a))"

lemma fds_ok_opened: "fds_ok t \<Longrightarrow> fds_ok (opened t)" "fds_ok t \<Longrightarrow> nextFd t \<notin> set (openFds t)"
  by (auto simp: fds_ok_def opened_def less_Suc_eq)

lemma fd_inv_fresh:
  assumes "fd_inv base a"
  shows "nextFd (aFds a) \<notin> base" "nextFd (aFds a) \<notin> set (owned_fds a)"
  using assms fds_ok_opened(2) [of "aFds a"] by (auto simp: fd_inv_def)

lemma fd_inv_cong:
  assumes "fd_inv base a" "assocClosed a' = assocClosed a" "aRelay a' = aRelay a" "aSpp a' = aSpp a"
    "directSessions a' = directSessions a" "openFds (aFds a') = openFds (aFds a)" "nextFd (aFds a) \<le> nextFd (aFds a')"
  shows "fd_inv base a'"
proof -
  have "owned_fds a' = owned_fds a" using assms by (simp add: owned_fds_def)
  moreover have "fds_ok (aFds a')"
    using assms(1,6,7) unfolding fd_inv_def fds_ok_def by (metis less_le_trans)
  ultimately show ?thesis using assms by (simp add: fd_inv_def)
qed

lemma fd_inv_direct:
  assumes "fd_inv base a" "registry_get e t (directSessions a, aFds a) = (res, r, t')"
  shows "fd_inv base (a\<lparr>directSessions := r, aFds := t'\<rparr>)" "map_of (directSessions a) \<subseteq>\<^sub>m map_of r"
    "\<And>sess fresh. res = Inr (sess, fresh) \<Longrightarrow> map_of r t = Some sess"
proof -
  note fresh = fd_inv_fresh [OF assms(1)]
  have "fd_inv base (a\<lparr>directSessions := r, aFds := t'\<rparr>) \<and> map_of (directSessions a) \<subseteq>\<^sub>m map_of r
    \<and> (\<forall>sess f. res = Inr (sess, f) \<longrightarrow> map_of r t = Some sess)"
  proof (cases rule: registry_get_cases [of "directSessions a" t e "aFds a"])
    case (fresh addr)
    then have r: "r = (t, \<lparr>dsConn = nextFd (aFds a), dsAddr = addr\<rparr>) # directSessions a" and t': "t' = opened (aFds a)"
      and res: "res = Inr (\<lparr>dsConn = nextFd (aFds a), dsAddr = addr\<rparr>, True)"
      using assms(2) by (simp_all add: opened_def)
    have r': "fds_of r = nextFd (aFds a) # fds_of (directSessions a)" "length r = Suc (length (directSessions a))"
      by (simp_all add: r fds_of_def)
    have t'': "set (openFds t') = insert (nextFd (aFds a)) (set (openFds (aFds a)))" "nextFd t' = Suc (nextFd (aFds a))" "fds_ok t'"
      using fds_ok_opened(1) [of "aFds a"] assms(1) by (auto simp: t' opened_def fd_inv_def)
    have f: "nextFd (aFds a) \<notin> set (owned_fds a)" "nextFd (aFds a) \<notin> base" using fd_inv_fresh [OF assms(1)] by simp_all
    have "fd_inv base (a\<lparr>directSessions := r, aFds := t'\<rparr>)"
      using assms(1) f fresh(2) unfolding fd_inv_def owned_fds_def by (simp add: r' t'' less_Suc_eq) auto
    moreover have "map_of (directSessions a) \<subseteq>\<^sub>m map_of r" using fresh(1) by (auto simp: map_le_def r)
    ultimately show ?thesis by (simp add: r res)
  qed (use assms in \<open>auto intro: fd_inv_cong [OF assms(1)]\<close>)
  then show "fd_inv base (a\<lparr>directSessions := r, aFds := t'\<rparr>)" "map_of (directSessions a) \<subseteq>\<^sub>m map_of r"
    "\<And>sess fresh. res = Inr (sess, fresh) \<Longrightarrow> map_of r t = Some sess" by auto
qed

lemma fd_inv_spp:
  assumes "fd_inv base a" "aSpp a = None" "ssTcp s = nextFd (aFds a)" "ssUdp s = nextFd (opened (aFds a))"
  shows "fd_inv base (a\<lparr>aFds := opened (opened (aFds a)), aSpp := Some s, aShared := sh\<rparr>)"
proof -
  have ok: "fds_ok (aFds a)" using assms(1) by (simp add: fd_inv_def)
  note f = fd_inv_fresh [OF assms(1)] fds_ok_opened(2) [OF fds_ok_opened(1) [OF ok]]
  have "set (openFds (opened (opened (aFds a)))) = {nextFd (aFds a), nextFd (opened (aFds a))} \<union> set (openFds (aFds a))"
    by (auto simp: opened_def)
  moreover have "nextFd (opened (aFds a)) \<notin> set (openFds (aFds a))" "nextFd (opened (aFds a)) \<noteq> nextFd (aFds a)"
    using f(3) by (auto simp: opened_def)
  ultimately show ?thesis
    using assms f(1,2) fds_ok_opened(1) [OF fds_ok_opened(1) [OF ok]]
    by (auto simp: fd_inv_def owned_fds_def spp_fds_def) (simp_all add: opened_def)
qed

lemma fd_inv_getOrCreate:
  assumes "fd_inv base a" "getOrCreateSPPUDPSession e g a = (res, a')"
  shows "fd_inv base a'"
proof -
  have ok: "fds_ok (aFds a)" using assms(1) by (simp add: fd_inv_def)
  from ok show ?thesis
  proof (cases rule: getOrCreate_cases [of a e g])
    case known
    then show ?thesis using assms by simp
  next
    case fail
    then show ?thesis using assms(2) by (auto intro: fd_inv_cong [OF assms(1)])
  next
    case new
    then show ?thesis using assms(2) fd_inv_spp [OF assms(1)] by auto
  qed
qed

section \<open>Who may speak\<close>

text \<open>The endpoints whose datagrams may reach the client: the upstream relay and the direct targets.\<close>

definition known_peer :: "'u assoc \<Rightarrow> UDPAddr \<Rightarrow> bool" where
  "known_peer a x \<longleftrightarrow> (\<exists>s. aSpp a = Some s \<and> sameUDPAddr (Some x) (Some (ssRelay s)))
     \<or> (\<exists>t sess. map_of (directSessions a) t = Some sess \<and> sameUDPAddr (Some x) (Some (dsAddr sess)))"

definition log_inv :: "'u assoc \<Rightarrow> bool" where
  "log_inv a \<longleftrightarrow> (\<forall>(from, to, _) \<in> set (aBack a). activeClientUDP a = Some to \<and> known_peer a from)
     \<and> (\<forall>(from, _, _) \<in> set (aOut a). sameUDPAddr (activeClientUDP a) (Some from))"

text \<open>What an association learns it keeps.\<close>

definition grows :: "'u assoc \<Rightarrow> 'u assoc \<Rightarrow> bool" where
  "grows a a' \<longleftrightarrow> (\<forall>c. activeClientUDP a = Some c \<longrightarrow> activeClientUDP a' = Some c) \<and> (\<forall>s. aSpp a = Some s \<longrightarrow> aSpp a' = Some s)
     \<and> map_of (directSessions a) \<subseteq>\<^sub>m map_of (directSessions a')"

lemma known_peer_grows: "known_peer a x \<Longrightarrow> grows a a' \<Longrightarrow> known_peer a' x"
  unfolding known_peer_def grows_def map_le_def by (metis domI)

lemma log_inv_grows:
  assumes "log_inv a" "grows a a'" "aBack a' = aBack a" "aOut a' = aOut a"
  shows "log_inv a'"
proof -
  have "sameUDPAddr (activeClientUDP a') (Some x)" if "sameUDPAddr (activeClientUDP a) (Some x)" for x
    using that assms(2) by (cases "activeClientUDP a") (simp_all add: sameUDPAddr_def grows_def)
  then show ?thesis
    using assms known_peer_grows [OF _ assms(2)] unfolding log_inv_def grows_def by fastforce
qed

lemma grows_refl [simp]: "grows a a" by (simp add: grows_def)

lemma sameUDPAddr_refl [simp]: "sameUDPAddr (Some x) (Some x)"
  by (simp add: sameUDPAddr_def IP_Equal_def)

lemma log_inv_out:
  assumes "log_inv a" "sameUDPAddr (activeClientUDP a) (Some src)"
  shows "log_inv (a\<lparr>aOut := aOut a @ [(src, to, pkt)]\<rparr>)"
  using assms by (auto simp: log_inv_def known_peer_def)

lemma log_inv_back:
  assumes "log_inv a" "activeClientUDP a = Some c" "known_peer a src"
  shows "log_inv (a\<lparr>aBack := aBack a @ [(src, c, pkt)]\<rparr>)"
  using assms by (auto simp: log_inv_def known_peer_def)

lemma log_inv_shared [simp]: "log_inv (a\<lparr>aShared := sh\<rparr>) = log_inv a" "log_inv (a\<lparr>aFds := t\<rparr>) = log_inv a"
  "log_inv (count_datagram e h d up down a) = log_inv a"
  by (simp_all add: log_inv_def known_peer_def count_datagram_def)

text \<open>Both invariants together, as the steps keep them.\<close>

definition assoc_inv :: "nat set \<Rightarrow> 'u assoc \<Rightarrow> bool" where
  "assoc_inv base a \<longleftrightarrow> fd_inv base a \<and> log_inv a"

lemma fd_inv_count [simp]: "fd_inv base (count_datagram e h d up down a) = fd_inv base a"
  by (simp add: count_datagram_def fd_inv_def owned_fds_def)

lemma fd_inv_fields [simp]:
  "fd_inv base (a\<lparr>aShared := sh\<rparr>) = fd_inv base a" "fd_inv base (a\<lparr>aOut := x\<rparr>) = fd_inv base a"
  "fd_inv base (a\<lparr>aBack := x\<rparr>) = fd_inv base a" "fd_inv base (a\<lparr>activeClientUDP := c\<rparr>) = fd_inv base a"
  by (simp_all add: fd_inv_def owned_fds_def)

lemma assoc_inv_shared [simp]: "assoc_inv base (a\<lparr>aShared := sh\<rparr>) = assoc_inv base a"
  by (simp add: assoc_inv_def)

lemma assoc_inv_send_direct:
  assumes "assoc_inv base a" "sameUDPAddr (activeClientUDP a) (Some src)"
  shows "assoc_inv base (send_direct e src h t payload a)"
proof -
  obtain res r t' where g: "registry_get (eUdp e) t (directSessions a, aFds a) = (res, r, t')" by (metis prod.collapse)
  let ?a = "a\<lparr>directSessions := r, aFds := t'\<rparr>"
  have "fd_inv base a" using assms(1) by (simp add: assoc_inv_def)
  note fd = fd_inv_direct(1) [OF this g] and le = fd_inv_direct(2) [OF this g]
  have "log_inv ?a" by (rule log_inv_grows [of a]) (use assms(1) le in \<open>simp_all add: assoc_inv_def grows_def\<close>)
  then have "log_inv (?a\<lparr>aOut := aOut ?a @ [(src, to, payload)]\<rparr>)" for to
    using assms(2) by (intro log_inv_out) simp_all
  then show ?thesis
    using fd \<open>log_inv ?a\<close> g by (cases res) (auto simp: send_direct_def assoc_inv_def)
qed

lemma getOrCreate_fields:
  assumes "fds_ok (aFds a)" "getOrCreateSPPUDPSession e g a = (res, a')"
  shows "grows a a' \<and> aBack a' = aBack a \<and> aOut a' = aOut a \<and> activeClientUDP a' = activeClientUDP a
    \<and> assocClosed a' = assocClosed a \<and> aRelay a' = aRelay a"
  using assms(1) by (cases rule: getOrCreate_cases [of a e g]) (use assms(2) in \<open>auto simp: grows_def\<close>)

lemma assoc_inv_send_proxy:
  assumes "assoc_inv base a" "sameUDPAddr (activeClientUDP a) (Some src)"
  shows "assoc_inv base (send_proxy e g src h t pkt payload a)"
proof -
  obtain res a' where c: "getOrCreateSPPUDPSession e g a = (res, a')" by (cases "getOrCreateSPPUDPSession e g a")
  have fd: "fd_inv base a'" using fd_inv_getOrCreate [OF _ c] assms(1) by (simp add: assoc_inv_def)
  have ok: "fds_ok (aFds a)" using assms(1) by (simp add: assoc_inv_def fd_inv_def)
  note f = getOrCreate_fields [OF ok c]
  have "log_inv a'" by (rule log_inv_grows [of a]) (use assms(1) f in \<open>simp_all add: assoc_inv_def\<close>)
  moreover from this have "log_inv (a'\<lparr>aOut := aOut a' @ [(src, to, pkt)]\<rparr>)" for to
    using assms(2) f by (intro log_inv_out) simp_all
  ultimately show ?thesis
    using fd assms(1) c by (cases res) (auto simp: send_proxy_def assoc_inv_def)
qed

lemma client_datagram_cases:
  obtains (dropped) "client_datagram e g src pkt a = a"
  | (quiet) "sameUDPAddr (activeClientUDP (pin_client src a)) (Some src)" "client_datagram e g src pkt a = pin_client src a"
  | (direct) sh h t payload where "sameUDPAddr (activeClientUDP (pin_client src a)) (Some src)" "shUp sh = shUp (aShared a)"
      "client_datagram e g src pkt a = send_direct e src h t payload ((pin_client src a)\<lparr>aShared := sh\<rparr>)"
  | (proxy) sh h t payload where "sameUDPAddr (activeClientUDP (pin_client src a)) (Some src)" "shUp sh = shUp (aShared a)"
      "client_datagram e g src pkt a = send_proxy e g src h t pkt payload ((pin_client src a)\<lparr>aShared := sh\<rparr>)"
proof (cases "pkt = [] \<or> (activeClientUDP a \<noteq> None \<and> \<not> sameUDPAddr (activeClientUDP a) (Some src))")
  case True
  show ?thesis by (rule dropped) (use True in \<open>auto simp: client_datagram_def\<close>)
next
  case False
  define b where "b = pin_client src a"
  have src: "sameUDPAddr (activeClientUDP b) (Some src)"
    using False by (auto simp: b_def pin_client_def split: option.splits)
  show ?thesis
  proof (cases "eUnpack e pkt")
    case None
    show ?thesis by (rule quiet) (use None False src in \<open>auto simp: client_datagram_def b_def\<close>)
  next
    case (Some x)
    obtain h0 p payload where x: "x = (h0, p, payload)" by (cases x)
    obtain dec real sh where r: "routeDecision (eGeo e) g (eNow e) (canonicalHost h0) (aShared b) = ((dec, real), sh)"
      by (metis prod.collapse)
    have up: "shUp sh = shUp (aShared a)"
      using shStats_route [OF r] by (simp add: b_def pin_client_def split: option.splits)
    have "client_datagram e g src pkt a = (if payload = [] then b
        else if dec = Direct then send_direct e src (canonicalHost h0) (joinDialAddr (canonicalHost h0) p) payload (b\<lparr>aShared := sh\<rparr>)
        else send_proxy e g src (canonicalHost h0) (joinDialAddr (canonicalHost h0) p) pkt payload (b\<lparr>aShared := sh\<rparr>))"
      using False Some x r unfolding client_datagram_def b_def [symmetric] Let_def by auto
    then show ?thesis
      using src up quiet direct [of sh] proxy [of sh] unfolding b_def by (metis (no_types))
  qed
qed

lemma pin_client_fields [simp]:
  "aShared (pin_client src a) = aShared a" "aSpp (pin_client src a) = aSpp a" "aFds (pin_client src a) = aFds a"
  by (simp_all add: pin_client_def split: option.splits)

lemma assoc_inv_pin:
  assumes "assoc_inv base a"
  shows "assoc_inv base (pin_client src a)"
  using assms log_inv_grows [of a "pin_client src a"]
  by (auto simp: pin_client_def assoc_inv_def grows_def split: option.splits)

lemma assoc_inv_client:
  assumes "assoc_inv base a"
  shows "assoc_inv base (client_datagram e g src pkt a)"
  by (cases rule: client_datagram_cases [of e g src pkt a])
    (use assms assoc_inv_pin [OF assms] in \<open>simp_all add: assoc_inv_send_direct assoc_inv_send_proxy\<close>)

lemma assoc_inv_back:
  assumes "assoc_inv base a"
  shows "aSpp a = Some s \<Longrightarrow> assoc_inv base (spp_datagram e s rAddr buf a)"
    and "map_of (directSessions a) t = Some sess \<Longrightarrow> assoc_inv base (direct_datagram e sess rAddr buf a)"
proof -
  have bk: "log_inv (a\<lparr>aBack := aBack a @ [(rAddr, c, x)]\<rparr>)" if "activeClientUDP a = Some c" "known_peer a rAddr" for c x
    using assms that by (intro log_inv_back) (simp_all add: assoc_inv_def)
  show "assoc_inv base (spp_datagram e s rAddr buf a)" if "aSpp a = Some s"
    using assms bk that by (auto simp: spp_datagram_def assoc_inv_def known_peer_def split: option.splits)
  show "assoc_inv base (direct_datagram e sess rAddr buf a)" if "map_of (directSessions a) t = Some sess"
  proof -
    have k: "sameUDPAddr (Some rAddr) (Some (dsAddr sess)) \<Longrightarrow> known_peer a rAddr" using that by (auto simp: known_peer_def)
    show ?thesis using assms bk k by (auto simp: direct_datagram_def assoc_inv_def split: option.splits)
  qed
qed

lemma assoc_inv_control:
  assumes "assoc_inv base a" "\<not> assocClosed a"
  shows "assoc_inv base (control_dies a)"
proof -
  have "fd_inv base (control_dies a)" using assms
    by (auto simp: assoc_inv_def fd_inv_def owned_fds_def control_dies_def close_fd_def fds_ok_def distinct_removeAll)
  moreover have "log_inv (control_dies a)" using assms by (simp add: assoc_inv_def control_dies_def log_inv_def known_peer_def)
  ultimately show ?thesis by (simp add: assoc_inv_def)
qed

interpretation assoc_system: transition_invariant "assoc_step g" "assoc_inv base" for g :: "'u Socks5Config" and base
proof unfold_locales
  fix a a' :: "'u assoc" assume "assoc_inv base a" "assoc_step g a a'"
  then show "assoc_inv base a'"
    by (auto elim!: assoc_stepE intro: assoc_inv_client assoc_inv_back assoc_inv_control)
qed

section \<open>Leaving nothing behind\<close>

text \<open>The lease an association holds is the one of its session with the upstream relay.\<close>

definition assoc_lease :: "'u assoc \<Rightarrow> nat option" where
  "assoc_lease a = (case aSpp a of None \<Rightarrow> None | Some s \<Rightarrow> ssLease s)"

lemma assoc_lease_cong: "aSpp a' = aSpp a \<Longrightarrow> assoc_lease a' = assoc_lease a"
  by (simp add: assoc_lease_def)

context upstream_provider
begin

definition leased :: "nat set \<Rightarrow> (nat \<Rightarrow> int) \<Rightarrow> 'u assoc \<Rightarrow> bool" where
  "leased base before a \<longleftrightarrow> assoc_inv base a \<and> holds (assoc_lease a) before (aShared a)"

lemma leased_getOrCreate:
  assumes g: "cfgUpstream g = Some u" and ok: "fds_ok (aFds a)" and h: "holds (assoc_lease a) before (aShared a)"
    and c: "getOrCreateSPPUDPSession e g a = (res, a')"
  shows "holds (assoc_lease a') before (aShared a')"
  using ok
proof (cases rule: getOrCreate_cases [of a e g])
  case known
  then show ?thesis using c h by simp
next
  case (fail err n addr name lease sh)
  then have "holds lease before sh" using holds_pick [OF g, of before] h by (auto simp: assoc_lease_def)
  then have "holds None before (release_upstream g lease sh)" by (rule holds_release [OF g])
  then show ?thesis using fail c by (auto simp: assoc_lease_def)
next
  case (new s addr name lease sh sh')
  then have "holds lease before sh" using holds_pick [OF g, of before] h by (auto simp: assoc_lease_def)
  then have "holds lease before sh'" using new by auto
  then show ?thesis using new c by (auto simp: assoc_lease_def)
qed

lemma holds_count [simp]: "holds l before (aShared (count_datagram e h d up down a)) = holds l before (aShared a)"
  "assoc_lease (count_datagram e h d up down a) = assoc_lease a"
  by (simp_all add: count_datagram_def assoc_lease_def)

lemma leased_direct:
  "holds (assoc_lease a) before (aShared a) \<Longrightarrow>
    holds (assoc_lease (send_direct e src h t payload a)) before (aShared (send_direct e src h t payload a))"
  by (auto simp: send_direct_def assoc_lease_def count_datagram_def split: prod.splits sum.splits)

lemma leased_proxy:
  assumes "cfgUpstream g = Some u" "holds (assoc_lease a) before (aShared a)" "fds_ok (aFds a)"
  shows "holds (assoc_lease (send_proxy e g src h t pkt payload a)) before (aShared (send_proxy e g src h t pkt payload a))"
proof -
  obtain res b where c: "getOrCreateSPPUDPSession e g a = (res, b)" by (cases "getOrCreateSPPUDPSession e g a")
  show ?thesis
    using leased_getOrCreate [OF assms(1,3,2) c] c assms(2)
    by (auto simp: send_proxy_def assoc_lease_def count_datagram_def split: sum.splits)
qed

lemma leased_step:
  assumes g: "cfgUpstream g = Some u" and l: "leased base before a" and "assoc_step g a a'"
  shows "leased base before a'"
proof -
  have inv: "assoc_inv base a" and h: "holds (assoc_lease a) before (aShared a)" using l by (simp_all add: leased_def)
  have ok: "fds_ok (aFds a)" using inv by (simp add: assoc_inv_def fd_inv_def)
  have "holds (assoc_lease a') before (aShared a')"
    using assms(3)
  proof (cases rule: assoc_step.cases)
    case (from_client e src pkt)
    have sh: "holds (assoc_lease (pin_client src a\<lparr>aShared := sh\<rparr>)) before (aShared (pin_client src a\<lparr>aShared := sh\<rparr>))"
      if "shUp sh = shUp (aShared a)" for sh
      using that h holds_shUp [of sh "aShared a"] by (simp add: assoc_lease_def)
    show ?thesis
      using from_client
    proof (cases rule: client_datagram_cases [of e g src pkt a])
      case (direct sh)
      show ?thesis unfolding from_client direct(3) by (rule leased_direct [OF sh [OF direct(2)]])
    next
      case (proxy sh)
      show ?thesis unfolding from_client proxy(3) by (rule leased_proxy [OF g sh [OF proxy(2)]]) (simp add: ok)
    qed (use h in \<open>simp_all add: assoc_lease_def\<close>)
  next
    case (from_spp s e rAddr buf)
    then show ?thesis using h by (auto simp: spp_datagram_def assoc_lease_def count_datagram_def split: option.splits)
  next
    case (from_target targetAddr sess e rAddr buf)
    then show ?thesis using h by (auto simp: direct_datagram_def assoc_lease_def count_datagram_def split: option.splits)
  next
    case control
    then show ?thesis using h by (simp add: control_dies_def assoc_lease_def)
  qed
  then show ?thesis using assoc_system.step_inv [OF inv assms(3)] by (simp add: leased_def)
qed

lemma leased_steps:
  assumes "(assoc_step g)\<^sup>*\<^sup>* a a'" "cfgUpstream g = Some u" "leased base before a"
  shows "leased base before a'"
  using assms by (induction rule: rtranclp_induct) (auto intro: leased_step)

lemma teardown_lease:
  assumes "cfgUpstream g = Some u" "holds (assoc_lease a) before (aShared a)"
  shows "conns (shUp (aShared (assoc_teardown e g a))) = before"
proof -
  have "holds None before (aShared (closeSPP g (a\<lparr>directSessions := r, aFds := t\<rparr>)))" for r t
    using assms holds_release [OF assms] by (auto simp: closeSPP_def assoc_lease_def split: option.splits)
  then show ?thesis
    using holds_end by (auto simp: assoc_teardown_def Let_def with_stats_def split: prod.splits)
qed

end

lemma teardown_fds:
  assumes "fd_inv base a"
  shows "set (openFds (aFds (assoc_teardown e g a))) = base"
proof -
  obtain r t where c: "registry_closeAll (directSessions a, aFds a) = (r, t)" by fastforce
  have t: "set (openFds t) = set (openFds (aFds a)) - set (fds_of (directSessions a))"
    using openFds_closeAll [of "(directSessions a, aFds a)"] c by (auto simp: other_fds_def)
  show ?thesis
    using assms c t by (auto simp: assoc_teardown_def closeSPP_def Let_def close_fd_def fd_inv_def owned_fds_def spp_fds_def
        split: option.splits if_splits)
qed

lemma assoc_start:
  assumes "handleUDPAssociate e la ra t st = (reply, t1, st1, Some a)" "fds_ok t"
  shows "assoc_inv (set (openFds t)) a \<and> assoc_lease a = None \<and> shUp (aShared a) = shUp st"
proof -
  obtain res t2 where l: "listenClientUDPRelay (eUdp e) la ra t = (res, t2)" by fastforce
  then obtain fd bnd where res: "res = Some (fd, bnd)" using assms(1) by (cases res) (auto simp: handleUDPAssociate_def)
  have t2: "t2 = opened t" "fd = nextFd t"
    using l res by (auto simp: listenClientUDPRelay_def ListenUDP_opened Let_def split: if_splits prod.splits)
  have sh: "shUp (snd (stats_begin x p y z n w v st)) = shUp st" for x p y z n w v
    by (simp add: stats_begin_def split: option.splits prod.splits)
  have a: "aRelay a = nextFd t" "\<not> assocClosed a" "aSpp a = None" "directSessions a = []" "aFds a = opened t" "aOut a = []" "aBack a = []"
    and up: "shUp (aShared a) = shUp st"
    using assms(1) l res t2 sh by (auto simp: handleUDPAssociate_def newDirectUDPRegistry_def split: prod.splits if_splits) (metis sh snd_conv)
  have "assoc_inv (set (openFds t)) a"
    using a fds_ok_opened [OF assms(2)]
    by (auto simp: assoc_inv_def fd_inv_def log_inv_def owned_fds_def spp_fds_def fds_of_def) (auto simp: opened_def)
  then show ?thesis using a up by (simp add: assoc_lease_def)
qed

section \<open>The properties\<close>

text \<open>C12. A UDP association serves one client and forgets nothing. On every run of an association, from its
  start on: a datagram reaches only the pinned client and only from the upstream relay or a target the
  client has sent to; only datagrams of the pinned client are forwarded; at most 256 direct sockets
  are open; and when the deferred calls have run, the open sockets and the connection counts of the
  nodes are those from before the association.\<close>

theorem udp_association_safe:
  assumes "handleUDPAssociate e0 localAddr remoteAddr t st = (reply, t1, st1, Some a0)" and "fds_ok t"
    and "cfgUpstream g = Some (manager_upstream w)" and "mgr_counts_ok (shUp st)"
    and "(assoc_step g)\<^sup>*\<^sup>* a0 a"
  shows "(\<forall>(src, dst, _) \<in> set (aBack a). activeClientUDP a = Some dst \<and> known_peer a src)
    \<and> (\<forall>(src, _, _) \<in> set (aOut a). sameUDPAddr (activeClientUDP a) (Some src))
    \<and> length (directSessions a) \<le> 256
    \<and> set (openFds (aFds (assoc_teardown e g a))) = set (openFds t)
    \<and> mgr_conns (shUp (aShared (assoc_teardown e g a))) = mgr_conns (shUp st)"
proof -
  note start = assoc_start [OF assms(1,2)]
  have "managed.leased (set (openFds t)) (mgr_conns (shUp st)) a0"
    using start managed.holds_start [of "aShared a0"] assms(4) by (simp add: managed.leased_def)
  from managed.leased_steps [OF assms(5,3) this]
  have inv: "assoc_inv (set (openFds t)) a" and h: "managed.holds (assoc_lease a) (mgr_conns (shUp st)) (aShared a)"
    by (simp_all add: managed.leased_def)
  show ?thesis
    using inv teardown_fds [of "set (openFds t)" a e g] managed.teardown_lease [OF assms(3) h]
    by (simp add: assoc_inv_def fd_inv_def log_inv_def maxDirectUDPSessions_def case_prod_beta)
qed

definition test_client :: UDPAddr where "test_client = \<lparr>uaIP = [10, 0, 0, 9], uaPort = 5000\<rparr>"
definition test_spp_relay :: UDPAddr where "test_spp_relay = \<lparr>uaIP = [10, 0, 0, 1], uaPort = 53\<rparr>"

definition test_assoc_env :: assoc_env where
  "test_assoc_env = \<lparr>eRng = rev, eGeo = (\<lambda>_. None), eNow = 100000000000, eUdp = test_udp_env,
     eUnpack = (\<lambda>pkt. Some (''a.example'', 53, pkt)), ePack = (\<lambda>_ _ p. Some p), eResolveTCP = (\<lambda>_. None), eDialTCP = (\<lambda>_. None),
     eHandshake = (\<lambda>_. None), eUDPRequest = Inr '':53'', eRemoteIP = uaIP test_spp_relay, eSplitError = [], eListenError = [], eSent = True\<rparr>"

definition test_assoc :: "Manager assoc" where
  "test_assoc = \<lparr>aRelay = 4, aSession = 0, assocClosed = False, activeClientUDP = None, aSpp = None, directSessions = [],
     aFds = \<lparr>nextFd = 5, openFds = [4, 3]\<rparr>, aOut = [], aBack = [], aShared = test_shared\<lparr>shStats := None\<rparr>\<rparr>"

lemma test_assoc_start: "\<exists>reply t1 st1. handleUDPAssociate test_assoc_env None None \<lparr>nextFd = 4, openFds = [3]\<rparr> (test_shared\<lparr>shStats := None\<rparr>)
  = (reply, t1, st1, Some test_assoc)"
  by (simp add: handleUDPAssociate_def listenClientUDPRelay_def ListenUDP_def test_assoc_env_def test_udp_env_def Let_def
      stats_begin_def test_shared_def test_assoc_def newDirectUDPRegistry_def)

definition test_assoc1 :: "Manager assoc" where
  "test_assoc1 = client_datagram test_assoc_env test_socks_config test_client [1, 2, 3] test_assoc"

lemma test_assoc_client:
  "aSpp test_assoc1 = Some \<lparr>ssTcp = 5, ssUdp = 6, ssRelay = test_spp_relay, ssLease = Some 1\<rparr>"
  "aOut test_assoc1 = [(test_client, test_spp_relay, [1, 2, 3])]" "activeClientUDP test_assoc1 = Some test_client"
  "aBack test_assoc1 = []" "assocClosed test_assoc1 = False"
proof -
  obtain m' where pick: "PickNode test_world test_manager = ((''x:2'', ''a'', Some 1), m')"
    using test_PickNode by (cases "PickNode test_world test_manager") auto
  have split: "SplitHostPort '':53'' = Some ([], ''53'')" "ParseIP [] = None" "Atoi_value ''53'' = 53" by code_simp+
  note defs = test_assoc1_def client_datagram_def pin_client_def send_proxy_def getOrCreateSPPUDPSession_def spp_connected_def
    test_assoc_env_def test_assoc_def test_socks_config_def test_shared_def routeDecision_def test_not_address
    pick_upstream_def manager_upstream_def pick split open_fd_def ListenUDP_def test_udp_env_def relay_target_def count_datagram_def
    with_stats_def test_spp_relay_def Let_def upstream_auth_def
  show "aSpp test_assoc1 = Some \<lparr>ssTcp = 5, ssUdp = 6, ssRelay = test_spp_relay, ssLease = Some 1\<rparr>"
    "aOut test_assoc1 = [(test_client, test_spp_relay, [1, 2, 3])]" "activeClientUDP test_assoc1 = Some test_client"
    "aBack test_assoc1 = []" "assocClosed test_assoc1 = False"
    by (simp_all add: defs)
qed

text \<open>A datagram of the client goes out through a node and one comes back.\<close>

theorem udp_association_safe_witness:
  "let a = spp_datagram test_assoc_env (the (aSpp test_assoc1)) test_spp_relay [7] test_assoc1 in
     aBack a = [(test_spp_relay, test_client, [7])] \<and> aOut a = [(test_client, test_spp_relay, [1, 2, 3])]
     \<and> set (openFds (aFds (assoc_teardown test_assoc_env test_socks_config a))) = {3}
     \<and> mgr_conns (shUp (aShared (assoc_teardown test_assoc_env test_socks_config a))) = mgr_conns test_manager"
proof -
  define a where "a = spp_datagram test_assoc_env (the (aSpp test_assoc1)) test_spp_relay [7] test_assoc1"
  obtain reply t1 st1 where start: "handleUDPAssociate test_assoc_env None None \<lparr>nextFd = 4, openFds = [3]\<rparr>
      (test_shared\<lparr>shStats := None\<rparr>) = (reply, t1, st1, Some test_assoc)"
    using test_assoc_start by blast
  have "assoc_step test_socks_config test_assoc test_assoc1" unfolding test_assoc1_def by (rule from_client)
  moreover have "assoc_step test_socks_config test_assoc1 a"
    unfolding a_def by (rule from_spp) (simp_all add: test_assoc_client)
  ultimately have run: "(assoc_step test_socks_config)\<^sup>*\<^sup>* test_assoc a" by simp
  have ok: "fds_ok \<lparr>nextFd = 4, openFds = [3]\<rparr>" "mgr_counts_ok (shUp (test_shared\<lparr>shStats := None\<rparr>))"
    "cfgUpstream test_socks_config = Some (manager_upstream test_world)"
    by (simp_all add: fds_ok_def mgr_counts_ok_def test_shared_def test_manager_def new_runtime_def test_socks_config_def)
  have "aBack a = [(test_spp_relay, test_client, [7])]" "aOut a = [(test_client, test_spp_relay, [1, 2, 3])]"
    by (simp_all add: a_def spp_datagram_def test_assoc_client count_datagram_def)
  then show ?thesis
    using udp_association_safe [OF start ok(1) ok(3) ok(2) run, of test_assoc_env]
    by (simp add: a_def [symmetric] test_shared_def)
qed

end
