(* ===== verification/Go_Base64.thy ===== *)
theory Go_Base64
  imports Go_Prelude
begin

text \<open>
  Go's package \<^verbatim>\<open>encoding/base64\<close> as the sources use it: \<^verbatim>\<open>StdEncoding\<close> for proxy credentials, and
  \<^verbatim>\<open>RawURLEncoding\<close> and \<^verbatim>\<open>URLEncoding\<close> for DNS messages. Octets are numbers below 256. The decoder
  skips CR and LF, and, as in the library, does not look at the unused bits of the last character.
  Decoding inverts encoding.
\<close>

definition std_alphabet :: string where
  "std_alphabet = ''ABCDEFGHIJKLMNOPQRSTUVWXYZabcdefghijklmnopqrstuvwxyz0123456789+/''"

definition url_alphabet :: string where
  "url_alphabet = ''ABCDEFGHIJKLMNOPQRSTUVWXYZabcdefghijklmnopqrstuvwxyz0123456789-_''"

record Encoding =
  alphabet :: string
  padded :: bool

definition StdEncoding :: Encoding where "StdEncoding = \<lparr>alphabet = std_alphabet, padded = True\<rparr>"
definition URLEncoding :: Encoding where "URLEncoding = \<lparr>alphabet = url_alphabet, padded = True\<rparr>"
definition RawURLEncoding :: Encoding where "RawURLEncoding = \<lparr>alphabet = url_alphabet, padded = False\<rparr>"

section \<open>Encoding\<close>

fun encode_quanta :: "Encoding \<Rightarrow> nat list \<Rightarrow> string" where
  "encode_quanta e [] = []"
| "encode_quanta e [x] = alphabet e ! (x div 4) # alphabet e ! (x mod 4 * 16) # (if padded e then ''=='' else [])"
| "encode_quanta e [x, y] = alphabet e ! (x div 4) # alphabet e ! (x mod 4 * 16 + y div 16)
     # alphabet e ! (y mod 16 * 4) # (if padded e then ''='' else [])"
| "encode_quanta e (x # y # z # r) = alphabet e ! (x div 4) # alphabet e ! (x mod 4 * 16 + y div 16)
     # alphabet e ! (y mod 16 * 4 + z div 64) # alphabet e ! (z mod 64) # encode_quanta e r"

definition EncodeToString :: "Encoding \<Rightarrow> nat list \<Rightarrow> string" where
  "EncodeToString e xs = encode_quanta e xs"

section \<open>Decoding\<close>

definition one_byte :: "nat \<Rightarrow> nat \<Rightarrow> nat list" where
  "one_byte a b = [a * 4 + b div 16]"

definition two_bytes :: "nat \<Rightarrow> nat \<Rightarrow> nat \<Rightarrow> nat list" where
  "two_bytes a b c = [a * 4 + b div 16, b mod 16 * 16 + c div 4]"

definition three_bytes :: "nat \<Rightarrow> nat \<Rightarrow> nat \<Rightarrow> nat \<Rightarrow> nat list" where
  "three_bytes a b c d = [a * 4 + b div 16, b mod 16 * 16 + c div 4, c mod 4 * 64 + d]"

definition dec2 :: "Encoding \<Rightarrow> char \<Rightarrow> char \<Rightarrow> nat list option" where
  "dec2 e a b = (case (IndexByte (alphabet e) a, IndexByte (alphabet e) b) of
     (Some a, Some b) \<Rightarrow> Some (one_byte a b) | _ \<Rightarrow> None)"

definition dec3 :: "Encoding \<Rightarrow> char \<Rightarrow> char \<Rightarrow> char \<Rightarrow> nat list option" where
  "dec3 e a b c = (case (IndexByte (alphabet e) a, IndexByte (alphabet e) b, IndexByte (alphabet e) c) of
     (Some a, Some b, Some c) \<Rightarrow> Some (two_bytes a b c) | _ \<Rightarrow> None)"

definition dec4 :: "Encoding \<Rightarrow> char \<Rightarrow> char \<Rightarrow> char \<Rightarrow> char \<Rightarrow> nat list option" where
  "dec4 e a b c d =
     (case (IndexByte (alphabet e) a, IndexByte (alphabet e) b, IndexByte (alphabet e) c, IndexByte (alphabet e) d) of
        (Some a, Some b, Some c, Some d) \<Rightarrow> Some (three_bytes a b c d) | _ \<Rightarrow> None)"

fun decode_quanta :: "Encoding \<Rightarrow> string \<Rightarrow> nat list option" where
  "decode_quanta e [] = Some []"
| "decode_quanta e [a] = None"
| "decode_quanta e [a, b] = (if padded e then None else dec2 e a b)"
| "decode_quanta e [a, b, c] = (if padded e then None else dec3 e a b c)"
| "decode_quanta e (a # b # c # d # r) =
     (if padded e \<and> c = CHR ''='' then (if d = CHR ''='' \<and> r = [] then dec2 e a b else None)
      else if padded e \<and> d = CHR ''='' then (if r = [] then dec3 e a b c else None)
      else case dec4 e a b c d of
             None \<Rightarrow> None
           | Some xs \<Rightarrow> map_option (\<lambda>ys. xs @ ys) (decode_quanta e r))"

definition DecodeString :: "Encoding \<Rightarrow> string \<Rightarrow> nat list option" where
  "DecodeString e s = decode_quanta e (filter (\<lambda>c. c \<notin> {CHR 0x0D, CHR 0x0A}) s)"

section \<open>The round trip\<close>

lemma IndexByte_nth: "distinct xs \<Longrightarrow> i < length xs \<Longrightarrow> IndexByte xs (xs ! i) = Some i"
proof (induction xs arbitrary: i)
  case (Cons x xs)
  then show ?case by (cases i) auto
qed simp

lemma triples_induct [case_names Nil One Two Three]:
  assumes "P []" "\<And>x. P [x]" "\<And>x y. P [x, y]" "\<And>x y z r. P r \<Longrightarrow> P (x # y # z # r)"
  shows "P (xs :: nat list)"
  using assms by (rule encode_quanta.induct [of "\<lambda>_. P" undefined])

text \<open>What a table of 64 characters needs for its encoding to be read back.\<close>

locale base64 =
  fixes e :: Encoding
  assumes length_alphabet: "length (alphabet e) = 64"
    and distinct_alphabet: "distinct (alphabet e)"
    and no_special: "set (alphabet e) \<inter> {CHR ''='', CHR 0x0D, CHR 0x0A} = {}"
begin

lemma index_char [simp]: "i < 64 \<Longrightarrow> IndexByte (alphabet e) (alphabet e ! i) = Some i"
  by (rule IndexByte_nth) (simp_all add: distinct_alphabet length_alphabet)

lemma char_special [simp]:
  assumes "i < 64"
  shows "alphabet e ! i \<noteq> CHR ''=''" "alphabet e ! i \<noteq> CHR 0x0D" "alphabet e ! i \<noteq> CHR 0x0A"
  using no_special nth_mem [of i "alphabet e"] assms unfolding length_alphabet by (metis disjoint_iff insertCI)+

lemma sextets:
  fixes x y z :: nat
  assumes "x < 256" "y < 256" "z < 256"
  shows "x div 4 < 64" "x mod 4 * 16 < 64" "x mod 4 * 16 + y div 16 < 64" "y mod 16 * 4 < 64"
    "y mod 16 * 4 + z div 64 < 64" "z mod 64 < 64"
proof -
  have "x mod 4 < 4" "y div 16 < 16" "y mod 16 < 16" "z div 64 < 4" using assms by simp_all
  then show "x div 4 < 64" "x mod 4 * 16 < 64" "x mod 4 * 16 + y div 16 < 64" "y mod 16 * 4 < 64"
    "y mod 16 * 4 + z div 64 < 64" "z mod 64 < 64" using assms by linarith+
qed

lemma regroup:
  fixes x y z :: nat
  assumes "y < 256" "z < 256"
  shows "x div 4 * 4 + (x mod 4 * 16 + y div 16) div 16 = x"
    "(x mod 4 * 16 + y div 16) mod 16 * 16 + (y mod 16 * 4 + z div 64) div 4 = y"
    "(y mod 16 * 4 + z div 64) mod 4 * 64 + z mod 64 = z"
proof -
  have "(x mod 4 * 16 + y div 16) div 16 = x mod 4" "(x mod 4 * 16 + y div 16) mod 16 = y div 16"
    "(y mod 16 * 4 + z div 64) div 4 = y mod 16" "(y mod 16 * 4 + z div 64) mod 4 = z div 64"
    using assms by simp_all
  then show "x div 4 * 4 + (x mod 4 * 16 + y div 16) div 16 = x"
    "(x mod 4 * 16 + y div 16) mod 16 * 16 + (y mod 16 * 4 + z div 64) div 4 = y"
    "(y mod 16 * 4 + z div 64) mod 4 * 64 + z mod 64 = z"
    by simp_all
qed

lemma bytes_back:
  assumes "x < 256" "y < 256" "z < 256"
  shows "one_byte (x div 4) (x mod 4 * 16) = [x]"
    "two_bytes (x div 4) (x mod 4 * 16 + y div 16) (y mod 16 * 4) = [x, y]"
    "three_bytes (x div 4) (x mod 4 * 16 + y div 16) (y mod 16 * 4 + z div 64) (z mod 64) = [x, y, z]"
  using regroup(1,2) [of y 0 x] assms
  by (simp add: one_byte_def, simp add: two_bytes_def, simp only: three_bytes_def regroup)

lemma decode_encode_quanta: "\<forall>x \<in> set xs. x < 256 \<Longrightarrow> decode_quanta e (encode_quanta e xs) = Some xs"
proof (induction xs rule: triples_induct)
  case (One x)
  then show ?case using sextets [of x 0 0] bytes_back(1) [of x 0 0] by (simp add: dec2_def)
next
  case (Two x y)
  then show ?case using sextets [of x y 0] bytes_back(2) [of x y 0] by (simp add: dec3_def)
next
  case (Three x y z r)
  then show ?case using sextets [of x y z] bytes_back(3) [of x y z] by (simp add: dec4_def)
qed simp

lemma encode_chars:
  "\<forall>x \<in> set xs. x < 256 \<Longrightarrow> c \<in> set (encode_quanta e xs) \<Longrightarrow> c \<in> set (alphabet e) \<or> c = CHR ''=''"
proof (induction xs rule: triples_induct)
  case (One x)
  then show ?case using sextets [of x 0 0] by (auto simp: length_alphabet split: if_splits)
next
  case (Two x y)
  then show ?case using sextets [of x y 0] by (auto simp: length_alphabet split: if_splits)
next
  case (Three x y z r)
  then show ?case using sextets [of x y z] by (auto simp: length_alphabet)
qed simp

lemma encode_no_newline:
  "\<forall>x \<in> set xs. x < 256 \<Longrightarrow> c \<in> set (encode_quanta e xs) \<Longrightarrow> c \<noteq> CHR 0x0D \<and> c \<noteq> CHR 0x0A"
  using encode_chars [of xs c] no_special by auto

lemma DecodeString_EncodeToString:
  assumes "\<forall>x \<in> set xs. x < 256"
  shows "DecodeString e (EncodeToString e xs) = Some xs"
proof -
  have "filter (\<lambda>c. c \<notin> {CHR 0x0D, CHR 0x0A}) (encode_quanta e xs) = encode_quanta e xs"
    using encode_no_newline [OF assms] by (intro filter_True) auto
  then show ?thesis
    using decode_encode_quanta [OF assms] by (simp add: DecodeString_def EncodeToString_def)
qed

end

interpretation std64: base64 StdEncoding
  by unfold_locales (simp_all add: StdEncoding_def std_alphabet_def)

interpretation url64: base64 URLEncoding
  by unfold_locales (simp_all add: URLEncoding_def url_alphabet_def)

interpretation raw64: base64 RawURLEncoding
  by unfold_locales (simp_all add: RawURLEncoding_def url_alphabet_def)

end
