(* ===== verification/Http_Head.thy ===== *)
theory Http_Head
  imports Proxy_Addr Go_Base64
begin

text \<open>
  \<^verbatim>\<open>core/proxy/http.go\<close>, the head of a request: reading its lines under a common budget, checking and
  collecting its headers, the credentials, the target, and the head that is sent on.

  A buffered reader is the pair of its buffer and the pieces in which the connection delivers the rest
  of its input; after the last piece a read fails. Its octets are characters, and the comparison of
  header names folds ASCII letters only.
\<close>

section \<open>The buffered reader\<close>

type_synonym breader = "string \<times> string list"

definition bufSize :: nat where "bufSize = 4096"

definition unread :: "breader \<Rightarrow> string" where
  "unread br = fst br @ concat (snd br)"

datatype slice_err = SliceOk | BufferFull | SliceEOF

text \<open>\<^verbatim>\<open>bufio.Reader.ReadSlice\<close>: up to and with the next LF, or the whole buffer when it is full without one,
  or what is left when the connection ends.\<close>

function ReadSlice :: "string \<Rightarrow> string list \<Rightarrow> (string \<times> slice_err) \<times> breader" where
  "ReadSlice buf conn =
     (case IndexByte buf (CHR 0x0A) of
        Some i \<Rightarrow> ((take (i + 1) buf, SliceOk), drop (i + 1) buf, conn)
      | None \<Rightarrow>
          if bufSize \<le> length buf then ((buf, BufferFull), [], conn)
          else case conn of
                 [] \<Rightarrow> ((buf, SliceEOF), [], [])
               | c # cs \<Rightarrow>
                   let k = bufSize - length buf
                   in ReadSlice (buf @ take k c) (if length c \<le> k then cs else drop k c # cs))"
  by pat_completeness auto
termination
  by (relation "measure (\<lambda>(buf, conn). length (concat conn) + length conn)") (auto simp: bufSize_def)

declare ReadSlice.simps [simp del]

text \<open>\<^verbatim>\<open>prefixedReaderConn.Read\<close> into a buffer of \<open>n\<close> octets: the buffer of the reader first, then the
  connection. \<open>None\<close> is the end of the connection.\<close>

definition prefixed_Read :: "nat \<Rightarrow> breader \<Rightarrow> string option \<times> breader" where
  "prefixed_Read n br =
     (case br of (buf, conn) \<Rightarrow>
        if buf \<noteq> [] then (Some (take n buf), drop n buf, conn)
        else case conn of
               [] \<Rightarrow> (None, [], [])
             | c # cs \<Rightarrow> (Some (take n c), [], if length c \<le> n then cs else drop n c # cs))"

section \<open>Lines\<close>

definition maxHTTPHeaderBytes :: nat where "maxHTTPHeaderBytes = 2 ^ 20"

datatype line_err = HeaderTooLarge | LineEOF

lemma ReadSlice_split:
  "ReadSlice buf conn = ((chunk, err), br') \<Longrightarrow> unread (buf, conn) = chunk @ unread br'
    \<and> (err = SliceOk \<longrightarrow> chunk \<noteq> [] \<and> last chunk = CHR 0x0A \<and> CHR 0x0A \<notin> set (butlast chunk))
    \<and> (err \<noteq> SliceOk \<longrightarrow> CHR 0x0A \<notin> set chunk)
    \<and> (err = BufferFull \<longrightarrow> bufSize \<le> length chunk) \<and> (err = SliceEOF \<longrightarrow> unread br' = [])"
proof (induction buf conn rule: ReadSlice.induct)
  case (1 buf conn)
  show ?case
  proof (cases "IndexByte buf (CHR 0x0A)")
    case (Some i)
    then have i: "i < length buf" "buf ! i = CHR 0x0A" "CHR 0x0A \<notin> set (take i buf)" by (auto dest: IndexByte_Some)
    moreover from i have "buf = take i buf @ CHR 0x0A # drop (Suc i) buf" using id_take_nth_drop [of i buf] by simp
    ultimately show ?thesis
      using 1(2) Some by (auto simp: ReadSlice.simps [of buf conn] unread_def take_Suc_conv_app_nth)
  next
    case None
    then have no: "CHR 0x0A \<notin> set buf" by (simp add: IndexByte_None)
    show ?thesis
    proof (cases "bufSize \<le> length buf")
      case True
      then show ?thesis using 1(2) None no by (auto simp: ReadSlice.simps [of buf conn] unread_def)
    next
      case False
      show ?thesis
      proof (cases conn)
        case Nil
        then show ?thesis using 1(2) None no False by (auto simp: ReadSlice.simps [of buf "[]"] unread_def)
      next
        case (Cons c cs)
        let ?k = "bufSize - length buf"
        let ?rest = "if length c \<le> ?k then cs else drop ?k c # cs"
        have "ReadSlice (buf @ take ?k c) ?rest = ((chunk, err), br')"
          using 1(2) None False Cons by (simp add: ReadSlice.simps [of buf "c # cs"] Let_def)
        from 1(1) [OF None False Cons refl this]
        have IH: "unread (buf @ take ?k c, ?rest) = chunk @ unread br'
          \<and> (err = SliceOk \<longrightarrow> chunk \<noteq> [] \<and> last chunk = CHR 0x0A \<and> CHR 0x0A \<notin> set (butlast chunk))
          \<and> (err \<noteq> SliceOk \<longrightarrow> CHR 0x0A \<notin> set chunk)
          \<and> (err = BufferFull \<longrightarrow> bufSize \<le> length chunk) \<and> (err = SliceEOF \<longrightarrow> unread br' = [])" .
        have "unread (buf @ take ?k c, ?rest) = unread (buf, conn)"
          by (simp add: unread_def Cons)
        then show ?thesis using IH by simp
      qed
    qed
  qed
qed

function limited_loop :: "string \<Rightarrow> nat \<Rightarrow> breader \<Rightarrow> (line_err + string) \<times> nat \<times> breader" where
  "limited_loop line remaining br =
     (case ReadSlice (fst br) (snd br) of ((chunk, err), br') \<Rightarrow>
         if remaining < length chunk then (Inl HeaderTooLarge, remaining, br')
         else
           let remaining = remaining - length chunk; line = line @ chunk
           in case err of
                SliceOk \<Rightarrow> (Inr line, remaining, br')
              | SliceEOF \<Rightarrow> (Inl LineEOF, remaining, br')
              | BufferFull \<Rightarrow> limited_loop line remaining br')"
  by pat_completeness auto
termination
  by (relation "measure (\<lambda>(line, remaining, br). length (unread br))")
    (auto dest!: ReadSlice_split [OF sym] simp: bufSize_def)

declare limited_loop.simps [simp del]

definition readLimitedLine :: "nat \<Rightarrow> breader \<Rightarrow> (line_err + string) \<times> nat \<times> breader" where
  "readLimitedLine remaining br = limited_loop [] remaining br"

text \<open>What reading a line means on the octets not yet read, whatever the pieces in which they arrive.\<close>

definition line_spec :: "nat \<Rightarrow> string \<Rightarrow> line_err + string" where
  "line_spec remaining s =
     (case IndexByte s (CHR 0x0A) of
        None \<Rightarrow> Inl (if length s \<le> remaining then LineEOF else HeaderTooLarge)
      | Some i \<Rightarrow> if i < remaining then Inr (take (i + 1) s) else Inl HeaderTooLarge)"

lemma line_spec_LF:
  assumes "CHR 0x0A \<notin> set a"
  shows "line_spec remaining (a @ CHR 0x0A # b) =
    (if length a < remaining then Inr (a @ [CHR 0x0A]) else Inl HeaderTooLarge)"
  by (simp add: line_spec_def IndexByte_append [OF assms])

lemma line_spec_no_LF:
  assumes "CHR 0x0A \<notin> set a"
  shows "line_spec remaining (a @ s) =
    (if length a \<le> remaining then
       (case line_spec (remaining - length a) s of Inl e \<Rightarrow> Inl e | Inr line \<Rightarrow> Inr (a @ line))
     else Inl HeaderTooLarge)"
proof -
  have "IndexByte (a @ s) (CHR 0x0A) = map_option (\<lambda>i. length a + i) (IndexByte s (CHR 0x0A))"
    using assms
  proof (induction a)
    case Nil
    then show ?case by (cases "IndexByte s (CHR 0x0A)") simp_all
  next
    case (Cons x a)
    then show ?case by (cases "IndexByte s (CHR 0x0A)") auto
  qed
  then show ?thesis
    by (auto simp: line_spec_def split: option.splits)
qed

lemma limited_loop_spec:
  "limited_loop line remaining br = (res, remaining', br') \<Longrightarrow>
     res = (case line_spec remaining (unread br) of Inl e \<Rightarrow> Inl e | Inr l \<Rightarrow> Inr (line @ l))
     \<and> (\<forall>l. line_spec remaining (unread br) = Inr l \<longrightarrow> unread br = l @ unread br' \<and> remaining' = remaining - length l)"
proof (induction line remaining br arbitrary: res remaining' br' rule: limited_loop.induct)
  case (1 line remaining br)
  obtain chunk err br1 where s: "ReadSlice (fst br) (snd br) = ((chunk, err), br1)" by (metis prod.collapse)
  note sp = ReadSlice_split [OF s, simplified]
  have br: "unread br = chunk @ unread br1" using sp by simp
  show ?case
  proof (cases err)
    case SliceOk
    define a where "a = butlast chunk"
    have chunk: "chunk = a @ [CHR 0x0A]" "CHR 0x0A \<notin> set a"
      using sp SliceOk append_butlast_last_id [of chunk] by (simp_all add: a_def)
    then show ?thesis
      using 1(2) s SliceOk br line_spec_LF [OF chunk(2), of remaining "unread br1"]
      by (auto simp: limited_loop.simps [of line remaining br] Let_def split: if_splits)
  next
    case BufferFull
    have no: "CHR 0x0A \<notin> set chunk" using sp BufferFull by simp
    show ?thesis
    proof (cases "remaining < length chunk")
      case True
      then have "line_spec remaining (unread br) = Inl HeaderTooLarge" "res = Inl HeaderTooLarge"
        using 1(2) s br line_spec_no_LF [OF no, of remaining "unread br1"] by (auto simp: limited_loop.simps [of line remaining br])
      then show ?thesis by simp
    next
      case False
      then have "limited_loop (line @ chunk) (remaining - length chunk) br1 = (res, remaining', br')"
        using 1(2) s BufferFull by (simp add: limited_loop.simps [of line remaining br] Let_def)
      with 1(1) [OF s [symmetric] refl False refl refl BufferFull]
      show ?thesis using br line_spec_no_LF [OF no, of remaining "unread br1"] False
        by (auto split: sum.splits)
    qed
  next
    case SliceEOF
    have no: "CHR 0x0A \<notin> set chunk" using sp SliceEOF by simp
    then show ?thesis
      using 1(2) s SliceEOF br sp line_spec_no_LF [OF no, of remaining "[]"]
      by (auto simp: limited_loop.simps [of line remaining br] Let_def line_spec_def split: if_splits)
  qed
qed

lemma readLimitedLine_result:
  assumes "readLimitedLine remaining br = (res, remaining', br')"
  shows "res = line_spec remaining (unread br)"
    and "line_spec remaining (unread br) = Inr l \<Longrightarrow> unread br = l @ unread br' \<and> remaining' = remaining - length l"
  using limited_loop_spec [of "[]" remaining br res remaining' br'] assms
  by (auto simp: readLimitedLine_def split: sum.splits)

lemma line_spec_Inr:
  assumes "line_spec remaining s = Inr l"
  obtains a where "l = a @ [CHR 0x0A]" "CHR 0x0A \<notin> set a" "prefix l s" "length l \<le> remaining"
proof -
  obtain i where i: "IndexByte s (CHR 0x0A) = Some i" "i < remaining" "l = take (i + 1) s"
    using assms by (auto simp: line_spec_def split: option.splits if_splits)
  then have "i < length s" "s ! i = CHR 0x0A" "CHR 0x0A \<notin> set (take i s)" by (auto dest: IndexByte_Some)
  moreover have "prefix l s" using i(3) by (simp add: take_is_prefix)
  ultimately show ?thesis using that [of "take i s"] i by (simp add: take_Suc_conv_app_nth)
qed

lemma readLimitedLine_shorter:
  assumes "(Inr line, remaining', br') = readLimitedLine remaining br"
  shows "length (unread br') < length (unread br)"
proof -
  have l: "line_spec remaining (unread br) = Inr line" using readLimitedLine_result(1) [OF assms [symmetric]] by simp
  then obtain a where "line = a @ [CHR 0x0A]" by (rule line_spec_Inr)
  then show ?thesis using readLimitedLine_result(2) [OF assms [symmetric] l] by simp
qed

section \<open>The head of a request\<close>

definition crlf :: string where "crlf = [CHR 0x0D, CHR 0x0A]"

definition isPrintableASCII :: "string \<Rightarrow> bool" where
  "isPrintableASCII s = list_all (\<lambda>c. 0x20 \<le> char_code c \<and> char_code c \<le> 0x7E) s"

definition containsControl :: "string \<Rightarrow> bool" where
  "containsControl s = list_ex (\<lambda>c. char_code c < 0x20 \<and> c \<noteq> CHR 0x09 \<or> char_code c = 0x7F) s"

record http_request =
  rqMethod :: string
  rqURI :: string
  rqProto :: string
  rqHeaders :: "string list"
  rqHost :: string
  rqHostSeen :: bool
  rqAuth :: string

datatype head_err = Reject400 | DropClient

text \<open>One header line that is not empty; \<open>None\<close> rejects the request.\<close>

definition header_step :: "string \<Rightarrow> http_request \<Rightarrow> http_request option" where
  "header_step trimmed rq =
     (if containsControl trimmed then None
      else
        let plain = (\<lambda>rq. Some (rq\<lparr>rqHeaders := rqHeaders rq @ [trimmed @ crlf]\<rparr>))
        in case IndexByte trimmed (CHR '':'') of
             None \<Rightarrow> plain rq
           | Some colonIdx \<Rightarrow>
               if colonIdx > 0 then
                 let k = TrimSpace (take colonIdx trimmed);
                     v = TrimSpace (drop (colonIdx + 1) trimmed)
                 in if EqualFold k ''Proxy-Authorization'' then Some (rq\<lparr>rqAuth := v\<rparr>)
                    else if EqualFold k ''Proxy-Connection''
                    then Some (rq\<lparr>rqHeaders := rqHeaders rq @ [''Connection: '' @ v @ crlf]\<rparr>)
                    else if EqualFold k ''Host'' then plain (rq\<lparr>rqHost := v, rqHostSeen := True\<rparr>)
                    else plain rq
               else plain rq)"

function read_headers :: "nat \<Rightarrow> breader \<Rightarrow> http_request \<Rightarrow> (head_err + http_request) \<times> breader" where
  "read_headers budget br rq =
     (case readLimitedLine budget br of
        (Inl HeaderTooLarge, _, br') \<Rightarrow> (Inl Reject400, br')
      | (Inl LineEOF, _, br') \<Rightarrow> (Inl DropClient, br')
      | (Inr headerLine, budget', br') \<Rightarrow>
          (let trimmed = TrimRight headerLine crlf in
           if trimmed = [] then (Inr rq, br')
           else case header_step trimmed rq of
                  None \<Rightarrow> (Inl Reject400, br')
                | Some rq' \<Rightarrow> read_headers budget' br' rq'))"
  by pat_completeness auto
termination
  by (relation "measure (\<lambda>(budget, br, rq). length (unread br))") (auto dest: readLimitedLine_shorter)

declare read_headers.simps [simp del]

definition read_head :: "breader \<Rightarrow> (head_err + http_request) \<times> breader" where
  "read_head br =
     (case readLimitedLine maxHTTPHeaderBytes br of
        (Inl HeaderTooLarge, _, br') \<Rightarrow> (Inl Reject400, br')
      | (Inl LineEOF, _, br') \<Rightarrow> (Inl DropClient, br')
      | (Inr reqLine, headerBudget, br') \<Rightarrow>
          (let reqLineTrimmed = TrimRight reqLine crlf;
               parts = Split reqLineTrimmed (CHR '' '')
           in if length parts \<noteq> 3 \<or> parts ! 0 = [] \<or> parts ! 1 = [] \<or> parts ! 2 = []
                \<or> \<not> isPrintableASCII reqLineTrimmed \<or> \<not> HasPrefix (parts ! 2) ''HTTP/''
              then (Inl Reject400, br')
              else read_headers headerBudget br'
                     \<lparr>rqMethod = ToUpper (parts ! 0), rqURI = parts ! 1, rqProto = parts ! 2, rqHeaders = [],
                      rqHost = [], rqHostSeen = False, rqAuth = []\<rparr>))"

section \<open>Credentials and target\<close>

definition checkAuth :: "string \<Rightarrow> string \<Rightarrow> string \<Rightarrow> bool" where
  "checkAuth username password authHeader =
     (if username = [] \<and> password = [] then True
      else if authHeader = [] then False
      else if length authHeader < 6 \<or> \<not> EqualFold (take 6 authHeader) ''Basic '' then False
      else case DecodeString StdEncoding (TrimSpace (drop 6 authHeader)) of
             None \<Rightarrow> False
           | Some decoded \<Rightarrow> decoded = map char_code (username @ '':'' @ password))"

definition parseTargetPort :: "string \<Rightarrow> int option" where
  "parseTargetPort p =
     (case Atoi p of
        None \<Rightarrow> None
      | Some port \<Rightarrow> if port < 1 \<or> port > 65535 then None else Some port)"

definition uri_host :: "string \<Rightarrow> string \<Rightarrow> string" where
  "uri_host rawURI hostHeader =
     (if HasPrefix rawURI ''http://'' then
        let uriTrimmed = TrimPrefix rawURI ''http://''
        in case IndexByte uriTrimmed (CHR ''/'') of
             None \<Rightarrow> uriTrimmed
           | Some slashIdx \<Rightarrow> if slashIdx > 0 then take slashIdx uriTrimmed else uriTrimmed
      else hostHeader)"

definition parseTarget :: "string \<Rightarrow> string \<Rightarrow> string \<Rightarrow> string \<times> int" where
  "parseTarget httpMethod rawURI hostHeader =
     (if httpMethod = ''CONNECT'' then
        (case SplitHostPort rawURI of
           Some (h, p) \<Rightarrow> (case parseTargetPort p of Some port \<Rightarrow> (h, port) | None \<Rightarrow> ([], 0))
         | None \<Rightarrow> (rawURI, 443))
      else
        let host = uri_host rawURI hostHeader
        in case SplitHostPort host of
             Some (h, p) \<Rightarrow> (case parseTargetPort p of Some port \<Rightarrow> (canonicalHost h, port) | None \<Rightarrow> ([], 0))
           | None \<Rightarrow> (canonicalHost host, 80))"

definition relPath :: "string \<Rightarrow> string" where
  "relPath rawURI =
     (if HasPrefix rawURI ''http://'' then
        let trimmed = TrimPrefix rawURI ''http://''
        in case IndexByte trimmed (CHR ''/'') of None \<Rightarrow> ''/'' | Some slashIdx \<Rightarrow> drop slashIdx trimmed
      else rawURI)"

text \<open>The head that \<^verbatim>\<open>handleStandardHTTP\<close> sends on.\<close>

definition syntheticHost :: "string \<Rightarrow> int \<Rightarrow> string" where
  "syntheticHost targetHost targetPort =
     (if targetPort \<noteq> 80 then JoinHostPort targetHost (Itoa targetPort) else targetHost)"

definition forward_head :: "http_request \<Rightarrow> string \<Rightarrow> int \<Rightarrow> string" where
  "forward_head rq targetHost targetPort =
     rqMethod rq @ '' '' @ relPath (rqURI rq) @ '' '' @ rqProto rq @ crlf
     @ (if rqHostSeen rq then [] else ''Host: '' @ syntheticHost targetHost targetPort @ crlf)
     @ concat (rqHeaders rq) @ crlf"

section \<open>The octets of a head\<close>

definition clean :: "string \<Rightarrow> bool" where
  "clean s \<longleftrightarrow> (\<forall>c \<in> set s. \<not> (char_code c < 0x20 \<and> c \<noteq> CHR 0x09 \<or> char_code c = 0x7F))"

lemma clean_iff: "clean s \<longleftrightarrow> \<not> containsControl s"
  by (auto simp: clean_def containsControl_def list_ex_iff)

lemma clean_append [simp]: "clean (a @ b) \<longleftrightarrow> clean a \<and> clean b"
  by (auto simp: clean_def)

lemma clean_Nil [simp]: "clean []"
  by (simp add: clean_def)

lemma clean_subset: "clean s \<Longrightarrow> set t \<subseteq> set s \<Longrightarrow> clean t"
  by (auto simp: clean_def)

lemma clean_TrimSpace: "clean s \<Longrightarrow> clean (TrimSpace s)"
  by (erule clean_subset) (simp add: TrimSpace_def set_TrimFunc)

lemma printable_clean: "isPrintableASCII s \<Longrightarrow> clean s"
  by (auto simp: isPrintableASCII_def clean_def list_all_iff)

lemma isPrintableASCII_subset: "isPrintableASCII s \<Longrightarrow> set t \<subseteq> set s \<Longrightarrow> isPrintableASCII t"
  by (auto simp: isPrintableASCII_def list_all_iff)

lemma isPrintableASCII_ToUpper: "isPrintableASCII s \<Longrightarrow> isPrintableASCII (ToUpper s)"
  by (auto simp: isPrintableASCII_def list_all_iff ToUpper_def upper_char_def)

text \<open>The name of a header line, as the parser reads it.\<close>

definition header_name :: "string \<Rightarrow> string" where
  "header_name l = (case IndexByte l (CHR '':'') of Some i \<Rightarrow> if i > 0 then TrimSpace (take i l) else [] | None \<Rightarrow> [])"

definition hop_header :: "string \<Rightarrow> bool" where
  "hop_header l \<longleftrightarrow> EqualFold (header_name l) ''Proxy-Authorization'' \<or> EqualFold (header_name l) ''Proxy-Connection''"

definition headers_ok :: "http_request \<Rightarrow> bool" where
  "headers_ok rq \<longleftrightarrow> (\<forall>h \<in> set (rqHeaders rq). \<exists>l. h = l @ crlf \<and> l \<noteq> [] \<and> clean l \<and> \<not> hop_header l)
     \<and> (if rqHostSeen rq then (\<exists>l. l @ crlf \<in> set (rqHeaders rq) \<and> EqualFold (header_name l) ''Host'') else rqHost rq = [])"

definition header_value :: "string \<Rightarrow> string" where
  "header_value l = (case IndexByte l (CHR '':'') of Some i \<Rightarrow> TrimSpace (drop (i + 1) l) | None \<Rightarrow> [])"

lemma EqualFold_Nil [simp]: "EqualFold [] s \<longleftrightarrow> s = []"
  by (cases s) (auto simp: EqualFold_def)

lemma header_step_eq:
  "header_step l rq =
     (if containsControl l then None
      else if EqualFold (header_name l) ''Proxy-Authorization'' then Some (rq\<lparr>rqAuth := header_value l\<rparr>)
      else if EqualFold (header_name l) ''Proxy-Connection''
      then Some (rq\<lparr>rqHeaders := rqHeaders rq @ [''Connection: '' @ header_value l @ crlf]\<rparr>)
      else if EqualFold (header_name l) ''Host''
      then Some (rq\<lparr>rqHost := header_value l, rqHostSeen := True, rqHeaders := rqHeaders rq @ [l @ crlf]\<rparr>)
      else Some (rq\<lparr>rqHeaders := rqHeaders rq @ [l @ crlf]\<rparr>))"
  by (simp add: header_step_def header_name_def header_value_def Let_def split: option.splits)

lemma header_step_None: "header_step l rq = None \<longleftrightarrow> containsControl l"
  by (simp add: header_step_eq)

lemma clean_value: "clean l \<Longrightarrow> clean (header_value l)"
  by (auto simp: header_value_def clean_def TrimSpace_def split: option.splits dest!: set_TrimFunc [THEN subsetD] in_set_dropD)

lemma header_name_append: "CHR '':'' \<notin> set a \<Longrightarrow> a \<noteq> [] \<Longrightarrow> header_name (a @ CHR '':'' # v) = TrimSpace a"
  by (simp add: header_name_def IndexByte_append)

lemma Connection_name: "header_name (''Connection: '' @ v) = ''Connection''" "header_name (''Host: '' @ v) = ''Host''"
proof -
  have "TrimSpace ''Connection'' = ''Connection''" "TrimSpace ''Host'' = ''Host''" by code_simp+
  then show "header_name (''Connection: '' @ v) = ''Connection''" "header_name (''Host: '' @ v) = ''Host''"
    using header_name_append [of "''Connection''" "CHR '' '' # v"] header_name_append [of "''Host''" "CHR '' '' # v"] by simp_all
qed

lemma Connection_clean: "clean ''Connection: ''" "clean ''Host: ''"
  by (simp_all add: clean_def char_code_def)

lemma Connection_not_hop: "\<not> hop_header (''Connection: '' @ v)" "\<not> hop_header (''Host: '' @ v)"
proof -
  have "\<not> EqualFold ''Connection'' ''Proxy-Authorization''" "\<not> EqualFold ''Connection'' ''Proxy-Connection''"
    "\<not> EqualFold ''Host'' ''Proxy-Authorization''" "\<not> EqualFold ''Host'' ''Proxy-Connection''" by code_simp+
  then show "\<not> hop_header (''Connection: '' @ v)" "\<not> hop_header (''Host: '' @ v)"
    unfolding hop_header_def Connection_name by simp_all
qed

lemma headers_ok_add:
  assumes "headers_ok rq" "l \<noteq> []" "clean l" "\<not> hop_header l"
  shows "headers_ok (rq\<lparr>rqHeaders := rqHeaders rq @ [l @ crlf]\<rparr>)"
    and "EqualFold (header_name l) ''Host'' \<Longrightarrow>
      headers_ok (rq\<lparr>rqHost := v, rqHostSeen := True, rqHeaders := rqHeaders rq @ [l @ crlf]\<rparr>)"
  using assms by (auto simp: headers_ok_def)

lemma header_step_ok:
  assumes "header_step l rq = Some rq'" "l \<noteq> []" "headers_ok rq"
  shows "headers_ok rq'"
proof -
  have c: "clean l" using assms(1) by (auto simp: header_step_eq clean_iff split: if_splits)
  have "headers_ok (rq\<lparr>rqAuth := v\<rparr>)" for v using assms(3) by (simp add: headers_ok_def)
  moreover have "headers_ok (rq\<lparr>rqHeaders := rqHeaders rq @ [(''Connection: '' @ header_value l) @ crlf]\<rparr>)"
    by (rule headers_ok_add(1) [OF assms(3)]) (simp_all del: append_Cons append_Nil add: Connection_clean clean_value c Connection_not_hop)
  moreover note headers_ok_add [OF assms(3,2) c]
  ultimately show ?thesis
    using assms(1) by (auto simp: header_step_eq hop_header_def split: if_splits)
qed

lemma header_step_line: "header_step l rq = Some rq' \<Longrightarrow> rqMethod rq' = rqMethod rq \<and> rqURI rq' = rqURI rq \<and> rqProto rq' = rqProto rq"
  by (auto simp: header_step_eq split: if_splits)

lemma read_headers_ok:
  "read_headers budget br rq = (Inr rq', br') \<Longrightarrow> headers_ok rq \<Longrightarrow>
     headers_ok rq' \<and> rqMethod rq' = rqMethod rq \<and> rqURI rq' = rqURI rq \<and> rqProto rq' = rqProto rq"
proof (induction budget br rq rule: read_headers.induct)
  case (1 budget br rq)
  obtain res budget1 br1 where r: "readLimitedLine budget br = (res, budget1, br1)" by (metis prod.collapse)
  obtain line where line: "res = Inr line"
    using 1(2) r by (cases res) (auto simp: read_headers.simps [of budget br] split: line_err.splits)
  define l where "l = TrimRight line crlf"
  show ?case
  proof (cases "l = []")
    case True
    then show ?thesis using 1(2,3) r line by (simp add: read_headers.simps [of budget br] l_def)
  next
    case False
    then obtain rq1 where s: "header_step l rq = Some rq1" "read_headers budget1 br1 rq1 = (Inr rq', br')"
      using 1(2) r line by (auto simp: read_headers.simps [of budget br] l_def Let_def split: option.splits)
    show ?thesis
      using 1(1) [OF r [symmetric] line refl l_def False s(1)] s header_step_ok [OF s(1) False 1(3)] header_step_line [OF s(1)] by simp
  qed
qed

lemma set_Split: "p \<in> set (Split s c) \<Longrightarrow> set p \<subseteq> set s"
proof (induction s arbitrary: p)
  case (Cons x xs)
  obtain y ys where y: "Split xs c = y # ys" by (cases "Split xs c") simp_all
  then show ?case using Cons by (fastforce split: if_splits)
qed simp

lemma read_head_ok:
  assumes "read_head br = (Inr rq, br')"
  shows "headers_ok rq" "clean (rqMethod rq)" "clean (rqURI rq)" "clean (rqProto rq)" "rqMethod rq \<noteq> []"
proof -
  obtain res budget br1 where r: "readLimitedLine maxHTTPHeaderBytes br = (res, budget, br1)" by (metis prod.collapse)
  obtain line where line: "res = Inr line"
    using assms r by (cases res) (auto simp: read_head_def split: line_err.splits)
  define l where "l = TrimRight line crlf"
  define parts where "parts = Split l (CHR '' '')"
  have ok: "length parts = 3" "parts ! 0 \<noteq> []" "isPrintableASCII l"
    and h: "read_headers budget br1 \<lparr>rqMethod = ToUpper (parts ! 0), rqURI = parts ! 1, rqProto = parts ! 2, rqHeaders = [],
        rqHost = [], rqHostSeen = False, rqAuth = []\<rparr> = (Inr rq, br')"
    using assms r line by (auto simp: read_head_def Let_def l_def [symmetric] parts_def [symmetric] split: if_splits)
  have "isPrintableASCII (parts ! i)" if "i < 3" for i
    by (rule isPrintableASCII_subset [OF ok(3) set_Split [of _ _ "CHR '' ''"]])
      (use that ok(1) in \<open>auto simp: parts_def [symmetric]\<close>)
  then have "clean (ToUpper (parts ! 0))" "clean (parts ! 1)" "clean (parts ! 2)"
    by (simp_all add: printable_clean isPrintableASCII_ToUpper)
  then show "headers_ok rq" "clean (rqMethod rq)" "clean (rqURI rq)" "clean (rqProto rq)" "rqMethod rq \<noteq> []"
    using read_headers_ok [OF h] ok(2) by (simp_all add: headers_ok_def ToUpper_def)
qed

lemma clean_canonicalHost:
  assumes "clean h"
  shows "clean (canonicalHost h)"
proof (cases "ParseIP (unbracket h)")
  case None
  have "set (unbracket h) \<subseteq> set (TrimSpace h)"
    by (cases "TrimSpace h") (auto simp: unbracket_def Let_def dest: in_set_butlastD)
  then show ?thesis
    using clean_subset [OF clean_TrimSpace [OF assms]] None by (simp add: canonicalHost_name)
next
  case (Some ip)
  have "clean (IP_String ip)"
    using IP_String_chars [of ip] length_ParseIP [OF Some]
    by (force simp: clean_def is_hex_def is_digit_def char_code_def)
  then show ?thesis using canonicalHost_ip [OF Some] by simp
qed

lemma set_SplitHostPort: "SplitHostPort s = Some (h, p) \<Longrightarrow> set h \<subseteq> set s"
  by (auto simp: SplitHostPort_def split: option.splits if_splits dest: in_set_takeD in_set_dropD)

lemma clean_syntheticHost: "clean h \<Longrightarrow> clean (syntheticHost h p)"
  using Itoa_chars [of _ p]
  by (force simp: syntheticHost_def JoinHostPort_def clean_def is_digit_def char_code_def)

lemma clean_target:
  assumes "clean uri" "clean hostHeader" "parseTarget m uri hostHeader = (h, p)"
  shows "clean h"
proof -
  have u: "clean (uri_host uri hostHeader)"
    by (rule clean_subset [of "uri @ hostHeader"])
      (use assms(1,2) in \<open>auto simp: uri_host_def TrimPrefix_def Let_def split: option.splits dest!: in_set_takeD in_set_dropD\<close>)
  have "clean h'" if "SplitHostPort s = Some (h', p')" "clean s" for s h' p'
    using clean_subset [OF that(2) set_SplitHostPort [OF that(1)]] .
  then show ?thesis
    using assms u clean_Nil by (auto simp: parseTarget_def Let_def clean_canonicalHost split: if_splits option.splits)
qed

lemma clean_relPath: "clean uri \<Longrightarrow> clean (relPath uri)"
  by (rule clean_subset [of "uri @ ''/''"])
    (auto simp: relPath_def TrimPrefix_def Let_def clean_def char_code_def split: option.splits dest!: in_set_dropD)

section \<open>Well-formed heads\<close>

text \<open>A line as a well-behaved client sends it, and the request that a list of header lines describes.\<close>

definition line_ok :: "string \<Rightarrow> bool" where
  "line_ok l \<longleftrightarrow> l \<noteq> [] \<and> clean l"

definition apply_headers :: "string list \<Rightarrow> http_request \<Rightarrow> http_request" where
  "apply_headers ls rq = fold (\<lambda>l rq. the (header_step l rq)) ls rq"

lemma clean_no_crlf: "clean l \<Longrightarrow> CHR 0x0A \<notin> set l \<and> CHR 0x0D \<notin> set l"
  by (auto simp: clean_def char_code_def)

lemma TrimRight_crlf: "clean l \<Longrightarrow> TrimRight (l @ crlf) crlf = l"
proof -
  assume "clean l"
  then have "\<not> c \<in> set crlf" if "c \<in> set l" for c using that clean_no_crlf by (auto simp: crlf_def)
  then have "dropWhile (\<lambda>c. c \<in> set crlf) (rev l) = rev l" by (cases l rule: rev_cases) simp_all
  then show ?thesis by (simp add: TrimRight_def TrimRightFunc_def crlf_def)
qed

lemma readLimitedLine_line:
  assumes "unread br = l @ crlf @ s" "clean l" "length l + 2 \<le> n"
  obtains br' where "readLimitedLine n br = (Inr (l @ crlf), n - (length l + 2), br')" "unread br' = s"
proof -
  obtain res n' br' where r: "readLimitedLine n br = (res, n', br')" by (metis prod.collapse)
  have "CHR 0x0A \<notin> set (l @ [CHR 0x0D])" using clean_no_crlf [OF assms(2)] by simp
  then have l: "line_spec n (unread br) = Inr (l @ crlf)"
    using line_spec_LF [of "l @ [CHR 0x0D]" n s] assms by (simp add: crlf_def)
  then have "res = Inr (l @ crlf)" using readLimitedLine_result(1) [OF r] by simp
  moreover have "l @ crlf @ s = (l @ crlf) @ unread br'" "n' = n - length (l @ crlf)"
    using readLimitedLine_result(2) [OF r l] assms(1) by simp_all
  ultimately show ?thesis using that [of br'] r by (simp add: crlf_def)
qed

lemma read_headers_lines:
  assumes "unread br = concat (map (\<lambda>l. l @ crlf) ls) @ crlf @ s" "\<forall>l \<in> set ls. line_ok l"
    "length (concat (map (\<lambda>l. l @ crlf) ls)) + 2 \<le> n"
  shows "\<exists>br'. read_headers n br rq = (Inr (apply_headers ls rq), br') \<and> unread br' = s"
  using assms
proof (induction ls arbitrary: br n rq)
  case Nil
  then have "unread br = [] @ crlf @ s" "clean []" "length ([] :: string) + 2 \<le> n" by simp_all
  then obtain br' where "readLimitedLine n br = (Inr ([] @ crlf), n - (length ([] :: string) + 2), br')" "unread br' = s"
    by (rule readLimitedLine_line)
  then show ?case
    using TrimRight_crlf [of "[]"] by (simp add: read_headers.simps [of n br] apply_headers_def clean_def)
next
  case (Cons l ls)
  have l: "clean l" "l \<noteq> []" using Cons.prems(2) by (simp_all add: line_ok_def)
  have "unread br = l @ crlf @ concat (map (\<lambda>l. l @ crlf) ls) @ crlf @ s" "length l + 2 \<le> n"
    using Cons.prems(1,3) by (simp_all add: crlf_def)
  then obtain br1 where r: "readLimitedLine n br = (Inr (l @ crlf), n - (length l + 2), br1)"
      "unread br1 = concat (map (\<lambda>l. l @ crlf) ls) @ crlf @ s"
    using l(1) by (metis readLimitedLine_line)
  obtain rq1 where s: "header_step l rq = Some rq1"
    using l header_step_None [of l rq] by (cases "header_step l rq") (simp_all add: clean_iff)
  have step: "read_headers n br rq = read_headers (n - (length l + 2)) br1 rq1"
    using r(1) s l by (simp add: read_headers.simps [of n br] TrimRight_crlf)
  have "length (concat (map (\<lambda>l. l @ crlf) ls)) + 2 \<le> n - (length l + 2)"
    using Cons.prems(3) by (simp add: crlf_def)
  then show ?case
    using Cons.IH [OF r(2), of "n - (length l + 2)" rq1] Cons.prems(2) s step by (simp add: apply_headers_def)
qed

text \<open>Reads through \<^verbatim>\<open>prefixedReaderConn\<close> with buffers of the given sizes.\<close>

fun tunnel_reads :: "nat list \<Rightarrow> breader \<Rightarrow> string \<times> breader" where
  "tunnel_reads [] br = ([], br)"
| "tunnel_reads (n # ns) br =
     (case prefixed_Read n br of
        (None, br') \<Rightarrow> ([], br')
      | (Some s, br') \<Rightarrow> (let (s', br'') = tunnel_reads ns br' in (s @ s', br'')))"

lemma prefixed_Read_unread:
  "prefixed_Read n br = (Some s, br') \<Longrightarrow> s @ unread br' = unread br" "prefixed_Read n br = (None, br') \<Longrightarrow> unread br' = [] \<and> unread br = []"
  by (auto simp: prefixed_Read_def unread_def split: prod.splits if_splits list.splits)

lemma tunnel_reads_unread: "tunnel_reads ns br = (s, br') \<Longrightarrow> s @ unread br' = unread br"
proof (induction ns arbitrary: br s)
  case (Cons n ns)
  obtain x br1 where p: "prefixed_Read n br = (x, br1)" by (cases "prefixed_Read n br")
  show ?case
  proof (cases x)
    case None
    then show ?thesis using Cons.prems p prefixed_Read_unread(2) [of n br br1] by simp
  next
    case (Some y)
    then show ?thesis
      using Cons.prems Cons.IH [of br1] p prefixed_Read_unread(1) [of n br y br1] by (auto split: prod.splits)
  qed
qed simp

text \<open>A connection never delivers an empty piece. Reading lines keeps it so, and then every read makes
  progress.\<close>

definition pieces_ok :: "breader \<Rightarrow> bool" where
  "pieces_ok br \<longleftrightarrow> [] \<notin> set (snd br)"

lemma pieces_ReadSlice: "ReadSlice buf conn = (r, br') \<Longrightarrow> pieces_ok (buf, conn) \<Longrightarrow> pieces_ok br'"
proof (induction buf conn rule: ReadSlice.induct)
  case (1 buf conn)
  show ?case
  proof (cases "IndexByte buf (CHR 0x0A) = None \<and> \<not> bufSize \<le> length buf \<and> conn \<noteq> []")
    case False
    then show ?thesis
      using 1(2,3) by (cases conn) (auto simp: ReadSlice.simps [of buf] pieces_ok_def split: option.splits if_splits)
  next
    case True
    then obtain c cs where c: "conn = c # cs" by (cases conn) auto
    let ?k = "bufSize - length buf"
    let ?rest = "if length c \<le> ?k then cs else drop ?k c # cs"
    have "ReadSlice (buf @ take ?k c) ?rest = (r, br')"
      using 1(2) True c by (simp add: ReadSlice.simps [of buf "c # cs"] Let_def split del: if_split)
    moreover have "pieces_ok (buf @ take ?k c, ?rest)" using 1(3) c by (auto simp: pieces_ok_def)
    ultimately show ?thesis using 1(1) True c by simp
  qed
qed

lemma pieces_limited_loop: "limited_loop line n br = (r, n', br') \<Longrightarrow> pieces_ok br \<Longrightarrow> pieces_ok br'"
proof (induction line n br arbitrary: r n' br' rule: limited_loop.induct)
  case (1 line n br)
  obtain chunk err br1 where s: "ReadSlice (fst br) (snd br) = ((chunk, err), br1)" by (metis prod.collapse)
  have br1: "pieces_ok br1" using pieces_ReadSlice [OF s] 1(3) by simp
  show ?case
  proof (cases "n < length chunk \<or> err \<noteq> BufferFull")
    case True
    then show ?thesis
      using 1(2) s br1 by (cases err) (auto simp: limited_loop.simps [of line n br] Let_def split: if_splits)
  next
    case False
    then have "limited_loop (line @ chunk) (n - length chunk) br1 = (r, n', br')"
      using 1(2) s by (simp add: limited_loop.simps [of line n br] Let_def)
    then show ?thesis using 1(1) [OF s [symmetric] refl _ refl refl] False br1 by blast
  qed
qed

lemma pieces_readLimitedLine: "readLimitedLine n br = (r, n', br') \<Longrightarrow> pieces_ok br \<Longrightarrow> pieces_ok br'"
  unfolding readLimitedLine_def by (rule pieces_limited_loop)

lemma pieces_read_headers: "read_headers n br rq = (r, br') \<Longrightarrow> pieces_ok br \<Longrightarrow> pieces_ok br'"
proof (induction n br rq rule: read_headers.induct)
  case (1 n br rq)
  obtain res n1 br1 where r: "readLimitedLine n br = (res, n1, br1)" by (metis prod.collapse)
  have br1: "pieces_ok br1" by (rule pieces_readLimitedLine [OF r 1(3)])
  show ?case
  proof (cases "\<exists>line rq1. res = Inr line \<and> TrimRight line crlf \<noteq> [] \<and> header_step (TrimRight line crlf) rq = Some rq1")
    case True
    then obtain line rq1 where l: "res = Inr line" "TrimRight line crlf \<noteq> []" "header_step (TrimRight line crlf) rq = Some rq1"
      by blast
    then have "read_headers n1 br1 rq1 = (r, br')" using 1(2) r by (simp add: read_headers.simps [of n br])
    then show ?thesis using 1(1) [OF r [symmetric] l(1) refl refl l(2,3)] br1 by blast
  next
    case False
    then show ?thesis
      using 1(2) r br1
      by (cases res) (auto simp: read_headers.simps [of n br] Let_def split: line_err.splits if_splits option.splits)
  qed
qed

lemma prefixed_Read_progress:
  assumes "pieces_ok br" "0 < n" "unread br \<noteq> []"
  obtains s br' where "prefixed_Read n br = (Some s, br')" "s \<noteq> []" "pieces_ok br'"
  using assms
  by (cases br; cases "fst br"; cases "snd br") (auto simp: prefixed_Read_def pieces_ok_def unread_def split: if_splits)

lemma tunnel_reads_all:
  assumes "pieces_ok br" "\<forall>n \<in> set ns. 0 < n" "length (unread br) \<le> length ns"
  shows "fst (tunnel_reads ns br) = unread br"
  using assms
proof (induction ns arbitrary: br)
  case (Cons n ns)
  show ?case
  proof (cases "unread br = []")
    case True
    then show ?thesis
      using tunnel_reads_unread [of "n # ns" br "fst (tunnel_reads (n # ns) br)" "snd (tunnel_reads (n # ns) br)"] by simp
  next
    case False
    obtain s br1 where r: "prefixed_Read n br = (Some s, br1)" "s \<noteq> []" "pieces_ok br1"
      by (rule prefixed_Read_progress [OF Cons.prems(1) _ False, of n]) (use Cons.prems(2) in auto)
    have u: "s @ unread br1 = unread br" by (rule prefixed_Read_unread(1) [OF r(1)])
    then have "length (unread br) = length s + length (unread br1)" by (metis length_append)
    then have "length (unread br1) \<le> length ns" using Cons.prems(3) r(2) by (cases s) auto
    then have "fst (tunnel_reads ns br1) = unread br1" using Cons r(3) by simp
    then show ?thesis using r(1) u by (simp add: split_def)
  qed
qed simp

section \<open>The properties\<close>

text \<open>C20. A line is read as if the whole input lay ahead, in whatever pieces the connection delivers it and
  wherever the fixed buffer runs full: the result is the input up to its next LF when that fits in
  the budget, and the octets consumed are charged exactly; a longer line is refused, and an input
  that ends first is an error.\<close>

theorem readLimitedLine_equiv:
  assumes "readLimitedLine remaining br = (res, remaining', br')"
  shows "res = line_spec remaining (unread br)
    \<and> (\<forall>line. res = Inr line \<longrightarrow> unread br = line @ unread br' \<and> remaining = remaining' + length line)"
proof -
  note r = readLimitedLine_result [OF assms]
  have "remaining = remaining' + length line" if "res = Inr line" for line
  proof -
    have l: "line_spec remaining (unread br) = Inr line" using r(1) that by simp
    then have "length line \<le> remaining" by (rule line_spec_Inr)
    then show ?thesis using r(2) [OF l] by simp
  qed
  then show ?thesis using r by auto
qed

theorem readLimitedLine_equiv_witness:
  "fst (readLimitedLine 16 (''GET'', ['' / HTTP/1.1'' @ [CHR 0x0D], [CHR 0x0A] @ ''Host: a'']))
     = Inr (''GET / HTTP/1.1'' @ crlf)"
proof -
  let ?br = "(''GET'', ['' / HTTP/1.1'' @ [CHR 0x0D], [CHR 0x0A] @ ''Host: a''])"
  obtain res n br' where r: "readLimitedLine 16 ?br = (res, n, br')" by (metis prod.collapse)
  have "line_spec 16 (unread ?br) = Inr (''GET / HTTP/1.1'' @ crlf)" by code_simp
  then show ?thesis using readLimitedLine_equiv [OF r] r by simp
qed


definition token :: "string \<Rightarrow> bool" where
  "token s \<longleftrightarrow> s \<noteq> [] \<and> isPrintableASCII s \<and> CHR '' '' \<notin> set s"

definition request_head :: "string \<Rightarrow> string \<Rightarrow> string \<Rightarrow> string list \<Rightarrow> string" where
  "request_head m uri proto ls = m @ '' '' @ uri @ '' '' @ proto @ crlf @ concat (map (\<lambda>l. l @ crlf) ls) @ crlf"

definition new_request :: "string \<Rightarrow> string \<Rightarrow> string \<Rightarrow> http_request" where
  "new_request m uri proto = \<lparr>rqMethod = ToUpper m, rqURI = uri, rqProto = proto, rqHeaders = [], rqHost = [],
     rqHostSeen = False, rqAuth = []\<rparr>"

lemma Split_tokens:
  assumes "token a" "token b" "token c"
  shows "Split (a @ '' '' @ b @ '' '' @ c) (CHR '' '') = [a, b, c]"
  using assms Split_append [of "CHR '' ''" a "b @ '' '' @ c"] Split_append [of "CHR '' ''" b c] Split_single [of "CHR '' ''" c]
  by (simp add: token_def)

lemma read_head_tokens:
  assumes tok: "token m" "token uri" "token proto" "HasPrefix proto ''HTTP/''" and ls: "\<forall>l \<in> set ls. line_ok l"
    and size: "length (request_head m uri proto ls) \<le> maxHTTPHeaderBytes"
    and input: "unread br = request_head m uri proto ls @ s" "pieces_ok br"
  shows "\<exists>br'. read_head br = (Inr (apply_headers ls (new_request m uri proto)), br') \<and> unread br' = s \<and> pieces_ok br'"
proof -
  let ?l = "m @ '' '' @ uri @ '' '' @ proto"
  let ?tail = "concat (map (\<lambda>l. l @ crlf) ls) @ crlf @ s"
  have pr: "isPrintableASCII ?l" using tok by (simp add: token_def isPrintableASCII_def char_code_def)
  have "length ?l + 2 \<le> maxHTTPHeaderBytes" using size by (simp add: request_head_def crlf_def)
  moreover have "unread br = ?l @ crlf @ ?tail" using input by (simp add: request_head_def)
  ultimately obtain br1 where r: "readLimitedLine maxHTTPHeaderBytes br = (Inr (?l @ crlf), maxHTTPHeaderBytes - (length ?l + 2), br1)"
      "unread br1 = ?tail"
    using printable_clean [OF pr] by (metis readLimitedLine_line)
  have budget: "length (concat (map (\<lambda>l. l @ crlf) ls)) + 2 \<le> maxHTTPHeaderBytes - (length ?l + 2)"
    using size by (simp add: request_head_def crlf_def)
  obtain br' where h: "read_headers (maxHTTPHeaderBytes - (length ?l + 2)) br1 (new_request m uri proto)
      = (Inr (apply_headers ls (new_request m uri proto)), br')" "unread br' = s"
    using read_headers_lines [OF r(2) ls budget] by blast
  have "pieces_ok br'" by (rule pieces_read_headers [OF h(1) pieces_readLimitedLine [OF r(1) input(2)]])
  moreover have "read_head br = read_headers (maxHTTPHeaderBytes - (length ?l + 2)) br1 (new_request m uri proto)"
    unfolding read_head_def r(1)
    using TrimRight_crlf [OF printable_clean [OF pr]] Split_tokens [OF tok(1-3)] tok pr
    by (simp add: Let_def new_request_def token_def del: append_assoc append_Cons append_Nil)
  ultimately show ?thesis using h by simp
qed

text \<open>C19. A well-formed request head of at most one mebibyte is read as what it says, however the connection
  cuts it into pieces, and what the client sent behind it is not lost: the reads of the tunnel
  deliver it from its first octet on, without a gap, and completely once there are enough of them.\<close>

theorem head_roundtrip:
  assumes "token m" and "token uri" and "token proto" and "HasPrefix proto ''HTTP/''" and "\<forall>l \<in> set ls. line_ok l"
    and "length (request_head m uri proto ls) \<le> maxHTTPHeaderBytes"
    and "unread br = request_head m uri proto ls @ s" and "pieces_ok br"
  shows "\<exists>br'. read_head br = (Inr (apply_headers ls (new_request m uri proto)), br')
    \<and> (\<forall>ns. prefix (fst (tunnel_reads ns br')) s
        \<and> ((\<forall>n \<in> set ns. 0 < n) \<longrightarrow> length s \<le> length ns \<longrightarrow> fst (tunnel_reads ns br') = s))"
proof -
  obtain br' where r: "read_head br = (Inr (apply_headers ls (new_request m uri proto)), br')" "unread br' = s" "pieces_ok br'"
    using read_head_tokens [OF assms] by blast
  have "prefix (fst (tunnel_reads ns br')) s" for ns
    using tunnel_reads_unread [of ns br' "fst (tunnel_reads ns br')" "snd (tunnel_reads ns br')"] r(2)
    by (metis prefixI surjective_pairing)
  then show ?thesis using r tunnel_reads_all [OF r(3)] by blast
qed

lemma test_tokens: "token ''get''" "token ''http://a.example/x''" "token ''HTTP/1.0''" "HasPrefix ''HTTP/1.0'' ''HTTP/''"
  "\<forall>l \<in> set [''Proxy-Authorization: Basic Og=='', ''X: 1'']. line_ok l"
  by (simp_all add: token_def isPrintableASCII_def char_code_def HasPrefix_def line_ok_def clean_def)

definition test_request :: http_request where
  "test_request = \<lparr>rqMethod = ''GET'', rqURI = ''http://a.example/x'', rqProto = ''HTTP/1.0'',
     rqHeaders = [''X: 1'' @ crlf], rqHost = [], rqHostSeen = False, rqAuth = ''Basic Og==''\<rparr>"

lemma test_request_headers:
  "apply_headers [''Proxy-Authorization: Basic Og=='', ''X: 1''] (new_request ''get'' ''http://a.example/x'' ''HTTP/1.0'') = test_request"
  by code_simp

definition test_reader :: breader where
  "test_reader = ([], [request_head ''get'' ''http://a.example/x'' ''HTTP/1.0'' [''Proxy-Authorization: Basic Og=='', ''X: 1''] @ ''bo'', ''dy''])"

lemma test_reader_ok:
  "length (request_head ''get'' ''http://a.example/x'' ''HTTP/1.0'' [''Proxy-Authorization: Basic Og=='', ''X: 1'']) \<le> maxHTTPHeaderBytes"
  "unread test_reader = request_head ''get'' ''http://a.example/x'' ''HTTP/1.0'' [''Proxy-Authorization: Basic Og=='', ''X: 1''] @ ''body''"
  "pieces_ok test_reader"
  by (simp_all add: test_reader_def unread_def pieces_ok_def request_head_def crlf_def maxHTTPHeaderBytes_def)

theorem head_roundtrip_witness:
  "\<exists>br'. read_head test_reader = (Inr test_request, br') \<and> fst (tunnel_reads [1, 1, 1, 1] br') = ''body''"
proof -
  obtain br' where r: "read_head test_reader = (Inr test_request, br')"
    and all: "\<forall>ns. prefix (fst (tunnel_reads ns br')) ''body''
        \<and> ((\<forall>n \<in> set ns. 0 < n) \<longrightarrow> length ''body'' \<le> length ns \<longrightarrow> fst (tunnel_reads ns br') = ''body'')"
    using head_roundtrip [OF test_tokens test_reader_ok] unfolding test_request_headers by blast
  have "fst (tunnel_reads [1, 1, 1, 1] br') = ''body''" by (rule all [rule_format, THEN conjunct2, rule_format]) simp_all
  then show ?thesis using r by blast
qed


lemma TrimSpace_encode: "TrimSpace (EncodeToString StdEncoding (map char_code s)) = EncodeToString StdEncoding (map char_code s)"
proof -
  have a: "\<forall>c \<in> set std_alphabet. \<not> is_space c" by (simp add: std_alphabet_def is_space_def char_code_def)
  have "\<not> is_space c" if "c \<in> set (EncodeToString StdEncoding (map char_code s))" for c
  proof -
    have "c \<in> set std_alphabet \<or> c = CHR ''=''"
      using std64.encode_chars [of "map char_code s" c] that by (simp add: EncodeToString_def StdEncoding_def)
    then show ?thesis using a by (auto simp: is_space_def char_code_def)
  qed
  then show ?thesis unfolding TrimSpace_def by (intro TrimFunc_id) (metis hd_in_set last_in_set)
qed

lemma map_char_code_inject: "map char_code a = map char_code b \<longleftrightarrow> a = b"
  using inj_map_eq_map [of char_code] by (simp add: inj_def char_code_inject)

text \<open>Basic authentication accepts exactly the configured credentials: a header that carries \<open>cred\<close> in
  base64 passes when \<open>cred\<close> is the user name, a colon and the password, whatever octets they consist
  of, and with no other \<open>cred\<close>, unless both are empty, which turns authentication off.\<close>

theorem checkAuth_basic:
  "checkAuth username password (''Basic '' @ EncodeToString StdEncoding (map char_code cred)) \<longleftrightarrow>
     username = [] \<and> password = [] \<or> cred = username @ '':'' @ password"
proof -
  have "DecodeString StdEncoding (EncodeToString StdEncoding (map char_code cred)) = Some (map char_code cred)"
    by (rule std64.DecodeString_EncodeToString) simp
  then show ?thesis by (simp add: checkAuth_def TrimSpace_encode map_char_code_inject del: map_append) auto
qed

end
