(* ===== verification/Proxy_Http.thy ===== *)
theory Proxy_Http
  imports Proxy_Socks5 Http_Head
begin

text \<open>
  \<^verbatim>\<open>core/proxy/http.go\<close>, the HTTP proxy server: the dispatch of a request and the handlers of \<^verbatim>\<open>CONNECT\<close> and
  of plain requests.

  The network is the argument \<open>dialer\<close> of the SOCKS5 server, together with whether the head of a plain
  request could be written to the target. \<^verbatim>\<open>Start\<close>, \<^verbatim>\<open>Stop\<close>, \<^verbatim>\<open>acceptLoop\<close> and \<^verbatim>\<open>routeDecision\<close> repeat the text of the
  SOCKS5 server and so have its definitions; \<^verbatim>\<open>beginSession\<close> is written differently and shown to be the same.
\<close>

section \<open>The server\<close>

definition NewHTTPServer :: "'u HTTPConfig \<Rightarrow> 'u HTTPConfig" where
  "NewHTTPServer g =
     (let g = (if ListenAddr g = [] then g\<lparr>ListenAddr := ''127.0.0.1:8080''\<rparr> else g)
      in if IdleTimeout g \<le> 0 then g\<lparr>IdleTimeout := defaultIdleTimeout\<rparr> else g)"

definition http_Start :: "bool \<Rightarrow> listener_state \<Rightarrow> bool \<times> listener_state" where
  "http_Start = server_Start"

definition http_Stop :: "listener_state \<Rightarrow> listener_state" where
  "http_Stop = server_Stop"

definition http_accept_error :: "listener_state \<Rightarrow> bool" where
  "http_accept_error = accept_error"

definition http_routeDecision ::
  "(IP \<Rightarrow> string option) \<Rightarrow> 'u HTTPConfig \<Rightarrow> instant \<Rightarrow> string \<Rightarrow> 'u shared \<Rightarrow> (RouteDecision \<times> string) \<times> 'u shared" where
  "http_routeDecision = routeDecision"

definition http_beginSession ::
  "'u HTTPConfig \<Rightarrow> instant \<Rightarrow> Proto \<Rightarrow> string \<Rightarrow> string \<Rightarrow> int \<Rightarrow> RouteDecision \<Rightarrow> 'u shared \<Rightarrow> int \<times> 'u shared" where
  "http_beginSession g now p peer host port decision st =
     (let sd = statsDecision decision;
          node = (if sd = DecisionProxy then (case ActiveNode g of None \<Rightarrow> [] | Some f \<Rightarrow> f (shUp st)) else [])
      in stats_begin now p peer host port sd node st)"

lemma http_shared [simp]:
  "http_Start = server_Start" "http_Stop = server_Stop" "http_accept_error = accept_error" "http_routeDecision = routeDecision"
  "http_beginSession = beginSession"
proof -
  have "http_beginSession g now p peer host port decision st = beginSession g now p peer host port decision st"
    for g :: "'u HTTPConfig" and now p peer host port decision st
    by (cases decision) (simp_all add: http_beginSession_def beginSession_def statsDecision_def split: option.splits)
  then show "http_beginSession = (beginSession :: 'u HTTPConfig \<Rightarrow> _)" by (intro ext)
qed (simp_all add: http_Start_def http_Stop_def http_accept_error_def http_routeDecision_def)

text \<open>What the server writes to the client before any relaying.\<close>

datatype http_reply = NoReply | BadRequest | AuthRequired | BadGateway | Established

text \<open>The frame of both handlers: the decision, the session and its deferred end.\<close>

definition http_session ::
  "dialer \<Rightarrow> 'u HTTPConfig \<Rightarrow> string \<Rightarrow> int \<Rightarrow> (RouteDecision \<Rightarrow> int \<Rightarrow> 'u shared \<Rightarrow> 'r \<times> 'u shared) \<Rightarrow> 'u shared \<Rightarrow> 'r \<times> 'u shared" where
  "http_session d g targetHost targetPort body st =
     (let ((decision, realHost), st) = http_routeDecision (dGeo d) g (dClock d 0) targetHost st;
          (i, st) = http_beginSession g (dClock d 1) ProtoHTTP (addrString (dRemote d)) realHost targetPort decision st;
          (res, st) = body decision i st
      in (res, end_session d i st))"

text \<open>The frame of both around what they do with a node: pick it, give it back at the end,
  and note its name in the session.\<close>

definition through_node ::
  "'u HTTPConfig \<Rightarrow> int \<Rightarrow> (string \<Rightarrow> string \<Rightarrow> 'u shared \<Rightarrow> 'r \<times> 'u shared) \<Rightarrow> 'u shared \<Rightarrow> 'r \<times> 'u shared" where
  "through_node g i f st =
     (let ((sppAddr, nodeName, lease), st) = pick_upstream g st;
          st = (if nodeName \<noteq> [] then with_stats (\<lambda>c. SetNode c i nodeName) st else st);
          (res, st) = f sppAddr nodeName st
      in (res, release_upstream g lease st))"

section \<open>CONNECT\<close>

definition http_connect_direct :: "dialer \<Rightarrow> string \<Rightarrow> int \<Rightarrow> 'u shared \<Rightarrow> http_reply \<times> 'u shared" where
  "http_connect_direct d targetAddr i st =
     (case dDirect d targetAddr of
        Some err \<Rightarrow> (BadGateway, fail_session d i (''direct dial '' @ targetAddr @ '': '' @ err) st)
      | None \<Rightarrow> (Established, if \<not> dWritten d then st else relay_counts None (dRng d) i [] (dRelay d) st))"

definition http_connect_via ::
  "dialer \<Rightarrow> 'u HTTPConfig \<Rightarrow> string \<Rightarrow> int \<Rightarrow> int \<Rightarrow> string \<Rightarrow> string \<Rightarrow> 'u shared \<Rightarrow> http_reply \<times> 'u shared" where
  "http_connect_via d g targetHost targetPort i sppAddr nodeName st =
     (if sppAddr = [] then (BadGateway, fail_session d i ''no upstream SPP proxy available'' st)
      else case dResolveTCP d sppAddr of
        Some err \<Rightarrow> (BadGateway, fail_session d i (''resolve SPP upstream: '' @ err) st)
      | None \<Rightarrow>
          (case dDialTCP d sppAddr of
             Some err \<Rightarrow>
               (BadGateway, fail_session d i (''dial SPP upstream: '' @ err) (report_failure g (dClock d 4) nodeName st))
           | None \<Rightarrow>
               (case dHandshake d (upstream_auth g st) of
                  Some err \<Rightarrow>
                    (BadGateway, fail_session d i (''SPP upstream handshake: '' @ err) (report_failure g (dClock d 4) nodeName st))
                | None \<Rightarrow>
                    (case dSetRequest d targetHost targetPort of
                       Some err \<Rightarrow> (BadGateway, fail_session d i (''SPP upstream connect: '' @ err) st)
                     | None \<Rightarrow>
                         let st = recordNodeTraffic (cfgUpstream g) (dClock d 5) nodeName 1 1 st
                         in (Established, if \<not> dWritten d then st
                                          else relay_counts (cfgUpstream g) (dRng d) i nodeName (dRelay d) st)))))"

definition http_connect_proxy ::
  "dialer \<Rightarrow> 'u HTTPConfig \<Rightarrow> string \<Rightarrow> int \<Rightarrow> int \<Rightarrow> 'u shared \<Rightarrow> http_reply \<times> 'u shared" where
  "http_connect_proxy d g targetHost targetPort i st =
     (if \<not> EnableIPv6 g \<and> isIPv6Literal targetHost then (BadGateway, st)
      else through_node g i (http_connect_via d g targetHost targetPort i) st)"

definition http_handleConnect :: "dialer \<Rightarrow> 'u HTTPConfig \<Rightarrow> string \<Rightarrow> int \<Rightarrow> 'u shared \<Rightarrow> http_reply \<times> 'u shared" where
  "http_handleConnect d g targetHost0 targetPort st =
     (let targetHost = canonicalHost targetHost0;
          targetAddr = joinDialAddr targetHost targetPort
      in http_session d g targetHost targetPort
           (\<lambda>decision i. if decision = Direct then http_connect_direct d targetAddr i
                          else http_connect_proxy d g targetHost targetPort i) st)"

section \<open>Plain requests\<close>

text \<open>Once there is a connection to the target: the head \<open>msg\<close> is written, then the relay runs. The result
  tells what was written to the target.\<close>

definition send_on ::
  "dialer \<Rightarrow> 'u Upstream option \<Rightarrow> int \<Rightarrow> string \<Rightarrow> string \<Rightarrow> 'u shared \<Rightarrow> (http_reply \<times> string option) \<times> 'u shared" where
  "send_on d u i nodeName msg st =
     ((NoReply, Some msg), if \<not> dWritten d then st else relay_counts u (dRng d) i nodeName (dRelay d) st)"

definition standard_via ::
  "dialer \<Rightarrow> 'u HTTPConfig \<Rightarrow> string \<Rightarrow> int \<Rightarrow> int \<Rightarrow> string \<Rightarrow> string \<Rightarrow> string \<Rightarrow> 'u shared
     \<Rightarrow> (http_reply \<times> string option) \<times> 'u shared" where
  "standard_via d g targetHost targetPort i sppAddr nodeName msg st =
     (if sppAddr = [] then ((BadGateway, None), st)
      else if dResolveTCP d sppAddr = None \<and> dDialTCP d sppAddr = None \<and> dHandshake d (upstream_auth g st) = None
              \<and> dSetRequest d targetHost targetPort = None
      then send_on d (cfgUpstream g) i nodeName msg (recordNodeTraffic (cfgUpstream g) (dClock d 5) nodeName 1 1 st)
      else ((BadGateway, None), fail_session d i ''spp connection failed'' st))"

definition standard_proxy ::
  "dialer \<Rightarrow> 'u HTTPConfig \<Rightarrow> string \<Rightarrow> int \<Rightarrow> int \<Rightarrow> string \<Rightarrow> 'u shared \<Rightarrow> (http_reply \<times> string option) \<times> 'u shared" where
  "standard_proxy d g targetHost targetPort i msg st =
     (if \<not> EnableIPv6 g \<and> isIPv6Literal targetHost then ((BadGateway, None), st)
      else through_node g i (\<lambda>sppAddr nodeName. standard_via d g targetHost targetPort i sppAddr nodeName msg) st)"

definition standard_direct ::
  "dialer \<Rightarrow> 'u HTTPConfig \<Rightarrow> string \<Rightarrow> int \<Rightarrow> string \<Rightarrow> 'u shared \<Rightarrow> (http_reply \<times> string option) \<times> 'u shared" where
  "standard_direct d g targetAddr i msg st =
     (case dDirect d targetAddr of
        Some err \<Rightarrow> ((BadGateway, None), fail_session d i (''direct dial '' @ targetAddr @ '': '' @ err) st)
      | None \<Rightarrow> send_on d (cfgUpstream g) i [] msg st)"

definition handleStandardHTTP ::
  "dialer \<Rightarrow> 'u HTTPConfig \<Rightarrow> http_request \<Rightarrow> string \<Rightarrow> int \<Rightarrow> 'u shared \<Rightarrow> (http_reply \<times> string option) \<times> 'u shared" where
  "handleStandardHTTP d g rq targetHost0 targetPort st =
     (let targetHost = canonicalHost targetHost0;
          targetAddr = joinDialAddr targetHost targetPort;
          msg = forward_head rq targetHost targetPort
      in http_session d g targetHost targetPort
           (\<lambda>decision i. if decision = Direct then standard_direct d g targetAddr i msg
                          else standard_proxy d g targetHost targetPort i msg) st)"

section \<open>A client\<close>

definition http_handleClient ::
  "dialer \<Rightarrow> 'u HTTPConfig \<Rightarrow> breader \<Rightarrow> 'u shared \<Rightarrow> (http_reply \<times> string option) \<times> breader \<times> 'u shared" where
  "http_handleClient d g br st =
     (case read_head br of
        (Inl Reject400, br) \<Rightarrow> ((BadRequest, None), br, st)
      | (Inl DropClient, br) \<Rightarrow> ((NoReply, None), br, st)
      | (Inr rq, br) \<Rightarrow>
          if \<not> checkAuth (Username g) (Password g) (rqAuth rq) then ((AuthRequired, None), br, st)
          else
            let (targetHost, targetPort) = parseTarget (rqMethod rq) (rqURI rq) (rqHost rq)
            in if targetHost = [] \<or> targetPort \<le> 0 then ((BadRequest, None), br, st)
               else if rqMethod rq = ''CONNECT''
               then let (reply, st) = http_handleConnect d g targetHost targetPort st in ((reply, None), br, st)
               else let (res, st) = handleStandardHTTP d g rq targetHost targetPort st in (res, br, st))"

section \<open>What a handler leaves behind\<close>

text \<open>Whether the handler got as far as the relay, and what its session may then have been charged.\<close>

definition relayed :: "dialer \<Rightarrow> http_reply \<times> string option \<Rightarrow> bool" where
  "relayed d res \<longleftrightarrow> dWritten d \<and> (fst res = Established \<or> snd res \<noteq> None)"

definition http_account :: "dialer \<Rightarrow> bool \<Rightarrow> account \<Rightarrow> bool" where
  "http_account d through a \<longleftrightarrow>
     (if through then a = add_reads (dRelay d) acct0 else a = acct0 \<or> (\<exists>msg. a = end_account (Some msg) acct0))"

definition http_outcome :: "dialer \<Rightarrow> int \<Rightarrow> Collector option \<Rightarrow> (http_reply \<times> string option) \<times> 'u shared \<Rightarrow> bool" where
  "http_outcome d i c0 r \<longleftrightarrow> (\<exists>a. sh_tracks i c0 a (snd r) \<and> http_account d (relayed d (fst r)) a)"

lemma http_outcome_failed:
  "sh_tracks i c0 acct0 st \<Longrightarrow> http_outcome d i c0 ((BadGateway, None), fail_session d i msg st)"
  unfolding http_outcome_def http_account_def relayed_def using sh_tracks_fail by fastforce

lemma http_outcome_refused: "sh_tracks i c0 acct0 st \<Longrightarrow> http_outcome d i c0 ((BadGateway, None), st)"
  by (auto simp: http_outcome_def http_account_def relayed_def)

lemma http_outcome_relayed:
  assumes "sh_tracks i c0 acct0 st" "r = Established \<or> snt \<noteq> None"
  shows "http_outcome d i c0 ((r, snt), if \<not> dWritten d then st else relay_counts u (dRng d) i name (dRelay d) st)"
  using assms sh_tracks_reads [OF assms(1), of "dRelay d" u "dRng d" name]
  by (cases "dWritten d") (auto simp: http_outcome_def http_account_def relayed_def)

lemma http_connect_direct_outcome:
  assumes "sh_tracks i c0 acct0 st"
  shows "http_outcome d i c0 ((fst (http_connect_direct d targetAddr i st), None), snd (http_connect_direct d targetAddr i st))"
  by (cases "dDirect d targetAddr")
    (simp_all add: http_connect_direct_def http_outcome_failed [OF assms] http_outcome_relayed [OF assms] split del: if_split)

lemma http_connect_via_outcome:
  assumes "sh_tracks i c0 acct0 st"
  shows "http_outcome d i c0 ((fst (http_connect_via d g host port i a name st), None), snd (http_connect_via d g host port i a name st))"
proof -
  have f: "sh_tracks i c0 acct0 (report_failure g now name st)" "sh_tracks i c0 acct0 (recordNodeTraffic u now name up down st)"
    for now u up down using assms by simp_all
  show ?thesis
    by (cases "a = []"; cases "dResolveTCP d a"; cases "dDialTCP d a"; cases "dHandshake d (upstream_auth g st)"; cases "dSetRequest d host port")
      (simp_all add: http_connect_via_def Let_def http_outcome_failed [OF assms] http_outcome_failed [OF f(1)]
        http_outcome_relayed [OF f(2)] split del: if_split)
qed

lemma http_outcome_release: "http_outcome d i c0 (res, release_upstream g lease st) = http_outcome d i c0 (res, st)"
  by (simp add: http_outcome_def)

lemma standard_via_outcome:
  assumes "sh_tracks i c0 acct0 st"
  shows "http_outcome d i c0 (standard_via d g host port i a name msg st)"
proof -
  have f: "sh_tracks i c0 acct0 (recordNodeTraffic u now name up down st)" for now u up down using assms by simp
  show ?thesis
    by (simp add: standard_via_def send_on_def http_outcome_failed [OF assms] http_outcome_refused [OF assms]
        http_outcome_relayed [OF f])
qed

lemma standard_direct_outcome:
  assumes "sh_tracks i c0 acct0 st"
  shows "http_outcome d i c0 (standard_direct d g targetAddr i msg st)"
  by (cases "dDirect d targetAddr")
    (simp_all add: standard_direct_def send_on_def http_outcome_failed [OF assms] http_outcome_relayed [OF assms] split del: if_split)

lemma through_node_picked:
  obtains a name lease st1 where "pick_upstream g st = ((a, name, lease), st1)"
    "through_node g i f st = (fst (f a name (if name \<noteq> [] then with_stats (\<lambda>c. SetNode c i name) st1 else st1)),
      release_upstream g lease (snd (f a name (if name \<noteq> [] then with_stats (\<lambda>c. SetNode c i name) st1 else st1))))"
proof -
  obtain a name lease st1 where p: "pick_upstream g st = ((a, name, lease), st1)" by (metis prod.collapse)
  then show ?thesis using that [OF p] unfolding through_node_def p Let_def by (simp add: split_def)
qed

lemma through_node_tracks:
  assumes "sh_tracks i c0 acct0 st"
    and "\<And>a name st'. sh_tracks i c0 acct0 st' \<Longrightarrow> P (fst (f a name st')) (snd (f a name st'))"
    and "\<And>res lease st'. P res (release_upstream g lease st') = P res st'"
  shows "P (fst (through_node g i f st)) (snd (through_node g i f st))"
proof (rule through_node_picked [of g st i f])
  fix a name lease st1
  assume p: "pick_upstream g st = ((a, name, lease), st1)"
    and t: "through_node g i f st = (fst (f a name (if name \<noteq> [] then with_stats (\<lambda>c. SetNode c i name) st1 else st1)),
      release_upstream g lease (snd (f a name (if name \<noteq> [] then with_stats (\<lambda>c. SetNode c i name) st1 else st1))))"
  have "sh_tracks i c0 acct0 st1" using assms(1) sh_tracks_cong [OF shStats_pick [OF p]] by simp
  then have "sh_tracks i c0 acct0 (if name \<noteq> [] then with_stats (\<lambda>c. SetNode c i name) st1 else st1)"
    by (simp add: sh_tracks_SetNode)
  from assms(2) [OF this] show ?thesis unfolding t by (simp only: fst_conv snd_conv assms(3))
qed

lemma http_connect_proxy_outcome:
  assumes "sh_tracks i c0 acct0 st"
  shows "http_outcome d i c0 ((fst (http_connect_proxy d g host port i st), None), snd (http_connect_proxy d g host port i st))"
proof -
  have "http_outcome d i c0 ((fst (through_node g i (http_connect_via d g host port i) st), None),
      snd (through_node g i (http_connect_via d g host port i) st))"
    by (rule through_node_tracks [OF assms]) (simp_all only: http_connect_via_outcome http_outcome_release)
  then show ?thesis by (simp add: http_connect_proxy_def http_outcome_refused [OF assms])
qed

lemma standard_proxy_outcome:
  assumes "sh_tracks i c0 acct0 st"
  shows "http_outcome d i c0 (standard_proxy d g host port i msg st)"
proof -
  let ?f = "\<lambda>a n. standard_via d g host port i a n msg"
  have "http_outcome d i c0 (fst (through_node g i ?f st), snd (through_node g i ?f st))"
    by (rule through_node_tracks [OF assms]) (simp_all only: prod.collapse standard_via_outcome http_outcome_release)
  then show ?thesis by (simp add: standard_proxy_def http_outcome_refused [OF assms])
qed

text \<open>The session of a handler, from the decision to its deferred end.\<close>

definition http_closed :: "dialer \<Rightarrow> Collector \<Rightarrow> (http_reply \<times> string option) \<times> 'u shared \<Rightarrow> bool" where
  "http_closed d c r \<longleftrightarrow> (\<exists>c' a. shStats (snd r) = Some c' \<and> session_closed c a c'
     \<and> (if relayed d (fst r) then a = (add_reads (dRelay d) acct0)\<lparr>acDone := True\<rparr>
        else acUp a = 0 \<and> acDown a = 0 \<and> acErrors a \<le> 1))"

lemma http_session_steps:
  assumes "shStats st = Some c" "ledger_ok c"
  obtains dec i st2 where "shUp st2 = shUp st" "sh_tracks i (shStats st2) acct0 st2"
    "http_session d g host port body st = (fst (body dec i st2), end_session d i (snd (body dec i st2)))"
    "\<And>snt. http_outcome d i (shStats st2) ((fst snt, snd snt), snd (body dec i st2)) \<Longrightarrow>
       http_closed d c (snt, end_session d i (snd (body dec i st2)))"
proof -
  obtain dec rh st1 where rt: "routeDecision (dGeo d) g (dClock d 0) host st = ((dec, rh), st1)" by (metis prod.collapse)
  obtain i st2 where b: "beginSession g (dClock d 1) ProtoHTTP (addrString (dRemote d)) rh port dec st1 = (i, st2)"
    by (cases "beginSession g (dClock d 1) ProtoHTTP (addrString (dRemote d)) rh port dec st1")
  note session = handler_session [OF assms rt b]
  show ?thesis
  proof (rule that [of st2 i dec])
    show "http_session d g host port body st = (fst (body dec i st2), end_session d i (snd (body dec i st2)))"
      unfolding http_session_def http_shared Let_def rt prod.case b by (simp add: split_def)
    show "http_closed d c (snt, end_session d i (snd (body dec i st2)))"
      if o: "http_outcome d i (shStats st2) ((fst snt, snd snt), snd (body dec i st2))" for snt
    proof -
      obtain a where a: "sh_tracks i (shStats st2) a (snd (body dec i st2))" "http_account d (relayed d snt) a"
        using o by (auto simp: http_outcome_def)
      obtain c' where "shStats (end_session d i (snd (body dec i st2))) = Some c'" "session_closed c (end_account None a) c'"
        using session(3) [OF a(1)] by blast
      moreover have "if relayed d snt then end_account None a = (add_reads (dRelay d) acct0)\<lparr>acDone := True\<rparr>
        else acUp (end_account None a) = 0 \<and> acDown (end_account None a) = 0 \<and> acErrors (end_account None a) \<le> 1"
        using a(2) by (auto simp: http_account_def end_account_def acct0_def add_reads_def)
      ultimately show ?thesis unfolding http_closed_def by auto
    qed
  qed (use session in auto)
qed

context upstream_provider
begin

lemma holds_through:
  assumes "cfgUpstream g = Some u" "holds None before st"
    and "\<And>a name lease st'. holds lease before st' \<Longrightarrow> holds lease before (snd (f a name st'))"
  shows "holds None before (snd (through_node g i f st))"
proof (rule through_node_picked [of g st i f])
  fix a name lease st1
  assume p: "pick_upstream g st = ((a, name, lease), st1)"
    and t: "through_node g i f st = (fst (f a name (if name \<noteq> [] then with_stats (\<lambda>c. SetNode c i name) st1 else st1)),
      release_upstream g lease (snd (f a name (if name \<noteq> [] then with_stats (\<lambda>c. SetNode c i name) st1 else st1))))"
  have "holds lease before (if name \<noteq> [] then with_stats (\<lambda>c. SetNode c i name) st1 else st1)"
    using holds_pick [OF assms(1,2) p] by simp
  then show ?thesis unfolding t using holds_release [OF assms(1) assms(3)] by simp
qed

lemma holds_http_via:
  assumes "cfgUpstream g = Some u" "holds lease before st"
  shows "holds lease before (snd (http_connect_via d g host port i a name st))"
    "holds lease before (snd (standard_via d g host port i a name msg st))"
  using assms holds_report [OF assms] holds_traffic [OF assms(2)] holds_relay
  by (auto simp: http_connect_via_def standard_via_def send_on_def Let_def split: option.splits)

lemma holds_http_proxy:
  assumes "cfgUpstream g = Some u" "holds None before st"
  shows "holds None before (snd (http_connect_proxy d g host port i st))" "holds None before (snd (standard_proxy d g host port i msg st))"
proof -
  have "holds None before (snd (through_node g i (http_connect_via d g host port i) st))"
    by (rule holds_through [OF assms]) (rule holds_http_via(1) [OF assms(1)])
  then show "holds None before (snd (http_connect_proxy d g host port i st))" using assms(2) by (simp add: http_connect_proxy_def)
  have "holds None before (snd (through_node g i (\<lambda>a n. standard_via d g host port i a n msg) st))"
    by (rule holds_through [OF assms]) (rule holds_http_via(2) [OF assms(1)])
  then show "holds None before (snd (standard_proxy d g host port i msg st))" using assms(2) by (simp add: standard_proxy_def)
qed

lemma holds_http_direct:
  assumes "cfgUpstream g = Some u" "holds lease before st"
  shows "holds lease before (snd (http_connect_direct d a i st))" "holds lease before (snd (standard_direct d g a i msg st))"
proof -
  have "snd (http_connect_direct d a i st) = snd (connect_direct d a i st)"
    by (simp add: http_connect_direct_def connect_direct_def split: option.splits)
  then show "holds lease before (snd (http_connect_direct d a i st))" using holds_direct [OF assms(2)] by simp
  show "holds lease before (snd (standard_direct d g a i msg st))"
    using assms holds_relay by (auto simp: standard_direct_def send_on_def split: option.splits)
qed

lemma holds_session:
  assumes "inv (shUp st)" "shStats st = Some c" "ledger_ok c"
    and "\<And>dec i st'. holds None (conns (shUp st)) st' \<Longrightarrow> holds None (conns (shUp st)) (snd (body dec i st'))"
  shows "conns (shUp (snd (http_session d g host port body st))) = conns (shUp st)"
proof (rule http_session_steps [OF assms(2,3), of d g host port body])
  fix dec i st2
  assume up: "shUp st2 = shUp st"
    and h: "http_session d g host port body st = (fst (body dec i st2), end_session d i (snd (body dec i st2)))"
  have "holds None (conns (shUp st)) st2" using holds_start [OF assms(1)] holds_shUp [OF up] by simp
  then have "holds None (conns (shUp st)) (snd (body dec i st2))" by (rule assms(4))
  then show ?thesis using h holds_end [of _ "end_session d i (snd (body dec i st2))"] by simp
qed

lemma http_handlers_balanced:
  assumes "cfgUpstream g = Some u" "inv (shUp st)" "shStats st = Some c" "ledger_ok c"
  shows "conns (shUp (snd (http_handleConnect d g host port st))) = conns (shUp st)"
    "conns (shUp (snd (handleStandardHTTP d g rq host port st))) = conns (shUp st)"
  unfolding http_handleConnect_def handleStandardHTTP_def Let_def
  by (rule holds_session [OF assms(2-4)]; simp add: holds_http_proxy [OF assms(1)] holds_http_direct [OF assms(1)])+

end

lemma http_session_closed:
  assumes "shStats st = Some c" "ledger_ok c" "http_session d g host port body st = (r, st')"
    and "\<And>dec i st2. sh_tracks i (shStats st2) acct0 st2 \<Longrightarrow>
      http_outcome d i (shStats st2) (res (fst (body dec i st2)), snd (body dec i st2))"
  shows "http_closed d c (res r, st')"
proof (rule http_session_steps [OF assms(1,2), of d g host port body])
  fix dec i st2
  assume tr: "sh_tracks i (shStats st2) acct0 st2"
    and e: "http_session d g host port body st = (fst (body dec i st2), end_session d i (snd (body dec i st2)))"
    and cl: "\<And>snt. http_outcome d i (shStats st2) ((fst snt, snd snt), snd (body dec i st2)) \<Longrightarrow>
       http_closed d c (snt, end_session d i (snd (body dec i st2)))"
  show ?thesis using cl [of "res (fst (body dec i st2))"] assms(3) assms(4) [OF tr, of dec] e by simp
qed

lemma http_handlers_closed:
  assumes "shStats st = Some c" "ledger_ok c"
  shows "http_handleConnect d g host port st = (reply, st') \<Longrightarrow> http_closed d c ((reply, None), st')"
    and "handleStandardHTTP d g rq host port st = (res, st'') \<Longrightarrow> http_closed d c (res, st'')"
  unfolding http_handleConnect_def handleStandardHTTP_def Let_def
  by (erule http_session_closed [OF assms, of d g _ port _ reply st' "\<lambda>r. (r, None)"],
      simp add: http_connect_direct_outcome http_connect_proxy_outcome)
    (erule http_session_closed [OF assms, of d g _ port _ res st'' "\<lambda>r. r"],
      simp add: standard_direct_outcome standard_proxy_outcome)

section \<open>The property\<close>

text \<open>C18. Nothing of an HTTP client is left behind. Whatever the client sends and whatever fails on the way,
  when its handler returns every node has the number of connections it had before, and either the
  request was refused before a session was opened and nothing changed, or the one session is closed
  and counted once, charged with exactly the octets the relay read if it ran, and with no octets and
  at most one error if it did not.\<close>

theorem http_leaves_nothing:
  assumes "cfgUpstream g = Some (manager_upstream w)" and "mgr_counts_ok (shUp st)"
    and "shStats st = Some c" and "reach accounting rng cf c"
    and "http_handleClient d g br st = (res, br', st')"
  shows "mgr_conns (shUp st') = mgr_conns (shUp st)
    \<and> (fst res \<in> {NoReply, BadRequest, AuthRequired} \<and> snd res = None \<and> st' = st \<or> http_closed d c (res, st'))"
proof -
  have l: "ledger_ok c" by (rule reach_ledger [OF assms(4)])
  note bal = managed.http_handlers_balanced [OF assms(1,2,3) l]
  note cl = http_handlers_closed [OF assms(3) l]
  obtain h br1 where r: "read_head br = (h, br1)" by (cases "read_head br")
  show ?thesis
  proof (cases h)
    case (Inl e)
    then show ?thesis using assms(5) r by (cases e) (auto simp: http_handleClient_def)
  next
    case (Inr rq)
    obtain host port where t: "parseTarget (rqMethod rq) (rqURI rq) (rqHost rq) = (host, port)" by fastforce
    show ?thesis
    proof (cases "checkAuth (Username g) (Password g) (rqAuth rq) \<and> host \<noteq> [] \<and> 0 < port")
      case False
      then show ?thesis using assms(5) r Inr t by (auto simp: http_handleClient_def split: if_splits)
    next
      case True
      then show ?thesis
        using assms(5) r Inr t bal(1) [of d host port] bal(2) [of d rq host port] cl(1) [of d g host port] cl(2) [of d g rq host port]
        by (auto simp: http_handleClient_def split: if_splits prod.splits)
    qed
  qed
qed

lemma test_target: "parseTarget (rqMethod test_request) (rqURI test_request) (rqHost test_request) = (''a.example'', 80)"
proof -
  have "SplitHostPort ''a.example'' = None" "uri_host ''http://a.example/x'' [] = ''a.example''" by code_simp+
  then show ?thesis by (simp add: test_request_def parseTarget_def test_not_address)
qed

lemma test_standard:
  "fst (handleStandardHTTP test_dialer test_socks_config test_request ''a.example'' 80 test_shared)
     = (NoReply, Some (forward_head test_request ''a.example'' 80))"
proof -
  obtain m' where pick: "PickNode test_world test_manager = ((''x:2'', ''a'', Some 1), m')"
    using test_PickNode by (cases "PickNode test_world test_manager") auto
  show ?thesis
    by (simp add: handleStandardHTTP_def http_session_def test_not_address routeDecision_def test_shared_def test_socks_config_def
        beginSession_def stats_begin_def standard_proxy_def through_node_def standard_via_def send_on_def pick_upstream_def
        manager_upstream_def pick test_dialer_def with_stats_def split_def Let_def)
qed

theorem http_leaves_nothing_witness:
  "let st' = snd (snd (http_handleClient test_dialer test_socks_config test_reader test_shared)) in
     mgr_conns (shUp st') = mgr_conns test_manager
     \<and> (\<exists>c'. shStats st' = Some c' \<and> active c' = [] \<and> cUpload (totals c') = 120 \<and> cDownload (totals c') = 5000)"
proof -
  let ?c = "New_collector 100000000000 test_config"
  have r: "reach accounting rev test_config ?c"
    by (rule reach_new) (simp add: clock_ok_def test_config_def default_config_def stats_consts interval_secs_def Unix_def)
  have ok: "mgr_counts_ok (shUp test_shared)" by (simp add: mgr_counts_ok_def test_shared_def test_manager_def new_runtime_def)
  have up: "cfgUpstream test_socks_config = Some (manager_upstream test_world)" "shStats test_shared = Some ?c"
    by (simp_all add: test_socks_config_def test_shared_def)
  have zero: "active ?c = []" "cUpload (totals ?c) = 0" "cDownload (totals ?c) = 0"
    by (simp_all add: New_collector_def Let_def zero_counters_def)
  obtain br' where rd: "read_head test_reader = (Inr test_request, br')"
    using read_head_tokens [OF test_tokens test_reader_ok] unfolding test_request_headers by blast
  have auth: "checkAuth (Username test_socks_config) (Password test_socks_config) (rqAuth test_request)"
    by (simp add: checkAuth_def test_socks_config_def)
  obtain st' where st': "handleStandardHTTP test_dialer test_socks_config test_request ''a.example'' 80 test_shared
      = ((NoReply, Some (forward_head test_request ''a.example'' 80)), st')"
    using test_standard by (metis prod.collapse)
  have h: "http_handleClient test_dialer test_socks_config test_reader test_shared
      = ((NoReply, Some (forward_head test_request ''a.example'' 80)), br', st')"
    using rd auth test_target st' by (simp add: http_handleClient_def test_request_def)
  from http_leaves_nothing [OF up(1) ok up(2) r h]
  have "mgr_conns (shUp st') = mgr_conns (shUp test_shared)"
    "http_closed test_dialer ?c ((NoReply, Some (forward_head test_request ''a.example'' 80)), st')" by simp_all
  then show ?thesis
    using h zero
    by (auto simp: http_closed_def relayed_def test_dialer_def session_closed_def add_reads_def acct0_def read_up_def read_down_def test_shared_def)
qed

end
