(* ===== verification/Engine_Config.thy ===== *)
theory Engine_Config
  imports Manager
begin

text \<open>
  The configuration: \<^verbatim>\<open>EngineConfig\<close> of \<^verbatim>\<open>core/engine.go\<close>, the file of \<^verbatim>\<open>core/config/config.go\<close> and how it is laid over a
  baseline, and what \<^verbatim>\<open>cmd/yellowsocks-cli/main.go\<close> makes of its flags.

  The fields keep the names of the sources behind a prefix, \<open>ec\<close> for the engine and \<open>fc\<close> for the file; a pointer
  that may be nil is an option. Decoding JSON and YAML, and parsing flags, are the libraries': the decoders are
  arguments, and \<open>cli_flags\<close> is what the flags hold after parsing. The log level and the log files are left out.
\<close>

section \<open>The engine's configuration\<close>

record EngineConfig =
  ecSPPServer :: string
  ecSPPProto :: string
  ecSPPKey :: string
  ecSPPEncrypt :: string
  ecSPPCompress :: int
  ecSPPRdnsDomain :: string
  ecSPPRdnsUpstream :: string
  ecSPPRdnsPsk :: string
  ecSPPRdnsQueryType :: string
  ecSPPNodes :: "SppNode list"
  ecLocalSocks5 :: string
  ecDNSListen :: string
  ecDoHListen :: string
  ecDoTListen :: string
  ecTLSCertFile :: string
  ecTLSKeyFile :: string
  ecDirectDNS :: string
  ecRemoteDoH :: string
  ecSocks5Listen :: string
  ecHTTPListen :: string
  ecProxyUsername :: string
  ecProxyPassword :: string
  ecEnableIPv6 :: bool
  ecDirectDomains :: "string list"
  ecDirectCIDRs :: "string list"
  ecGeoIPFile :: string
  ecChinaDomainsFile :: string
  ecGFWDomainsFile :: string
  ecSkipCountry :: string
  ecAPIListen :: string
  ecAPIToken :: string
  ecAPIReadonlyToken :: string
  ecAPIAllowedCIDRs :: "string list"
  ecAPIClientCIDRs :: "string list"
  ecAPITrustedProxies :: "string list"
  ecAPIOrigins :: "string list"
  ecAPIDashboard :: bool
  ecAPIPProf :: bool
  ecStatsFile :: string
  ecStatsHistoryHours :: int

section \<open>The file\<close>

record FileConfig =
  fcSPPServer :: string
  fcSPPProto :: string
  fcSPPKey :: string
  fcSPPEncrypt :: string
  fcSPPCompress :: "int option"
  fcSPPRdnsDomain :: string
  fcRdnsDomain :: string
  fcSPPRdnsUpstream :: string
  fcRdnsUpstream :: string
  fcSPPRdnsPsk :: string
  fcRdnsPsk :: string
  fcSPPRdnsQueryType :: string
  fcRdnsQueryType :: string
  fcSPPNodes :: "SppNode list"
  fcDNSListen :: string
  fcDoHListen :: string
  fcDoTListen :: string
  fcTLSCertFile :: string
  fcTLSKeyFile :: string
  fcDirectDNS :: string
  fcRemoteDoH :: string
  fcSocks5Listen :: string
  fcHTTPListen :: string
  fcProxyUsername :: string
  fcProxyPassword :: string
  fcIPv6 :: "bool option"
  fcDirectDomains :: "string list"
  fcDirectCIDRs :: "string list"
  fcGeoIPFile :: string
  fcChinaDomainsFile :: string
  fcGFWDomainsFile :: string
  fcSkipCountry :: string
  fcAPIListen :: string
  fcAPIToken :: string
  fcAPIReadonlyToken :: string
  fcAPIAllowedCIDRs :: "string list"
  fcAPIClientCIDRs :: "string list"
  fcAPITrustedProxies :: "string list"
  fcAPIOrigins :: "string list"
  fcAPIDashboard :: "bool option"
  fcAPIPProf :: "bool option"
  fcStatsFile :: string
  fcStatsHistoryHours :: int
  fcLogLevel :: string

definition empty_file :: FileConfig where
  "empty_file = \<lparr>fcSPPServer = [], fcSPPProto = [], fcSPPKey = [], fcSPPEncrypt = [], fcSPPCompress = None, fcSPPRdnsDomain = [],
     fcRdnsDomain = [], fcSPPRdnsUpstream = [], fcRdnsUpstream = [], fcSPPRdnsPsk = [], fcRdnsPsk = [],
     fcSPPRdnsQueryType = [], fcRdnsQueryType = [], fcSPPNodes = [], fcDNSListen = [], fcDoHListen = [],
     fcDoTListen = [], fcTLSCertFile = [], fcTLSKeyFile = [], fcDirectDNS = [], fcRemoteDoH = [], fcSocks5Listen = [],
     fcHTTPListen = [], fcProxyUsername = [], fcProxyPassword = [], fcIPv6 = None, fcDirectDomains = [],
     fcDirectCIDRs = [], fcGeoIPFile = [], fcChinaDomainsFile = [], fcGFWDomainsFile = [], fcSkipCountry = [],
     fcAPIListen = [], fcAPIToken = [], fcAPIReadonlyToken = [], fcAPIAllowedCIDRs = [], fcAPIClientCIDRs = [],
     fcAPITrustedProxies = [], fcAPIOrigins = [], fcAPIDashboard = None, fcAPIPProf = None, fcStatsFile = [],
     fcStatsHistoryHours = 0, fcLogLevel = []\<rparr>"

text \<open>A decoder fills the configuration it is given, also when it then fails.\<close>

definition ParseConfigContent ::
  "('d \<Rightarrow> FileConfig \<Rightarrow> bool \<times> FileConfig) \<Rightarrow> ('d \<Rightarrow> FileConfig \<Rightarrow> bool \<times> FileConfig) \<Rightarrow> 'd \<Rightarrow> FileConfig option" where
  "ParseConfigContent json yaml data =
     (case json data empty_file of
        (True, f) \<Rightarrow> Some f
      | (False, f) \<Rightarrow> (case yaml data f of (True, f) \<Rightarrow> Some f | (False, _) \<Rightarrow> None))"

definition LoadConfigFile ::
  "('d \<Rightarrow> FileConfig \<Rightarrow> bool \<times> FileConfig) \<Rightarrow> ('d \<Rightarrow> FileConfig \<Rightarrow> bool \<times> FileConfig) \<Rightarrow> (string \<Rightarrow> 'd option) \<Rightarrow> string
     \<Rightarrow> FileConfig option" where
  "LoadConfigFile json yaml readFile path =
     (case readFile path of None \<Rightarrow> None | Some data \<Rightarrow> ParseConfigContent json yaml data)"

text \<open>The three kinds of overlay: a text or list that is not empty, a pointer that is not nil.\<close>

definition over :: "'a list \<Rightarrow> 'a list \<Rightarrow> 'a list" where
  "over f b = (if f \<noteq> [] then f else b)"

definition over_ptr :: "'a option \<Rightarrow> 'a \<Rightarrow> 'a" where
  "over_ptr f b = (case f of Some v \<Rightarrow> v | None \<Rightarrow> b)"

definition MergeWithEngineConfig :: "FileConfig \<Rightarrow> EngineConfig \<Rightarrow> EngineConfig" where
  "MergeWithEngineConfig f base =
     \<lparr>ecSPPServer = over (fcSPPServer f) (ecSPPServer base),
      ecSPPProto = over (fcSPPProto f) (ecSPPProto base),
      ecSPPKey = over (fcSPPKey f) (ecSPPKey base),
      ecSPPEncrypt = over (fcSPPEncrypt f) (ecSPPEncrypt base),
      ecSPPCompress = over_ptr (fcSPPCompress f) (ecSPPCompress base),
      ecSPPRdnsDomain = over (fcSPPRdnsDomain f) (over (fcRdnsDomain f) (ecSPPRdnsDomain base)),
      ecSPPRdnsUpstream = over (fcSPPRdnsUpstream f) (over (fcRdnsUpstream f) (ecSPPRdnsUpstream base)),
      ecSPPRdnsPsk = over (fcSPPRdnsPsk f) (over (fcRdnsPsk f) (ecSPPRdnsPsk base)),
      ecSPPRdnsQueryType = over (fcSPPRdnsQueryType f) (over (fcRdnsQueryType f) (ecSPPRdnsQueryType base)),
      ecSPPNodes = over (fcSPPNodes f) (ecSPPNodes base),
      ecLocalSocks5 = ecLocalSocks5 base,
      ecDNSListen = over (fcDNSListen f) (ecDNSListen base),
      ecDoHListen = over (fcDoHListen f) (ecDoHListen base),
      ecDoTListen = over (fcDoTListen f) (ecDoTListen base),
      ecTLSCertFile = over (fcTLSCertFile f) (ecTLSCertFile base),
      ecTLSKeyFile = over (fcTLSKeyFile f) (ecTLSKeyFile base),
      ecDirectDNS = over (fcDirectDNS f) (ecDirectDNS base),
      ecRemoteDoH = over (fcRemoteDoH f) (ecRemoteDoH base),
      ecSocks5Listen = over (fcSocks5Listen f) (ecSocks5Listen base),
      ecHTTPListen = over (fcHTTPListen f) (ecHTTPListen base),
      ecProxyUsername = over (fcProxyUsername f) (ecProxyUsername base),
      ecProxyPassword = over (fcProxyPassword f) (ecProxyPassword base),
      ecEnableIPv6 = over_ptr (fcIPv6 f) (ecEnableIPv6 base),
      ecDirectDomains = over (fcDirectDomains f) (ecDirectDomains base),
      ecDirectCIDRs = over (fcDirectCIDRs f) (ecDirectCIDRs base),
      ecGeoIPFile = over (fcGeoIPFile f) (ecGeoIPFile base),
      ecChinaDomainsFile = over (fcChinaDomainsFile f) (ecChinaDomainsFile base),
      ecGFWDomainsFile = over (fcGFWDomainsFile f) (ecGFWDomainsFile base),
      ecSkipCountry = over (fcSkipCountry f) (ecSkipCountry base),
      ecAPIListen = over (fcAPIListen f) (ecAPIListen base),
      ecAPIToken = over (fcAPIToken f) (ecAPIToken base),
      ecAPIReadonlyToken = over (fcAPIReadonlyToken f) (ecAPIReadonlyToken base),
      ecAPIAllowedCIDRs = over (fcAPIAllowedCIDRs f) (ecAPIAllowedCIDRs base),
      ecAPIClientCIDRs = over (fcAPIClientCIDRs f) (ecAPIClientCIDRs base),
      ecAPITrustedProxies = over (fcAPITrustedProxies f) (ecAPITrustedProxies base),
      ecAPIOrigins = over (fcAPIOrigins f) (ecAPIOrigins base),
      ecAPIDashboard = over_ptr (fcAPIDashboard f) (ecAPIDashboard base),
      ecAPIPProf = over_ptr (fcAPIPProf f) (ecAPIPProf base),
      ecStatsFile = over (fcStatsFile f) (ecStatsFile base),
      ecStatsHistoryHours = (if 0 < fcStatsHistoryHours f then fcStatsHistoryHours f else ecStatsHistoryHours base)\<rparr>"

section \<open>The command line\<close>

text \<open>The flags after parsing; \<open>flVersion\<close> stands for both \<^verbatim>\<open>-v\<close> and \<^verbatim>\<open>-version\<close>.\<close>

record cli_flags =
  flConfig :: string
  flSppServer :: string
  flSppProto :: string
  flSppKey :: string
  flRdnsDomain :: string
  flRdnsUpstream :: string
  flRdnsPsk :: string
  flRdnsQueryType :: string
  flSocks5 :: string
  flHttp :: string
  flDns :: string
  flDoh :: string
  flDot :: string
  flTlsCert :: string
  flTlsKey :: string
  flChinaDomains :: string
  flGfwDomains :: string
  flGeoip :: string
  flSkipCountry :: string
  flApi :: string
  flApiToken :: string
  flStatsFile :: string
  flApiPProf :: bool
  flVersion :: bool

definition default_flags :: cli_flags where
  "default_flags = \<lparr>flConfig = [], flSppServer = [], flSppProto = ''tcp'', flSppKey = ''123456'', flRdnsDomain = [], flRdnsUpstream = [], flRdnsPsk = [], flRdnsQueryType = [], flSocks5 = ''127.0.0.1:1080'', flHttp = ''127.0.0.1:8080'', flDns = ''127.0.0.1:53'', flDoh = ''127.0.0.1:8053'', flDot = [], flTlsCert = [], flTlsKey = [], flChinaDomains = [], flGfwDomains = [], flGeoip = [], flSkipCountry = ''CN'', flApi = [], flApiToken = [], flStatsFile = [], flApiPProf = False, flVersion = False\<rparr>"

definition cli_config :: "cli_flags \<Rightarrow> EngineConfig" where
  "cli_config fl =
     \<lparr>ecSPPServer = flSppServer fl, ecSPPProto = flSppProto fl, ecSPPKey = flSppKey fl, ecSPPEncrypt = ''default'', ecSPPCompress = 128,
      ecSPPRdnsDomain = flRdnsDomain fl, ecSPPRdnsUpstream = flRdnsUpstream fl, ecSPPRdnsPsk = flRdnsPsk fl,
      ecSPPRdnsQueryType = flRdnsQueryType fl, ecSPPNodes = [], ecLocalSocks5 = [], ecDNSListen = flDns fl, ecDoHListen = flDoh fl,
      ecDoTListen = flDot fl, ecTLSCertFile = flTlsCert fl, ecTLSKeyFile = flTlsKey fl, ecDirectDNS = ''1.1.1.1:53'',
      ecRemoteDoH = ''https://1.1.1.1/dns-query'', ecSocks5Listen = flSocks5 fl, ecHTTPListen = flHttp fl, ecProxyUsername = [],
      ecProxyPassword = [], ecEnableIPv6 = False, ecDirectDomains = [], ecDirectCIDRs = [], ecGeoIPFile = flGeoip fl,
      ecChinaDomainsFile = flChinaDomains fl, ecGFWDomainsFile = flGfwDomains fl, ecSkipCountry = flSkipCountry fl,
      ecAPIListen = flApi fl, ecAPIToken = flApiToken fl, ecAPIReadonlyToken = [], ecAPIAllowedCIDRs = [], ecAPIClientCIDRs = [],
      ecAPITrustedProxies = [], ecAPIOrigins = [], ecAPIDashboard = True, ecAPIPProf = flApiPProf fl, ecStatsFile = flStatsFile fl,
      ecStatsHistoryHours = 0\<rparr>"

datatype cli_outcome = BadFlags | ShowVersion | ConfigFailed | Usage | Launch EngineConfig

definition run :: "(string \<Rightarrow> FileConfig option) \<Rightarrow> cli_flags option \<Rightarrow> cli_outcome" where
  "run load parsed =
     (case parsed of
        None \<Rightarrow> BadFlags
      | Some fl \<Rightarrow>
          if flVersion fl then ShowVersion
          else
            let fileCfg = (if flConfig fl \<noteq> [] then Some (load (flConfig fl)) else None) in
            (case fileCfg of
               Some None \<Rightarrow> ConfigFailed
             | _ \<Rightarrow>
                 let c = cli_config fl;
                     c = (case fileCfg of Some (Some f) \<Rightarrow> MergeWithEngineConfig f c | _ \<Rightarrow> c);
                     c = (if ecAPIListen c \<noteq> [] \<and> ecStatsFile c = [] then c\<lparr>ecStatsFile := ''stats.json''\<rparr> else c)
                 in if ecSPPServer c = [] \<and> ecSPPNodes c = [] then Usage else Launch c))"

section \<open>Overlays\<close>

lemma over_simps [simp]: "over [] b = b" "over f (over f b) = over f b" "over f b = [] \<longleftrightarrow> f = [] \<and> b = []"
  by (simp_all add: over_def)

lemma over_over [simp]: "over f (over g (over f (over g b))) = over f (over g b)"
  by (simp add: over_def)

lemma over_ptr_simps [simp]: "over_ptr None b = b" "over_ptr f (over_ptr f b) = over_ptr f b"
  by (simp_all add: over_ptr_def split: option.splits)


end
