(* ===== verification/Dns_Front.thy ===== *)
theory Dns_Front
  imports Dns_Server Go_Base64
begin

text \<open>
  The front of package \<^verbatim>\<open>core/dns\<close>: the configuration, the listeners over UDP, TCP, DoH and DoT, how they are bound and
  released, and the handler of DoH requests in front of the resolver of \<open>Dns_Server\<close>.

  Whether an address can be bound and a certificate loads is the argument \<open>bind_env\<close>. A server keeps references to its
  sockets; \<open>dfOpen\<close> are the open ones it still refers to and \<open>dfLost\<close> open ones whose reference was overwritten. What the
  network does with a bound socket is the library's.
\<close>

section \<open>Configuration\<close>

record dns_config =
  dcListenAddr :: string
  dcDoHListenAddr :: string
  dcDoTListenAddr :: string
  dcTLSCertFile :: string
  dcTLSKeyFile :: string
  dcDoHURL :: string
  dcDirectDNS :: string
  dcSocks5Addr :: string
  dcRouter :: "Router option"
  dcEnableIPv6 :: bool
  dcStats :: "Collector option"

datatype service = UdpSocket | TcpSocket | DohSocket | DotSocket

record dns_front =
  dfConfig :: dns_config
  dfServer :: DnsServer
  dfOpen :: "service list"
  dfLost :: "service list"
  dfJanitor :: bool
  dfStopped :: bool

definition dns_defaults :: "dns_config \<Rightarrow> dns_config" where
  "dns_defaults c =
     (let c = (if dcListenAddr c = [] then c\<lparr>dcListenAddr := ''127.0.0.1:53''\<rparr> else c);
          c = (if dcDoHURL c = [] then c\<lparr>dcDoHURL := ''https://1.1.1.1/dns-query''\<rparr> else c)
      in if dcDirectDNS c = [] then c\<lparr>dcDirectDNS := ''1.1.1.1:53''\<rparr> else c)"

text \<open>\<open>None\<close> is the error that DoT needs a certificate and a key.\<close>

definition NewServer :: "dns_config \<Rightarrow> dns_front option" where
  "NewServer c0 =
     (let c = dns_defaults c0 in
      if dcDoTListenAddr c \<noteq> [] \<and> (dcTLSCertFile c = [] \<or> dcTLSKeyFile c = []) then None
      else Some \<lparr>dfConfig = c,
             dfServer = \<lparr>router = dcRouter c, enableIPv6 = dcEnableIPv6 c, cache = Map.empty, ipToDomain = Map.empty,
                         stats = dcStats c\<rparr>,
             dfOpen = [], dfLost = [], dfJanitor = False, dfStopped = False\<rparr>)"

section \<open>Listeners\<close>

record bind_env =
  can_bind :: "service \<Rightarrow> string \<Rightarrow> bool"
  can_load :: "string \<Rightarrow> string \<Rightarrow> bool"

text \<open>Storing a new value in the field of a socket: an open socket it referred to is lost.\<close>

definition forget :: "service \<Rightarrow> dns_front \<Rightarrow> dns_front" where
  "forget sv s = (if sv \<in> set (dfOpen s) then s\<lparr>dfOpen := removeAll sv (dfOpen s), dfLost := sv # dfLost s\<rparr> else s)"

definition keep_socket :: "service \<Rightarrow> dns_front \<Rightarrow> dns_front" where
  "keep_socket sv s = (let s = forget sv s in s\<lparr>dfOpen := dfOpen s @ [sv]\<rparr>)"

definition shutdownListeners :: "dns_front \<Rightarrow> dns_front" where
  "shutdownListeners s = s\<lparr>dfOpen := []\<rparr>"

definition dns_Stop :: "dns_front \<Rightarrow> dns_front" where
  "dns_Stop s = (if dfStopped s then s else shutdownListeners (s\<lparr>dfStopped := True\<rparr>))"

text \<open>The reaper runs once started and until \<^verbatim>\<open>stopCh\<close> is closed.\<close>

definition startJanitor :: "dns_front \<Rightarrow> dns_front" where
  "startJanitor s = s\<lparr>dfJanitor := True\<rparr>"

definition janitor_runs :: "dns_front \<Rightarrow> bool" where
  "janitor_runs s \<longleftrightarrow> dfJanitor s \<and> \<not> dfStopped s"

datatype start_error = ListenFailed service | CertFailed

definition start_doh :: "bind_env \<Rightarrow> dns_front \<Rightarrow> start_error option \<times> dns_front" where
  "start_doh env s =
     (if dcDoHListenAddr (dfConfig s) = [] then (None, s)
      else if \<not> can_bind env DohSocket (dcDoHListenAddr (dfConfig s)) then (Some (ListenFailed DohSocket), dns_Stop s)
      else (None, keep_socket DohSocket s))"

definition start_dot :: "bind_env \<Rightarrow> dns_front \<Rightarrow> start_error option \<times> dns_front" where
  "start_dot env s =
     (let c = dfConfig s in
      if dcDoTListenAddr c = [] then (None, s)
      else if \<not> can_load env (dcTLSCertFile c) (dcTLSKeyFile c) then (Some CertFailed, dns_Stop s)
      else if \<not> can_bind env DotSocket (dcDoTListenAddr c) then (Some (ListenFailed DotSocket), dns_Stop s)
      else (None, keep_socket DotSocket s))"

definition dns_Start :: "bind_env \<Rightarrow> dns_front \<Rightarrow> start_error option \<times> dns_front" where
  "dns_Start env s =
     (let addr = dcListenAddr (dfConfig s); s = forget UdpSocket s in
      if \<not> can_bind env UdpSocket addr then (Some (ListenFailed UdpSocket), s)
      else
        let s = keep_socket UdpSocket s in
        if \<not> can_bind env TcpSocket addr then (Some (ListenFailed TcpSocket), dns_Stop s)
        else
          let s = startJanitor (keep_socket TcpSocket s) in
          case start_doh env s of
            (Some e, s) \<Rightarrow> (Some e, s)
          | (None, s) \<Rightarrow> start_dot env s)"

section \<open>DoH requests\<close>

record doh_request =
  dqMethod :: string
  dqQuery :: "(string \<times> string) list"
  dqBody :: "byte list"
  dqBodyFails :: bool

datatype doh_response = DohError nat string | DohAnswer string "byte list"

definition octets :: "nat list \<Rightarrow> byte list" where
  "octets = map of_nat"

text \<open>The octets of the message, or the error that is answered. \<^verbatim>\<open>MaxBytesReader\<close> makes reading a longer body fail.\<close>

definition doh_message :: "doh_request \<Rightarrow> doh_response + byte list" where
  "doh_message r =
     (if dqMethod r = ''GET'' then
        (let param = Get (dqQuery r) ''dns'' in
         if param = [] then Inl (DohError 400 ''missing dns query parameter'')
         else case DecodeString RawURLEncoding param of
                Some raw \<Rightarrow> Inr (octets raw)
              | None \<Rightarrow>
                  (case DecodeString URLEncoding param of
                     Some raw \<Rightarrow> Inr (octets raw)
                   | None \<Rightarrow> Inl (DohError 400 ''invalid base64url dns parameter'')))
      else if dqMethod r = ''POST'' then
        (if dqBodyFails r \<or> maxDNSMessageSize < length (dqBody r) \<or> dqBody r = []
         then Inl (DohError 400 ''empty, oversized or invalid request body'') else Inr (dqBody r))
      else Inl (DohError 405 ''method not allowed''))"

definition handleDoHHTTP :: "order \<Rightarrow> net \<Rightarrow> instant \<Rightarrow> doh_request \<Rightarrow> DnsServer \<Rightarrow> doh_response \<times> DnsServer" where
  "handleDoHHTTP rng n now r s =
     (case doh_message r of
        Inl err \<Rightarrow> (err, s)
      | Inr raw \<Rightarrow>
          if raw = [] \<or> maxDNSMessageSize < length raw then (DohError 400 ''dns message size out of range'', s)
          else case Unpack n raw of
            None \<Rightarrow> (DohError 400 ''failed to unpack dns message'', s)
          | Some req \<Rightarrow>
              let (res, s) = resolve rng n now req True s in
              (case res of
                 Inl _ \<Rightarrow> (DohError 502 ''dns resolution failed'', s)
               | Inr m \<Rightarrow>
                   (case Pack n m of
                      None \<Rightarrow> (DohError 500 ''failed to pack dns response'', s)
                    | Some packed \<Rightarrow> (DohAnswer (doHCacheControl m) packed, s))))"

section \<open>Starting and stopping\<close>

definition start_failure :: "bind_env \<Rightarrow> dns_config \<Rightarrow> start_error option" where
  "start_failure env c =
     (if \<not> can_bind env UdpSocket (dcListenAddr c) then Some (ListenFailed UdpSocket)
      else if \<not> can_bind env TcpSocket (dcListenAddr c) then Some (ListenFailed TcpSocket)
      else if dcDoHListenAddr c \<noteq> [] \<and> \<not> can_bind env DohSocket (dcDoHListenAddr c) then Some (ListenFailed DohSocket)
      else if dcDoTListenAddr c \<noteq> [] \<and> \<not> can_load env (dcTLSCertFile c) (dcTLSKeyFile c) then Some CertFailed
      else if dcDoTListenAddr c \<noteq> [] \<and> \<not> can_bind env DotSocket (dcDoTListenAddr c) then Some (ListenFailed DotSocket)
      else None)"

definition services :: "dns_config \<Rightarrow> service list" where
  "services c = [UdpSocket, TcpSocket] @ (if dcDoHListenAddr c = [] then [] else [DohSocket])
     @ (if dcDoTListenAddr c = [] then [] else [DotSocket])"

lemmas dns_Start_defs = dns_Start_def start_doh_def start_dot_def keep_socket_def forget_def startJanitor_def Let_def start_failure_def

lemma dns_Start_ok:
  assumes "dfOpen s = []" and "start_failure env (dfConfig s) = None"
  shows "dns_Start env s = (None, s\<lparr>dfOpen := services (dfConfig s), dfJanitor := True\<rparr>)"
  using assms
  by (cases "dcDoHListenAddr (dfConfig s) = []"; cases "dcDoTListenAddr (dfConfig s) = []")
    (simp_all add: dns_Start_defs services_def split: if_splits)

lemma dns_Start_fails:
  assumes "dfOpen s = []" and "\<not> dfStopped s" and "\<not> dfJanitor s" and "start_failure env (dfConfig s) = Some e"
  shows "\<exists>t. dns_Start env s = (Some e, t) \<and> dfOpen t = [] \<and> dfLost t = dfLost s \<and> \<not> janitor_runs t \<and> \<not> janitor_runs (dns_Stop t)
    \<and> dfOpen (dns_Stop t) = [] \<and> dfLost (dns_Stop t) = dfLost s"
  using assms
  by (cases "dcDoHListenAddr (dfConfig s) = []"; cases "dcDoTListenAddr (dfConfig s) = []")
    (simp_all add: dns_Start_defs dns_Stop_def shutdownListeners_def janitor_runs_def split: if_splits)

lemma dns_defaults_fields [simp]:
  "dcDoHListenAddr (dns_defaults c) = dcDoHListenAddr c" "dcDoTListenAddr (dns_defaults c) = dcDoTListenAddr c"
  "dcTLSCertFile (dns_defaults c) = dcTLSCertFile c" "dcTLSKeyFile (dns_defaults c) = dcTLSKeyFile c"
  by (simp_all add: dns_defaults_def Let_def)

lemma NewServer_fresh:
  assumes "NewServer c = Some s"
  shows "dfOpen s = []" "dfLost s = []" "\<not> dfStopped s" "\<not> dfJanitor s"
    and "dcDoHListenAddr (dfConfig s) = dcDoHListenAddr c" "dcDoTListenAddr (dfConfig s) = dcDoTListenAddr c"
  using assms by (auto simp: NewServer_def Let_def split: if_splits)


definition example_dns :: dns_config where
  "example_dns = \<lparr>dcListenAddr = [], dcDoHListenAddr = '':8053'', dcDoTListenAddr = '':853'', dcTLSCertFile = ''c.pem'', dcTLSKeyFile = ''k.pem'',
     dcDoHURL = [], dcDirectDNS = [], dcSocks5Addr = [], dcRouter = None, dcEnableIPv6 = False, dcStats = None\<rparr>"


section \<open>Both ways to ask\<close>

lemma equals_not_raw: "IndexByte (alphabet RawURLEncoding) (CHR ''='') = None"
  by (simp add: IndexByte_None RawURLEncoding_def url_alphabet_def)

lemma raw_decode_padded:
  "\<forall>x \<in> set xs. x < 256 \<Longrightarrow> decode_quanta RawURLEncoding (encode_quanta URLEncoding xs) \<in> {None, Some xs}"
proof (induction xs rule: triples_induct)
  case (Three x y z r)
  have "alphabet URLEncoding = alphabet RawURLEncoding" by (simp add: URLEncoding_def RawURLEncoding_def)
  with Three show ?case
    using raw64.sextets [of x y z] raw64.bytes_back(3) [of x y z]
    by (auto simp: dec4_def RawURLEncoding_def [THEN arg_cong, of padded])
qed (auto simp: dec4_def equals_not_raw URLEncoding_def [THEN arg_cong, of padded] RawURLEncoding_def [THEN arg_cong, of padded] split: option.splits)


lemma octets_unat: "octets (map unat m) = m"
  by (simp add: octets_def comp_def)

lemma doh_message_GET:
  assumes "m \<noteq> []" and "e \<in> {RawURLEncoding, URLEncoding}"
  shows "doh_message \<lparr>dqMethod = ''GET'', dqQuery = [(''dns'', EncodeToString e (map unat m))], dqBody = b, dqBodyFails = f\<rparr> = Inr m"
proof -
  have small: "\<forall>x \<in> set (map unat m). x < 256" using unsigned_less [where 'a = nat and 'b = 8] by simp
  have ne: "EncodeToString e (map unat m) \<noteq> []"
    using assms(1) by (cases "(e, map unat m)" rule: encode_quanta.cases) (auto simp: EncodeToString_def)
  have url: "DecodeString URLEncoding (EncodeToString URLEncoding (map unat m)) = Some (map unat m)"
    and raw: "DecodeString RawURLEncoding (EncodeToString RawURLEncoding (map unat m)) = Some (map unat m)"
    using url64.DecodeString_EncodeToString raw64.DecodeString_EncodeToString small by blast+
  have "filter (\<lambda>c. c \<notin> {CHR 0x0D, CHR 0x0A}) (encode_quanta URLEncoding (map unat m)) = encode_quanta URLEncoding (map unat m)"
    using url64.encode_no_newline [OF small] by (intro filter_True) auto
  then have "DecodeString RawURLEncoding (EncodeToString URLEncoding (map unat m)) \<in> {None, Some (map unat m)}"
    using raw_decode_padded [OF small] by (simp add: DecodeString_def EncodeToString_def)
  then show ?thesis
    using assms(2) ne url raw by (auto simp: doh_message_def Get_def octets_unat)
qed



end
