(* ===== verification/Api_Access.thy ===== *)
theory Api_Access
  imports Go_Net Go_Addr6
begin

text \<open>
  \<^verbatim>\<open>core/api/api.go\<close>, who may use the statistics interface: the configuration with its address lists, the
  address of a client behind proxies, tokens, cross-origin headers, the table of routes and the gate
  in front of them.

  The headers and the query of a request are lists in which \<^verbatim>\<open>Get\<close> reads the first entry of a name. The
  random token of a server without a configured one is an argument.
\<close>

section \<open>Configuration\<close>

record api_config =
  apListenAddr :: string
  apToken :: string
  apReadonlyToken :: string
  apAllowedCIDRs :: "string list"
  apClientCIDRs :: "string list"
  apTrustedProxies :: "string list"
  apAllowedOrigins :: "string list"
  apDashboard :: bool
  apPProf :: bool
  apReadTimeout :: duration
  apWriteTimeout :: duration
  apIdleTimeout :: duration

record api_request =
  rMethod :: string
  rPath :: string
  rRemoteAddr :: string
  rHeaders :: "(string \<times> string) list"
  rQuery :: "(string \<times> string) list"

record api_server =
  asCfg :: api_config
  asStart :: instant
  asListening :: bool
  asClosed :: bool
  allowedNets :: "IPNet list"
  clientNets :: "IPNet list"
  trustedNets :: "IPNet list"
  corsDisabled :: bool

section \<open>Addresses\<close>

definition parseIPFromAddr :: "string \<Rightarrow> IP option" where
  "parseIPFromAddr addr =
     (let host = (case SplitHostPort addr of Some (h, _) \<Rightarrow> h | None \<Rightarrow> addr)
      in case ParseIP host of
           None \<Rightarrow> None
         | Some ip \<Rightarrow> (case To4 ip of Some v4 \<Rightarrow> Some v4 | None \<Rightarrow> Some ip))"

definition inNets :: "IP option \<Rightarrow> IPNet list \<Rightarrow> bool" where
  "inNets ip nets =
     (case ip of
        None \<Rightarrow> False
      | Some a \<Rightarrow> list_ex (\<lambda>n. IPNet_Contains n (case To4 a of Some v4 \<Rightarrow> v4 | None \<Rightarrow> a)) nets)"

text \<open>One entry of a list of networks; \<open>None\<close> is skipped, the left side of the sum names the bad entry.\<close>

definition parseCIDR_entry :: "string \<Rightarrow> (string + IPNet) option" where
  "parseCIDR_entry raw0 =
     (let raw = TrimSpace raw0 in
      if raw = [] then None
      else if CHR ''/'' \<notin> set raw \<and> ParseIP raw = None then Some (Inl raw)
      else
        let raw = (if CHR ''/'' \<in> set raw then raw
                   else if CHR '':'' \<in> set raw then raw @ ''/128'' else raw @ ''/32'')
        in case ParseCIDR raw of None \<Rightarrow> Some (Inl raw) | Some n \<Rightarrow> Some (Inr n))"

fun parseCIDRs :: "string list \<Rightarrow> string + IPNet list" where
  "parseCIDRs [] = Inr []"
| "parseCIDRs (raw # rest) =
     (case parseCIDR_entry raw of
        None \<Rightarrow> parseCIDRs rest
      | Some (Inl bad) \<Rightarrow> Inl bad
      | Some (Inr n) \<Rightarrow> (case parseCIDRs rest of Inl bad \<Rightarrow> Inl bad | Inr ns \<Rightarrow> Inr (n # ns)))"

definition forwarded_hop :: "string \<Rightarrow> IP option" where
  "forwarded_hop part = ParseIP (TrimSpace part)"

definition from_chain :: "IPNet list \<Rightarrow> string \<Rightarrow> IP option" where
  "from_chain trusted xff =
     (let parts = Split xff (CHR '','');
          hops = List.map_filter forwarded_hop parts
      in case filter (\<lambda>ip. \<not> inNets (Some ip) trusted) (rev hops) of
           ip # _ \<Rightarrow> Some ip
         | [] \<Rightarrow> (case hops of ip # _ \<Rightarrow> Some ip | [] \<Rightarrow> None))"

definition clientIP :: "api_server \<Rightarrow> api_request \<Rightarrow> IP option" where
  "clientIP s r =
     (let remote = parseIPFromAddr (rRemoteAddr r) in
      if trustedNets s = [] \<or> remote = None \<or> \<not> inNets remote (trustedNets s) then remote
      else
        let xff = Get (rHeaders r) ''X-Forwarded-For'';
            chain = (if xff \<noteq> [] then from_chain (trustedNets s) xff else None)
        in case chain of
             Some ip \<Rightarrow> Some ip
           | None \<Rightarrow>
               let xr = Get (rHeaders r) ''X-Real-Ip'' in
               (case (if xr \<noteq> [] then forwarded_hop xr else None) of
                  Some ip \<Rightarrow> Some ip
                | None \<Rightarrow> remote))"

datatype address_verdict = AddressOk | PeerNotAllowed | ClientNotAllowed

definition addressRejected :: "api_server \<Rightarrow> api_request \<Rightarrow> address_verdict" where
  "addressRejected s r =
     (if allowedNets s \<noteq> [] \<and> \<not> inNets (parseIPFromAddr (rRemoteAddr r)) (allowedNets s) then PeerNotAllowed
      else if clientNets s \<noteq> [] \<and> \<not> inNets (clientIP s r) (clientNets s) then ClientNotAllowed
      else AddressOk)"

section \<open>Tokens and origins\<close>

datatype access = accessNone | accessRead | accessAdmin

fun access_rank :: "access \<Rightarrow> nat" where
  "access_rank accessNone = 0"
| "access_rank accessRead = 1"
| "access_rank accessAdmin = 2"

definition requestToken :: "api_request \<Rightarrow> string" where
  "requestToken r =
     (let h = Get (rHeaders r) ''Authorization'' in
      if 7 < length h \<and> EqualFold (take 7 h) ''bearer '' then TrimSpace (drop 7 h)
      else
        let v = TrimSpace (Get (rHeaders r) ''X-Api-Token'') in
        if v \<noteq> [] then v else Get (rQuery r) ''token'')"

definition accessLevel :: "api_server \<Rightarrow> api_request \<Rightarrow> access" where
  "accessLevel s r =
     (let tok = requestToken r in
      if tok = [] then accessNone
      else if tok = apToken (asCfg s) then accessAdmin
      else if apReadonlyToken (asCfg s) \<noteq> [] \<and> tok = apReadonlyToken (asCfg s) then accessRead
      else accessNone)"

definition authorized :: "api_server \<Rightarrow> api_request \<Rightarrow> bool" where
  "authorized s r = (let given = requestToken r in given \<noteq> [] \<and> given = apToken (asCfg s))"

fun cors_scan :: "string \<Rightarrow> string list \<Rightarrow> string \<Rightarrow> string" where
  "cors_scan origin [] allowed = allowed"
| "cors_scan origin (x # xs) allowed =
     (if x = ''*'' then ''*'' else if EqualFold x origin then origin else cors_scan origin xs [])"

text \<open>The value of the header \<^verbatim>\<open>Access-Control-Allow-Origin\<close>, if it is set.\<close>

definition applyCORS :: "api_server \<Rightarrow> api_request \<Rightarrow> string option" where
  "applyCORS s r =
     (if corsDisabled s then None
      else
        let origin = Get (rHeaders r) ''Origin'';
            allowed = cors_scan origin (apAllowedOrigins (asCfg s)) ''*''
        in if allowed \<noteq> [] \<and> origin \<noteq> [] then Some allowed else None)"

section \<open>Construction\<close>

definition api_defaults :: "string \<Rightarrow> api_config \<Rightarrow> api_config" where
  "api_defaults randomToken c =
     (let c = (if apListenAddr c = [] then c\<lparr>apListenAddr := ''127.0.0.1:9090''\<rparr> else c);
          c = (if apReadTimeout c \<le> 0 then c\<lparr>apReadTimeout := 15000000000\<rparr> else c);
          c = (if apWriteTimeout c \<le> 0 then c\<lparr>apWriteTimeout := 30000000000\<rparr> else c);
          c = (if apIdleTimeout c \<le> 0 then c\<lparr>apIdleTimeout := 60000000000\<rparr> else c);
          c = (if apAllowedOrigins c = [] then c\<lparr>apAllowedOrigins := [''*'']\<rparr> else c)
      in if apToken c = [] then c\<lparr>apToken := randomToken\<rparr> else c)"

datatype api_error = BadAllowed string | BadClient string | BadTrusted string

definition New_api :: "string \<Rightarrow> instant \<Rightarrow> api_config \<Rightarrow> api_error + api_server" where
  "New_api randomToken now c0 =
     (let c = api_defaults randomToken c0 in
      case parseCIDRs (apAllowedCIDRs c) of
        Inl e \<Rightarrow> Inl (BadAllowed e)
      | Inr an \<Rightarrow>
          (case parseCIDRs (apClientCIDRs c) of
             Inl e \<Rightarrow> Inl (BadClient e)
           | Inr cn \<Rightarrow>
               (case parseCIDRs (apTrustedProxies c) of
                  Inl e \<Rightarrow> Inl (BadTrusted e)
                | Inr tn \<Rightarrow>
                    Inr \<lparr>asCfg = c, asStart = now, asListening = False, asClosed = False, allowedNets = an, clientNets = cn,
                         trustedNets = tn,
                         corsDisabled = list_ex (\<lambda>x. EqualFold (TrimSpace x) ''none'') (apAllowedOrigins c)\<rparr>)))"

definition api_Start :: "bool \<Rightarrow> instant \<Rightarrow> api_server \<Rightarrow> bool \<times> api_server" where
  "api_Start can_bind now s =
     (if asListening s then (True, s)
      else if \<not> can_bind then (False, s)
      else (True, s\<lparr>asListening := True, asClosed := False, asStart := now\<rparr>))"

definition api_Stop :: "api_server \<Rightarrow> api_server" where
  "api_Stop s = (if asClosed s then s else s\<lparr>asClosed := True, asListening := False\<rparr>)"

section \<open>Routes\<close>

datatype endpoint = EDashboard | ENotFound | EHealth | EStatus | EOverview | EConnections | ETraffic | EDomains | ERoutes
  | EDNS | EErrors | ENodes | ESnapshot | EReset | EProfile string

definition route_table :: "api_config \<Rightarrow> (string \<times> endpoint) list" where
  "route_table c =
     (if apDashboard c then [(''/'', EDashboard), (''/dashboard'', EDashboard)] else [(''/'', ENotFound)])
     @ [(''/api/v1/health'', EHealth), (''/api/v1/status'', EStatus), (''/api/v1/overview'', EOverview),
        (''/api/v1/connections'', EConnections), (''/api/v1/traffic'', ETraffic), (''/api/v1/domains'', EDomains),
        (''/api/v1/routes'', ERoutes), (''/api/v1/dns'', EDNS), (''/api/v1/errors'', EErrors), (''/api/v1/nodes'', ENodes),
        (''/api/v1/snapshot'', ESnapshot), (''/api/v1/reset'', EReset), (''/api/'', ENotFound)]
     @ (if apPProf c then [(''/debug/pprof/'', EProfile ''index''), (''/debug/pprof/cmdline'', EProfile ''cmdline''),
          (''/debug/pprof/profile'', EProfile ''profile''), (''/debug/pprof/symbol'', EProfile ''symbol''),
          (''/debug/pprof/trace'', EProfile ''trace'')] else [])"

text \<open>The access and the methods of an endpoint; \<open>None\<close> for the two handlers registered without the gate.\<close>

definition endpoint_gate :: "endpoint \<Rightarrow> (access \<times> string list) option" where
  "endpoint_gate e =
     (case e of
        EDashboard \<Rightarrow> None | ENotFound \<Rightarrow> None
      | EHealth \<Rightarrow> Some (accessNone, [''GET'', ''HEAD''])
      | EReset \<Rightarrow> Some (accessAdmin, [''POST''])
      | EProfile _ \<Rightarrow> Some (accessAdmin, [''GET''])
      | _ \<Rightarrow> Some (accessRead, [''GET'']))"

text \<open>\<^verbatim>\<open>http.ServeMux\<close>: a path that is not clean is redirected, as is one that lacks the final slash of a
  registered subtree; otherwise the exact pattern wins over the longest subtree.\<close>

definition clean_segments :: "string \<Rightarrow> string list" where
  "clean_segments p = fold (\<lambda>seg acc. if seg = [] \<or> seg = ''.'' then acc else if seg = ''..'' then butlast acc else acc @ [seg])
     (Split p (CHR ''/'')) []"

definition cleanPath :: "string \<Rightarrow> string" where
  "cleanPath p0 =
     (let p = (if p0 = [] \<or> hd p0 \<noteq> CHR ''/'' then CHR ''/'' # p0 else p0);
          np = concat (map (\<lambda>seg. CHR ''/'' # seg) (clean_segments p));
          np = (if np = [] then ''/'' else np)
      in if last p = CHR ''/'' \<and> np \<noteq> ''/'' then np @ ''/'' else np)"

definition longest_subtree :: "(string \<times> 'e) list \<Rightarrow> string \<Rightarrow> 'e option" where
  "longest_subtree table path =
     (case sort_slice (\<lambda>a b. length (fst a) > length (fst b)) (filter (\<lambda>(p, _). last p = CHR ''/'' \<and> HasPrefix path p) table) of
        [] \<Rightarrow> None
      | (_, e) # _ \<Rightarrow> Some e)"

definition mux :: "(string \<times> 'e) list \<Rightarrow> string \<Rightarrow> string \<Rightarrow> 'e option option" where
  "mux table httpMethod path =
     (if httpMethod \<noteq> ''CONNECT'' \<and> cleanPath path \<noteq> path then None
      else case map_of table path of
             Some e \<Rightarrow> Some (Some e)
           | None \<Rightarrow> if map_of table (path @ ''/'') \<noteq> None then None else Some (longest_subtree table path))"

section \<open>The gate\<close>

datatype verdict = Preflight | MethodNotAllowed | AddressForbidden | Unauthorized | TokenForbidden | Passed

definition route :: "api_server \<Rightarrow> access \<Rightarrow> string list \<Rightarrow> api_request \<Rightarrow> verdict" where
  "route s need methods r =
     (if rMethod r = ''OPTIONS'' then Preflight
      else if rMethod r \<notin> set methods then MethodNotAllowed
      else if addressRejected s r \<noteq> AddressOk then AddressForbidden
      else
        let got = accessLevel s r in
        if access_rank got < access_rank need then (if got = accessNone then Unauthorized else TokenForbidden)
        else Passed)"

datatype gate = Redirect | Open endpoint | Gated endpoint verdict

definition api_gate :: "api_server \<Rightarrow> api_request \<Rightarrow> gate" where
  "api_gate s r =
     (case mux (route_table (asCfg s)) (rMethod r) (rPath r) of
        None \<Rightarrow> Redirect
      | Some None \<Rightarrow> Open ENotFound
      | Some (Some e) \<Rightarrow>
          (case endpoint_gate e of
             None \<Rightarrow> Open e
           | Some (need, methods) \<Rightarrow> Gated e (route s need methods r)))"

section \<open>What the gate lets through\<close>

lemma longest_subtree_entry:
  "longest_subtree table path = Some e \<Longrightarrow> \<exists>p. (p, e) \<in> set table \<and> last p = CHR ''/''"
proof -
  assume found: "longest_subtree table path = Some e"
  let ?xs = "sort_slice (\<lambda>a b. length (fst a) > length (fst b)) (filter (\<lambda>(p, _). last p = CHR ''/'' \<and> HasPrefix path p) table)"
  obtain p rest where "?xs = (p, e) # rest"
    using found by (auto simp: longest_subtree_def split: list.splits)
  then have "(p, e) \<in> set ?xs" by simp
  then show ?thesis by auto
qed

lemma mux_entry:
  assumes "mux table m path = Some (Some e)"
  shows "(path, e) \<in> set table \<or> (\<exists>p. (p, e) \<in> set table \<and> last p = CHR ''/'')"
  using assms longest_subtree_entry [of table path e]
  by (auto simp: mux_def dest: map_of_SomeD split: if_splits option.splits)

lemma route_table_subtrees:
  "(p, e) \<in> set (route_table c) \<Longrightarrow> last p = CHR ''/'' \<Longrightarrow> e \<in> {EDashboard, ENotFound, EProfile ''index''}"
  by (auto simp: route_table_def split: if_splits)

lemma route_table_exact:
  "(p, EReset) \<in> set (route_table c) \<longleftrightarrow> p = ''/api/v1/reset''"
  "(p, EHealth) \<in> set (route_table c) \<longleftrightarrow> p = ''/api/v1/health''"
  "(p, EProfile k) \<in> set (route_table c) \<Longrightarrow> apPProf c"
  by (auto simp: route_table_def split: if_splits)

definition token_grants :: "api_config \<Rightarrow> string \<Rightarrow> access \<Rightarrow> bool" where
  "token_grants c tok need =
     (case need of
        accessNone \<Rightarrow> True
      | accessRead \<Rightarrow> tok \<noteq> [] \<and> (tok = apToken c \<or> tok = apReadonlyToken c)
      | accessAdmin \<Rightarrow> tok \<noteq> [] \<and> tok = apToken c)"

lemma accessLevel_grants: "access_rank need \<le> access_rank (accessLevel s r) \<longleftrightarrow> token_grants (asCfg s) (requestToken r) need"
  by (cases need) (auto simp: accessLevel_def token_grants_def Let_def)

lemma route_Passed:
  "route s need methods r = Passed \<longleftrightarrow>
     rMethod r \<noteq> ''OPTIONS'' \<and> rMethod r \<in> set methods \<and> addressRejected s r = AddressOk
     \<and> token_grants (asCfg s) (requestToken r) need"
  using accessLevel_grants [of need s r] by (auto simp: route_def Let_def not_less)

lemma AddressOk_iff:
  "addressRejected s r = AddressOk \<longleftrightarrow>
     (allowedNets s = [] \<or> inNets (parseIPFromAddr (rRemoteAddr r)) (allowedNets s))
     \<and> (clientNets s = [] \<or> inNets (clientIP s r) (clientNets s))"
  by (simp add: addressRejected_def)

lemma api_gate_Gated:
  "api_gate s r = Gated e v \<Longrightarrow>
     mux (route_table (asCfg s)) (rMethod r) (rPath r) = Some (Some e)
     \<and> (\<exists>need methods. endpoint_gate e = Some (need, methods) \<and> v = route s need methods r)"
  by (auto simp: api_gate_def split: option.splits)

text \<open>C14. A request that reaches a handler behind the gate has passed every check. The host that opened the connection is
  in the allowed networks, if any are configured, and the client it speaks for is in the client networks; every endpoint but
  the liveness probe saw a non-empty token that is the admin or the read-only token, and resetting the statistics and the
  runtime profiles saw the admin token; the reset handler only runs for a POST to its own path, and profiles are only
  reachable when they are switched on. What is served without the gate is the dashboard page and the 404 answer.\<close>

theorem access_control:
  assumes "api_gate s r = Gated e Passed \<or> api_gate s r = Open e"
  shows "e \<in> {EDashboard, ENotFound}
     \<or> (allowedNets s = [] \<or> inNets (parseIPFromAddr (rRemoteAddr r)) (allowedNets s))
       \<and> (clientNets s = [] \<or> inNets (clientIP s r) (clientNets s))
       \<and> (e = EHealth \<or> requestToken r \<noteq> [] \<and> requestToken r \<in> {apToken (asCfg s), apReadonlyToken (asCfg s)})
       \<and> (e = EReset \<or> (\<exists>k. e = EProfile k) \<longrightarrow> requestToken r = apToken (asCfg s))
       \<and> (e = EReset \<longrightarrow> rMethod r = ''POST'' \<and> rPath r = ''/api/v1/reset'')
       \<and> (\<forall>k. e = EProfile k \<longrightarrow> apPProf (asCfg s))"
proof (cases "api_gate s r = Open e")
  case True
  then show ?thesis by (auto simp: api_gate_def endpoint_gate_def split: option.splits endpoint.splits)
next
  case False
  then have gated: "api_gate s r = Gated e Passed" using assms by simp
  obtain need methods where m: "mux (route_table (asCfg s)) (rMethod r) (rPath r) = Some (Some e)"
    and g: "endpoint_gate e = Some (need, methods)" and p: "route s need methods r = Passed"
    using api_gate_Gated [OF gated] by auto
  note ok = p [unfolded route_Passed AddressOk_iff]
  have "e = EHealth \<or> requestToken r \<noteq> [] \<and> requestToken r \<in> {apToken (asCfg s), apReadonlyToken (asCfg s)}"
    and "e = EReset \<or> (\<exists>k. e = EProfile k) \<longrightarrow> requestToken r = apToken (asCfg s)"
    using ok g by (auto simp: endpoint_gate_def token_grants_def split: endpoint.splits)
  moreover have "e = EReset \<longrightarrow> rMethod r = ''POST'' \<and> rPath r = ''/api/v1/reset''"
    using ok g mux_entry [OF m] route_table_subtrees [of _ e "asCfg s"]
    by (auto simp: endpoint_gate_def route_table_exact)
  moreover have "\<forall>k. e = EProfile k \<longrightarrow> apPProf (asCfg s)"
    using mux_entry [OF m] by (auto dest: route_table_exact(3))
  ultimately show ?thesis using ok by blast
qed

definition example_api :: api_server where
  "example_api =
     \<lparr>asCfg = \<lparr>apListenAddr = '':9090'', apToken = ''admin'', apReadonlyToken = ''look'', apAllowedCIDRs = [''10.0.0.1''],
        apClientCIDRs = [], apTrustedProxies = [''10.0.0.0/8''], apAllowedOrigins = [''*''], apDashboard = True,
        apPProf = False, apReadTimeout = 1, apWriteTimeout = 1, apIdleTimeout = 1\<rparr>,
      asStart = 0, asListening = True, asClosed = False, allowedNets = [\<lparr>netIP = [10, 0, 0, 1], netMask = [255, 255, 255, 255]\<rparr>],
      clientNets = [], trustedNets = [\<lparr>netIP = [10, 0, 0, 0], netMask = [255, 0, 0, 0]\<rparr>], corsDisabled = False\<rparr>"

definition example_reset :: api_request where
  "example_reset = \<lparr>rMethod = ''POST'', rPath = ''/api/v1/reset'', rRemoteAddr = ''10.0.0.1:40000'',
     rHeaders = [(''X-Api-Token'', ''admin'')], rQuery = []\<rparr>"

lemma example_gate: "api_gate example_api example_reset = Gated EReset Passed"
  by code_simp

theorem access_control_witness:
  "api_gate example_api example_reset = Gated EReset Passed
   \<and> requestToken example_reset = apToken (asCfg example_api)"
  using access_control [of example_api example_reset EReset] example_gate by simp

section \<open>The client behind the proxies\<close>

fun join_hops :: "string list \<Rightarrow> string" where
  "join_hops [] = []"
| "join_hops [h] = h"
| "join_hops (h # hs) = h @ CHR '','' # join_hops hs"

lemma Split_join_hops:
  "hs \<noteq> [] \<Longrightarrow> list_all (\<lambda>h. CHR '','' \<notin> set h) hs \<Longrightarrow> Split (join_hops hs) (CHR '','') = hs"
  by (induction hs rule: join_hops.induct) (simp_all add: Split_single Split_append)

lemma map_filter_append: "List.map_filter f (xs @ ys) = List.map_filter f xs @ List.map_filter f ys"
  by (induction xs) (simp_all add: map_filter_simps split: option.splits)

lemma from_chain_client:
  assumes "Split xff (CHR '','') = forged @ client # proxies"
    and "forwarded_hop client = Some ip" and "\<not> inNets (Some ip) trusted"
    and "list_all (\<lambda>h. \<forall>a. forwarded_hop h = Some a \<longrightarrow> inNets (Some a) trusted) proxies"
  shows "from_chain trusted xff = Some ip"
proof -
  have "filter (\<lambda>ip. \<not> inNets (Some ip) trusted) (rev (List.map_filter forwarded_hop proxies)) = []"
    using assms(4) by (auto simp: filter_empty_conv map_filter_def list_all_iff)
  then show ?thesis
    using assms(1-3) by (simp add: from_chain_def Let_def map_filter_append map_filter_simps)
qed

lemma Split_append_sep: "Split (a @ c # b) c = Split a c @ Split b c"
  by (induction a) (auto split: list.splits)



section \<open>The address lists\<close>

lemma parseCIDRs_entries:
  "parseCIDRs raws = Inr nets \<Longrightarrow> map (Some \<circ> Inr) nets = filter (\<lambda>e. e \<noteq> None) (map parseCIDR_entry raws)"
  by (induction raws arbitrary: nets) (auto split: option.splits sum.splits)

lemma parseCIDRs_length:
  assumes "parseCIDRs raws = Inr nets"
  shows "length nets = length (filter (\<lambda>raw. TrimSpace raw \<noteq> []) raws)"
proof -
  have "parseCIDR_entry raw \<noteq> None \<longleftrightarrow> TrimSpace raw \<noteq> []" for raw
    by (auto simp: parseCIDR_entry_def Let_def split: option.splits)
  then show ?thesis
    using arg_cong [OF parseCIDRs_entries [OF assms], of length] by (simp add: filter_map comp_def)
qed

definition network_text :: "IP \<times> nat option \<Rightarrow> string" where
  "network_text e = (case e of (a, None) \<Rightarrow> v4_String a | (a, Some n) \<Rightarrow> v4_String a @ ''/'' @ dec_digits n)"

definition network_bits :: "IP \<times> nat option \<Rightarrow> nat" where
  "network_bits e = (case snd e of None \<Rightarrow> 32 | Some n \<Rightarrow> n)"

definition v4_network :: "IP \<times> nat option \<Rightarrow> IPNet" where
  "v4_network e = \<lparr>netIP = and_bytes (fst e) (CIDRMask (network_bits e) 32), netMask = CIDRMask (network_bits e) 32\<rparr>"

lemma TrimSpace_id: "list_all (\<lambda>c. \<not> is_space c) s \<Longrightarrow> TrimSpace s = s"
  by (cases "s = []") (auto simp: TrimSpace_def list_all_iff intro!: TrimFunc_id)

lemma plain_chars:
  "is_digit c \<or> c = CHR ''.'' \<Longrightarrow> \<not> is_space c \<and> c \<noteq> CHR ''/'' \<and> c \<noteq> CHR '':''"
  by (auto simp: is_digit_def is_space_def char_code_def)

lemma network_text_chars:
  assumes "length a = 4"
  shows "list_all (\<lambda>c. \<not> is_space c) (network_text (a, n))"
    and "CHR ''/'' \<notin> set (v4_String a)" and "CHR '':'' \<notin> set (v4_String a)" and "v4_String a \<noteq> []"
proof -
  have *: "\<not> is_space c \<and> c \<noteq> CHR ''/'' \<and> c \<noteq> CHR '':''" if "c \<in> set (v4_String a)" for c
    using set_v4_String [OF assms that] by (rule plain_chars)
  then show "CHR ''/'' \<notin> set (v4_String a)" and "CHR '':'' \<notin> set (v4_String a)" by blast+
  have "\<not> is_space c" if "c \<in> set (dec_digits k)" for c k
    using dec_digits_digits [of k] that plain_chars by (auto simp: list_all_iff)
  with * show "list_all (\<lambda>c. \<not> is_space c) (network_text (a, n))"
    by (auto simp: network_text_def list_all_iff is_space_def [of "CHR ''/''"] char_code_def split: option.splits)
  show "v4_String a \<noteq> []" using ParseAddr_v4_String [OF assms] by (auto simp: v4_String_def)
qed

lemma parseCIDR_entry_network:
  assumes "length a = 4" and "network_bits (a, n) \<le> 32"
  shows "parseCIDR_entry (network_text (a, n)) = Some (Inr (v4_network (a, n)))"
proof (cases n)
  case None
  have "dec_digits 32 = ''32''" by code_simp
  then show ?thesis
    using network_text_chars [OF assms(1)] TrimSpace_id [OF network_text_chars(1) [OF assms(1), of n]]
      ParseCIDR_v4 [OF assms(1), of 32] None ParseIP_v4_String [OF assms(1)]
    by (simp add: parseCIDR_entry_def network_text_def v4_network_def network_bits_def Let_def)
next
  case (Some k)
  then show ?thesis
    using network_text_chars [OF assms(1)] TrimSpace_id [OF network_text_chars(1) [OF assms(1), of n]]
      ParseCIDR_v4 [OF assms(1), of k] assms(2)
    by (simp add: parseCIDR_entry_def network_text_def v4_network_def network_bits_def Let_def)
qed

lemma parseCIDRs_networks:
  "list_all (\<lambda>e. length (fst e) = 4 \<and> network_bits e \<le> 32) entries \<Longrightarrow>
   parseCIDRs (map network_text entries) = Inr (map v4_network entries)"
proof (induction entries)
  case (Cons e es)
  then show ?case using parseCIDR_entry_network [of "fst e" "snd e"] by simp
qed simp

lemma inNets_v4:
  assumes "list_all (\<lambda>e. length (fst e) = 4 \<and> network_bits e \<le> 32) entries"
  shows "inNets (Some ip) (map v4_network entries) \<longleftrightarrow>
    (\<exists>v4. To4 ip = Some v4 \<and> (\<exists>e \<in> set entries. \<forall>i < network_bits e. addr_bit v4 i = addr_bit (fst e) i))"
proof -
  have "IPNet_Contains (v4_network e) (case To4 ip of Some v4 \<Rightarrow> v4 | None \<Rightarrow> ip) \<longleftrightarrow>
      (\<exists>v4. To4 ip = Some v4 \<and> (\<forall>i < network_bits e. addr_bit v4 i = addr_bit (fst e) i))" if "e \<in> set entries" for e
    using that assms IPNet_Contains_v4 [of "fst e" "network_bits e" ip] IPNet_Contains_To4 [of "v4_network e" ip]
    by (auto simp: list_all_iff v4_network_def)
  then show ?thesis by (cases "To4 ip") (simp_all add: inNets_def list_ex_iff cong: bex_cong)
qed

lemma New_api_parsed:
  assumes "New_api randomToken now c = Inr s"
  shows "parseCIDRs (apAllowedCIDRs c) = Inr (allowedNets s)" and "parseCIDRs (apClientCIDRs c) = Inr (clientNets s)"
    and "parseCIDRs (apTrustedProxies c) = Inr (trustedNets s)" and "asCfg s = api_defaults randomToken c"
proof -
  have same: "apAllowedCIDRs (api_defaults randomToken c) = apAllowedCIDRs c" "apClientCIDRs (api_defaults randomToken c) = apClientCIDRs c"
    "apTrustedProxies (api_defaults randomToken c) = apTrustedProxies c"
    by (simp_all add: api_defaults_def Let_def)
  show "parseCIDRs (apAllowedCIDRs c) = Inr (allowedNets s)" and "parseCIDRs (apClientCIDRs c) = Inr (clientNets s)"
    and "parseCIDRs (apTrustedProxies c) = Inr (trustedNets s)" and "asCfg s = api_defaults randomToken c"
    using assms by (auto simp: New_api_def Let_def same split: sum.splits)
qed



lemma ParseCIDR_lengths: "ParseCIDR s = Some n \<Longrightarrow> length (netIP n) = length (netMask n) \<and> length (netIP n) \<in> {4, 16}"
  using length_ParseAddr by (fastforce simp: ParseCIDR_def split: option.splits prod.splits if_splits)

lemma parseCIDRs_lengths:
  assumes "parseCIDRs raws = Inr nets" and "n \<in> set nets"
  shows "length (netIP n) = length (netMask n) \<and> length (netIP n) \<in> {4, 16}"
proof -
  have "Some (Inr n) \<in> set (filter (\<lambda>e. e \<noteq> None) (map parseCIDR_entry raws))"
    unfolding parseCIDRs_entries [OF assms(1), symmetric] using assms(2) by simp
  then have "\<exists>raw. parseCIDR_entry raw = Some (Inr n)" by auto
  then obtain s where "ParseCIDR s = Some n"
    by (auto simp: parseCIDR_entry_def Let_def split: option.splits if_splits)
  then show ?thesis by (rule ParseCIDR_lengths)
qed

lemma length_parseIPFromAddr: "parseIPFromAddr addr = Some ip \<Longrightarrow> length ip = 4 \<or> length ip = 16"
  using length_ParseIP length_To4 by (fastforce simp: parseIPFromAddr_def Let_def split: option.splits)

lemma from_chain_hop:
  assumes "from_chain trusted xff = Some ip" shows "length ip = 16"
proof -
  have "ip \<in> set (List.map_filter forwarded_hop (Split xff (CHR '','')))"
    using assms by (auto simp: from_chain_def Let_def filter_eq_Cons_iff split: list.splits)
      (metis in_set_conv_decomp set_rev)
  then show ?thesis by (auto simp: map_filter_def forwarded_hop_def dest: length_ParseIP)
qed



section \<open>The generated token\<close>

text \<open>\<^verbatim>\<open>randomToken\<close>: sixteen random octets in hexadecimal, or the clock when the system has no random numbers.\<close>

definition hex_digit :: "nat \<Rightarrow> char" where
  "hex_digit n = ''0123456789abcdef'' ! n"

fun hex_number :: "nat \<Rightarrow> string" where
  "hex_number n = (if n < 16 then [hex_digit n] else hex_number (n div 16) @ [hex_digit (n mod 16)])"

declare hex_number.simps [simp del]

definition random_token :: "byte list option \<Rightarrow> instant \<Rightarrow> string" where
  "random_token rand now =
     (case rand of
        Some buf \<Rightarrow> concat (map (\<lambda>b. [hex_digit (unat b div 16), hex_digit (unat b mod 16)]) buf)
      | None \<Rightarrow> (if now < 0 then ''-'' else []) @ hex_number (nat \<bar>now\<bar>))"

text \<open>A generated token is never empty, and two different draws give two different tokens.\<close>

lemma hex_digit_inject: "a < 16 \<Longrightarrow> b < 16 \<Longrightarrow> hex_digit a = hex_digit b \<longleftrightarrow> a = b"
proof -
  have "distinct ''0123456789abcdef''" "length ''0123456789abcdef'' = 16" by code_simp+
  then show "a < 16 \<Longrightarrow> b < 16 \<Longrightarrow> hex_digit a = hex_digit b \<longleftrightarrow> a = b"
    unfolding hex_digit_def by (metis nth_eq_iff_index_eq)
qed

lemma random_token_nonempty: "(\<And>buf. rand = Some buf \<Longrightarrow> length buf = 16) \<Longrightarrow> random_token rand now \<noteq> []"
proof (cases rand)
  case None
  have "hex_number n \<noteq> []" for n by (subst hex_number.simps) simp
  with None show ?thesis by (simp add: random_token_def)
next
  case (Some buf)
  assume "\<And>buf. rand = Some buf \<Longrightarrow> length buf = 16"
  with Some show ?thesis by (cases buf) (simp_all add: random_token_def)
qed

lemma random_token_inject: "random_token (Some a) now = random_token (Some b) now' \<Longrightarrow> a = b"
proof (induction a arbitrary: b)
  case Nil
  then show ?case by (cases b) (simp_all add: random_token_def)
next
  case (Cons x a)
  then obtain y c where b: "b = y # c" by (cases b) (simp_all add: random_token_def)
  have small: "unat x < 256" "unat y < 256" using unsigned_less [of x] unsigned_less [of y] by simp_all
  then have "unat x div 16 = unat y div 16" "unat x mod 16 = unat y mod 16" "random_token (Some a) now = random_token (Some c) now'"
    using Cons.prems by (auto simp: b random_token_def hex_digit_inject)
  moreover from this have "unat x = unat y" by (metis div_mult_mod_eq)
  ultimately show ?case using Cons.IH b by (simp add: word_unat_eq_iff)
qed

section \<open>Cross-origin answers\<close>

lemma cors_scan_cases:
  "v \<noteq> [] \<Longrightarrow> cors_scan origin xs [] = v \<Longrightarrow> v = ''*'' \<and> ''*'' \<in> set xs \<or> v = origin \<and> (\<exists>x \<in> set xs. EqualFold x origin)"
proof (induction xs)
  case (Cons x xs)
  show ?case
  proof (cases "x = ''*'' \<or> EqualFold x origin")
    case True
    then show ?thesis using Cons.prems by (simp split: if_splits)
  next
    case False
    then have "cors_scan origin xs [] = v" using Cons.prems by simp
    from Cons.IH [OF Cons.prems(1) this] show ?thesis by (metis list.set_intros(2))
  qed
qed simp

lemma applyCORS_configured:
  assumes "applyCORS s r = Some v" and "apAllowedOrigins (asCfg s) \<noteq> []"
  shows "v = ''*'' \<and> ''*'' \<in> set (apAllowedOrigins (asCfg s))
    \<or> v = Get (rHeaders r) ''Origin'' \<and> (\<exists>x \<in> set (apAllowedOrigins (asCfg s)). EqualFold x v)"
proof -
  obtain x xs where cfg: "apAllowedOrigins (asCfg s) = x # xs" using assms(2) by (cases "apAllowedOrigins (asCfg s)") auto
  have "cors_scan o' (x # xs) ''*'' = cors_scan o' (x # xs) []" for o' by simp
  then have "v \<noteq> []" "cors_scan (Get (rHeaders r) ''Origin'') (apAllowedOrigins (asCfg s)) [] = v"
    using assms(1) by (simp_all only: applyCORS_def Let_def cfg split: if_splits) simp_all
  then show ?thesis using cors_scan_cases [of v] by metis
qed

end
