(* ===== verification/Api_Query.thy ===== *)
theory Api_Query
  imports Go_Prelude
begin

text \<open>
  \<^verbatim>\<open>core/api/api.go\<close>, the parameters of a query: bounded integers, and the ranges and steps of a time
  series with their spellings. Durations are nanoseconds in 64 bits, so multiplying by a unit wraps.
  \<^verbatim>\<open>time.ParseDuration\<close> of the Go library is part of the model, with its fractions exact.
\<close>

section \<open>time.ParseDuration\<close>

definition second_ns :: duration where "second_ns = 1000000000"
definition minute_ns :: duration where "minute_ns = 60 * second_ns"
definition hour_ns :: duration where "hour_ns = 60 * minute_ns"
definition day_ns :: duration where "day_ns = 24 * hour_ns"

definition unitMap :: "(string \<times> int) list" where
  "unitMap = [(''ns'', 1), (''us'', 1000), ([CHR 0xC2, CHR 0xB5, CHR ''s''], 1000), ([CHR 0xCE, CHR 0xBC, CHR ''s''], 1000),
     (''ms'', 1000000), (''s'', second_ns), (''m'', minute_ns), (''h'', hour_ns)]"

definition unit_char :: "char \<Rightarrow> bool" where
  "unit_char c \<longleftrightarrow> \<not> (c = CHR ''.'' \<or> is_digit c)"

text \<open>One number with its unit: the value in nanoseconds and the rest.\<close>

definition duration_part :: "string \<Rightarrow> (int \<times> string) option" where
  "duration_part s =
     (if s = [] \<or> unit_char (hd s) then None
      else
        let whole = takeWhile is_digit s; s1 = dropWhile is_digit s;
            point = (s1 \<noteq> [] \<and> hd s1 = CHR ''.'');
            frac = (if point then takeWhile is_digit (tl s1) else []);
            s2 = (if point then dropWhile is_digit (tl s1) else s1);
            u = takeWhile unit_char s2; rest = dropWhile unit_char s2
        in if whole = [] \<and> frac = [] then None
           else case map_of unitMap u of
                  None \<Rightarrow> None
                | Some unit \<Rightarrow>
                    let v = int (dec_value whole) * unit + (int (dec_value frac) * unit) div 10 ^ length frac
                    in if 2 ^ 63 < v then None else Some (v, rest))"

lemma duration_part_shorter: "duration_part s = Some (v, rest) \<Longrightarrow> length rest < length s"
proof -
  assume a: "duration_part s = Some (v, rest)"
  define s1 where "s1 = dropWhile is_digit s"
  define s2 where "s2 = (if s1 \<noteq> [] \<and> hd s1 = CHR ''.'' then dropWhile is_digit (tl s1) else s1)"
  have r: "rest = dropWhile unit_char s2" "map_of unitMap (takeWhile unit_char s2) \<noteq> None"
    using a by (auto simp: duration_part_def Let_def s1_def s2_def split: if_splits option.splits)
  have "takeWhile unit_char s2 \<noteq> []" using r(2) by (auto simp: unitMap_def)
  then have "length rest < length s2"
    unfolding r(1) using takeWhile_dropWhile_id [of unit_char s2] by (metis length_append length_greater_0_conv less_add_same_cancel2)
  moreover have "length s2 \<le> length s1" by (cases s1) (auto simp: s2_def intro: le_SucI length_dropWhile_le)
  moreover have "length s1 \<le> length s" by (simp add: s1_def length_dropWhile_le)
  ultimately show ?thesis by simp
qed

function duration_parts :: "int \<Rightarrow> string \<Rightarrow> int option" where
  "duration_parts d s =
     (if s = [] then Some d
      else case duration_part s of
             None \<Rightarrow> None
           | Some (v, rest) \<Rightarrow> if 2 ^ 63 < d + v then None else duration_parts (d + v) rest)"
  by pat_completeness auto
termination by (relation "measure (\<lambda>(d, s). length s)") (auto dest: duration_part_shorter)

declare duration_parts.simps [simp del]

definition ParseDuration :: "string \<Rightarrow> duration option" where
  "ParseDuration s0 =
     (let neg = HasPrefix s0 ''-'';
          s = (if neg \<or> HasPrefix s0 ''+'' then drop 1 s0 else s0)
      in if s = ''0'' then Some 0
         else if s = [] then None
         else case duration_parts 0 s of
                None \<Rightarrow> None
              | Some d \<Rightarrow> if neg then Some (- d) else if 2 ^ 63 - 1 < d then None else Some d)"

section \<open>Parameters\<close>

definition intParam :: "string \<Rightarrow> int \<Rightarrow> int \<Rightarrow> int \<Rightarrow> int" where
  "intParam raw def lo hi =
     (if raw = [] then def
      else case Atoi raw of
             None \<Rightarrow> def
           | Some v \<Rightarrow> if v < lo then lo else if v > hi then hi else v)"

definition duration_suffix :: "string \<Rightarrow> (duration \<times> string) option" where
  "duration_suffix s =
     (if HasSuffix s ''d'' then Some (day_ns, TrimSuffix s ''d'')
      else if HasSuffix s ''h'' then Some (hour_ns, TrimSuffix s ''h'')
      else if HasSuffix s ''m'' then Some (minute_ns, TrimSuffix s ''m'')
      else if HasSuffix s ''s'' then Some (second_ns, TrimSuffix s ''s'')
      else None)"

definition parseDuration :: "string \<Rightarrow> duration option" where
  "parseDuration raw =
     (let s = TrimSpace (ToLower raw) in
      if s = [] then None
      else case Atoi s of
             Some v \<Rightarrow> Some (wrap64 (v * second_ns))
           | None \<Rightarrow>
               (case duration_suffix s of
                  None \<Rightarrow> ParseDuration s
                | Some (unit, body) \<Rightarrow> map_option (\<lambda>v. wrap64 (v * unit)) (Atoi body)))"

definition year_ns :: duration where "year_ns = 365 * 24 * hour_ns"

definition parseSpan :: "string \<Rightarrow> duration \<Rightarrow> duration" where
  "parseSpan raw def =
     (if raw = [] then def
      else case parseDuration raw of
             None \<Rightarrow> def
           | Some d \<Rightarrow> if d \<le> 0 then def else if d > year_ns then year_ns else d)"

fun step_for :: "duration list \<Rightarrow> duration \<Rightarrow> duration" where
  "step_for [] timespan = day_ns"
| "step_for (s # steps) timespan = (if timespan sdiv s \<le> 240 then s else step_for steps timespan)"

definition default_steps :: "duration list" where
  "default_steps = [minute_ns, 5 * minute_ns, 15 * minute_ns, hour_ns, 6 * hour_ns, day_ns]"

definition parseStep :: "string \<Rightarrow> duration \<Rightarrow> duration" where
  "parseStep raw timespan =
     (case (if raw = [] then None else parseDuration raw) of
        Some d \<Rightarrow> if d > 0 then d else step_for default_steps timespan
      | None \<Rightarrow> step_for default_steps timespan)"

section \<open>Lemmas\<close>

lemma duration_part_unit:
  assumes "duration_part s = Some (v, [])"
  shows "last s \<in> {CHR ''s'', CHR ''m'', CHR ''h''}"
proof -
  define s1 where "s1 = dropWhile is_digit s"
  define s2 where "s2 = (if s1 \<noteq> [] \<and> hd s1 = CHR ''.'' then dropWhile is_digit (tl s1) else s1)"
  have r: "dropWhile unit_char s2 = []" "map_of unitMap (takeWhile unit_char s2) \<noteq> None"
    using assms by (auto simp: duration_part_def Let_def s1_def s2_def split: if_splits option.splits)
  have "s2 = takeWhile unit_char s2" using r(1) by (metis append_Nil2 takeWhile_dropWhile_id)
  then obtain d where "map_of unitMap s2 = Some d" using r(2) by auto
  then have u: "s2 \<noteq> []" "last s2 \<in> {CHR ''s'', CHR ''m'', CHR ''h''}" by (auto simp: unitMap_def split: if_splits)
  have "last s1 = last s2"
  proof (cases "s1 \<noteq> [] \<and> hd s1 = CHR ''.''")
    case True
    then have "s2 = dropWhile is_digit (tl s1)" by (simp add: s2_def)
    then show ?thesis
      using u(1) True takeWhile_dropWhile_id [of is_digit "tl s1"] by (metis last_appendR last_tl append_is_Nil_conv)
  qed (auto simp: s2_def)
  moreover have "s1 \<noteq> []" using u(1) by (auto simp: s2_def split: if_splits)
  then have "last s = last s1" unfolding s1_def by (metis last_appendR takeWhile_dropWhile_id)
  ultimately show ?thesis using u(2) by simp
qed

lemma duration_part_rest: "duration_part s = Some (v, rest) \<Longrightarrow> rest \<noteq> [] \<Longrightarrow> last s = last rest"
proof -
  assume a: "duration_part s = Some (v, rest)" "rest \<noteq> []"
  have suf: "suffix (dropWhile p (dropWhile q (tl (dropWhile r s)))) s" "suffix (dropWhile p (dropWhile r s)) s" for p q r
    by (meson suffix_dropWhile suffix_tl suffix_order.trans)+
  have "suffix rest s" using a(1) by (auto simp: duration_part_def Let_def suf split: if_splits option.splits)
  then show ?thesis using a(2) by (auto simp: suffix_def)
qed

lemma duration_parts_unit: "duration_parts d s = Some r \<Longrightarrow> s \<noteq> [] \<Longrightarrow> last s \<in> {CHR ''s'', CHR ''m'', CHR ''h''}"
proof (induction d s rule: duration_parts.induct)
  case (1 d s)
  obtain v rest where p: "duration_part s = Some (v, rest)" "duration_parts (d + v) rest = Some r" "\<not> 2 ^ 63 < d + v"
    using 1(2,3) by (auto simp: duration_parts.simps [of d s] split: option.splits if_splits)
  show ?case
  proof (cases "rest = []")
    case True
    then show ?thesis using duration_part_unit p(1) by simp
  next
    case False
    then show ?thesis using 1(1) [OF 1(3) p(1) refl p(3) p(2)] duration_part_rest [OF p(1)] by simp
  qed
qed

lemma HasSuffix_last: "HasSuffix s [c] \<longleftrightarrow> s \<noteq> [] \<and> last s = c"
  by (cases s rule: rev_cases) (auto simp: HasSuffix_def)

text \<open>A string without one of the four suffixes is no Go duration either, except a zero.\<close>

lemma ParseDuration_no_suffix:
  assumes "duration_suffix s = None" "Atoi s = None"
  shows "ParseDuration s = None"
proof (rule ccontr)
  assume a: "ParseDuration s \<noteq> None"
  define b where "b = (if HasPrefix s ''-'' \<or> HasPrefix s ''+'' then drop 1 s else s)"
  have "b \<noteq> ''0''"
  proof
    assume "b = ''0''"
    then have "parse_digits b = Some 0" by (simp add: parse_digits_def is_digit_def char_code_def dec_value_def digit_val_def)
    then show False using assms(2) by (simp add: Atoi_def Let_def b_def split: if_splits)
  qed
  then obtain r where "duration_parts 0 b = Some r" "b \<noteq> []"
    using a by (auto simp: ParseDuration_def Let_def b_def [symmetric] split: option.splits if_splits)
  then have "last b \<in> {CHR ''s'', CHR ''m'', CHR ''h''}" by (rule duration_parts_unit)
  moreover have "last b = last s" "s \<noteq> []" using \<open>b \<noteq> []\<close> by (auto simp: b_def last_drop split: if_splits)
  ultimately show False using assms(1) by (auto simp: duration_suffix_def HasSuffix_last split: if_splits)
qed

section \<open>The properties\<close>

definition unit_letters :: "(char \<times> duration) list" where
  "unit_letters = [(CHR ''d'', day_ns), (CHR ''h'', hour_ns), (CHR ''m'', minute_ns), (CHR ''s'', second_ns)]"

lemma Atoi_last:
  assumes "Atoi s = Some v"
  shows "s \<noteq> []" "is_digit (last s)"
proof -
  define b where "b = (if HasPrefix s ''-'' \<or> HasPrefix s ''+'' then drop 1 s else s)"
  have b: "b \<noteq> []" "list_all is_digit b"
    using assms by (auto simp: Atoi_def Let_def b_def [symmetric] parse_digits_def split: option.splits if_splits)
  moreover have "last b = last s" using b(1) by (auto simp: b_def last_drop split: if_splits)
  ultimately show "s \<noteq> []" "is_digit (last s)" using last_in_set [OF b(1)] by (auto simp: b_def list_all_iff split: if_splits)
qed

lemma duration_suffix_snoc: "duration_suffix (body @ [c]) = map_option (\<lambda>unit. (unit, body)) (map_of unit_letters c)"
  by (simp add: duration_suffix_def unit_letters_def HasSuffix_last TrimSuffix_def)

lemma unit_letter_not_digit: "map_of unit_letters c \<noteq> None \<Longrightarrow> \<not> is_digit c"
  by (simp add: unit_letters_def split: if_splits) (simp_all add: is_digit_def char_code_def)

text \<open>The spellings \<^verbatim>\<open>parseDuration\<close> accepts: a number, alone or followed by one of the letters d, h, m and s,
  in any case and with spaces around it, and no other. The result is the product with the unit,
  reduced to 64 bits.\<close>

theorem parseDuration_forms:
  "parseDuration raw = Some d \<longleftrightarrow>
     (\<exists>v. Atoi (TrimSpace (ToLower raw)) = Some v \<and> d = wrap64 (v * second_ns))
     \<or> (\<exists>body c unit v. TrimSpace (ToLower raw) = body @ [c] \<and> map_of unit_letters c = Some unit \<and> Atoi body = Some v
          \<and> d = wrap64 (v * unit))"
proof -
  define s where "s = TrimSpace (ToLower raw)"
  show ?thesis
  proof (cases "Atoi s")
    case (Some v)
    have "\<not> (s = body @ [c] \<and> map_of unit_letters c = Some unit)" for body c unit
      using Atoi_last(2) [OF Some] unit_letter_not_digit [of c] by auto
    then show ?thesis using Some Atoi_last(1) [OF Some] by (auto simp: parseDuration_def s_def [symmetric])
  next
    case None
    have eq: "parseDuration raw = (if s = [] then None else case duration_suffix s of
        None \<Rightarrow> None | Some (unit, body) \<Rightarrow> map_option (\<lambda>v. wrap64 (v * unit)) (Atoi body))"
      using None ParseDuration_no_suffix [OF _ None] by (auto simp: parseDuration_def s_def [symmetric] Let_def split: option.splits)
    show ?thesis
    proof (cases s rule: rev_cases)
      case Nil
      then show ?thesis using None eq by (simp add: s_def [symmetric])
    next
      case (snoc body c)
      then show ?thesis
        using None unfolding eq by (cases "map_of unit_letters c") (auto simp: s_def [symmetric] duration_suffix_snoc)
    qed
  qed
qed

text \<open>C38. What a query can ask for is bounded: an integer parameter stays within its bounds, the range of a
  series is positive and at most a year, its step is positive, and the step chosen by default divides
  the range into at most 365 intervals, and into at most 240 when it is not a day.\<close>

theorem query_bounds:
  assumes "lo \<le> def" and "def \<le> hi" and "0 < dspan" and "dspan \<le> year_ns"
  shows "lo \<le> intParam raw def lo hi \<and> intParam raw def lo hi \<le> hi
    \<and> 0 < parseSpan raw dspan \<and> parseSpan raw dspan \<le> year_ns
    \<and> 0 < parseStep raw' (parseSpan raw dspan)
    \<and> parseSpan raw dspan div parseStep [] (parseSpan raw dspan) \<le> 365
    \<and> (parseStep [] (parseSpan raw dspan) \<noteq> day_ns \<longrightarrow> parseSpan raw dspan div parseStep [] (parseSpan raw dspan) \<le> 240)"
proof -
  note ns = year_ns_def day_ns_def hour_ns_def minute_ns_def second_ns_def
  have i: "lo \<le> intParam raw def lo hi \<and> intParam raw def lo hi \<le> hi"
    using assms(1,2) by (auto simp: intParam_def split: option.splits)
  define r where "r = parseSpan raw dspan"
  have r: "0 < r" "r \<le> year_ns" using assms(3,4) by (auto simp: r_def parseSpan_def ns split: option.splits)
  have pos: "0 < step_for steps x" if "\<forall>s \<in> set steps. 0 < s" for steps x
    using that by (induction steps) (auto simp: ns)
  have "0 < step_for default_steps r" by (rule pos) (simp add: default_steps_def ns)
  then have st: "0 < parseStep raw' r" by (auto simp: parseStep_def split: option.splits)
  have good: "r div step_for steps r \<le> 240 \<or> step_for steps r = day_ns" if "\<forall>s \<in> set steps. 0 < s" for steps
    using that r(1) by (induction steps) auto
  have "r div day_ns \<le> 365" using r by (simp add: ns)
  then have "r div parseStep [] r \<le> 365 \<and> (parseStep [] r \<noteq> day_ns \<longrightarrow> r div parseStep [] r \<le> 240)"
    using good [of default_steps] by (auto simp: parseStep_def default_steps_def ns)
  then show ?thesis using i r st by (simp add: r_def)
qed

theorem query_bounds_witness:
  "parseSpan ''1h'' hour_ns div parseStep [] (parseSpan ''1h'' hour_ns) \<le> 365 \<and> intParam ''5000'' 100 1 1000 \<le> 1000"
  using query_bounds [of 1 100 1000 hour_ns "''1h''"] query_bounds [of 1 100 1000 hour_ns "''5000''"]
  by (simp add: year_ns_def hour_ns_def minute_ns_def second_ns_def)

lemma trimmed_simps:
  "TrimSpace (ToLower ''213504d'') = ''213504d''" "TrimSpace (ToLower ''1h30m'') = ''1h30m''"
  by code_simp+

text \<open>Two inputs on which the documentation of the parameters and the code disagree: a range of 213504 days
  is not clamped to a year, since the product wraps around to less than half an hour, and the Go
  duration string \<^verbatim>\<open>1h30m\<close>, which \<^verbatim>\<open>time.ParseDuration\<close> accepts, is refused.\<close>

theorem parseDuration_surprises:
  "parseSpan ''213504d'' hour_ns = 1526290448384 \<and> parseDuration ''1h30m'' = None \<and> ParseDuration ''1h30m'' = Some (90 * minute_ns)"
proof -
  have a: "Atoi ''213504d'' = None" "Atoi ''213504'' = Some 213504" "Atoi ''1h30m'' = None" "Atoi ''1h30'' = None"
    by (simp_all add: Atoi_def HasPrefix_def parse_digits_def is_digit_def char_code_def dec_value_def digit_val_def)
  have "parseDuration ''213504d'' = Some 1526290448384"
    using duration_suffix_snoc [of "''213504''" "CHR ''d''"]
    unfolding parseDuration_def trimmed_simps by (simp add: a unit_letters_def day_ns_def hour_ns_def minute_ns_def second_ns_def wrap64_def)
  then have "parseSpan ''213504d'' hour_ns = 1526290448384"
    by (simp add: parseSpan_def year_ns_def hour_ns_def minute_ns_def second_ns_def)
  moreover have "parseDuration ''1h30m'' = None"
    using duration_suffix_snoc [of "''1h30''" "CHR ''m''"]
    unfolding parseDuration_def trimmed_simps by (simp add: a unit_letters_def)
  moreover have "ParseDuration ''1h30m'' = Some (90 * minute_ns)"
    by (simp add: ParseDuration_def HasPrefix_def duration_parts.simps duration_part_def unit_char_def is_digit_def char_code_def
        unitMap_def dec_value_def digit_val_def hour_ns_def minute_ns_def second_ns_def)
  ultimately show ?thesis by blast
qed

end
