(* ===== verification/Api_Server.thy ===== *)
theory Api_Server
  imports Api_Access Api_Query Stats_Persist Stats_Views
begin

text \<open>
  \<^verbatim>\<open>core/api/types.go\<close> and the handlers of \<^verbatim>\<open>core/api/api.go\<close>: the payloads, one function for each endpoint, and
  \<open>serve\<close>, which is the multiplexer with the gate of \<open>Api_Access\<close> in front of them.

  A handler gets the collector of \<open>core/stats\<close> and returns it with the response, because some readings rotate the
  history or sample the speed of a session. The clock is read once for a request. What the engine reports
  (\<^verbatim>\<open>InfoProvider\<close>) is an argument, ratios are rational numbers, and a payload is the record that is encoded, not its
  JSON text. The page of the dashboard and the runtime profiles are constructors without content.
\<close>

section \<open>Payloads\<close>

record Listeners =
  lDNS :: string
  lDoH :: string
  lDoT :: string
  lSocks5 :: string
  lHTTP :: string
  lAPI :: string

record RouterInfo =
  riDirectDomains :: nat
  riProxyDomains :: nat
  riDirectCIDRs :: nat
  riGeoIP :: bool
  riSkipCountry :: string

record NodeInfo =
  niName :: string
  niServer :: string
  niProto :: string
  niPriority :: int
  niBandwidth :: int
  niRTTMs :: int
  niAlive :: bool
  niActive :: bool
  niActiveConns :: int
  niConns :: int
  niUpload :: int
  niDownload :: int

record HistoryInfo =
  hBucketSeconds :: int
  hRetentionBucket :: int
  hOldest :: int
  hNewest :: int
  hPersistFile :: string

record SystemInfo =
  siVersion :: string
  siRunning :: bool
  siIPv6 :: bool
  siListeners :: Listeners
  siRouter :: RouterInfo
  siNodes :: "NodeInfo list"

definition zero_info :: SystemInfo where
  "zero_info = \<lparr>siVersion = [], siRunning = False, siIPv6 = False,
     siListeners = \<lparr>lDNS = [], lDoH = [], lDoT = [], lSocks5 = [], lHTTP = [], lAPI = []\<rparr>,
     siRouter = \<lparr>riDirectDomains = 0, riProxyDomains = 0, riDirectCIDRs = 0, riGeoIP = False, riSkipCountry = []\<rparr>,
     siNodes = []\<rparr>"

record StatusResponse =
  stInfo :: SystemInfo
  stNow :: int
  stUptime :: int
  stStarted :: int
  stHistory :: HistoryInfo

record ConnectionsResponse =
  cnNow :: int
  cnCount :: nat
  cnConnections :: "SessionView list"

record TrafficResponse =
  tfRange :: string
  tfStepSecond :: int
  tfFrom :: int
  tfTo :: int
  tfPoints :: "SeriesPoint list"

record DomainsResponse =
  dmNow :: int
  dmCount :: nat
  dmDomains :: "DomainStat list"

record RoutesResponse =
  rtNow :: int
  rtTotals :: Counters
  rtDirect :: Counters
  rtProxy :: Counters
  rtDirectConnRatio :: rat
  rtProxyConnRatio :: rat
  rtDirectBytesRatio :: rat
  rtProxyBytesRatio :: rat
  rtTopDirectDomains :: "DomainStat list"
  rtTopProxyDomains :: "DomainStat list"

record NodesResponse =
  nrNow :: int
  nrCount :: nat
  nrNodes :: "NodeInfo list"

record ErrorsResponse =
  erNow :: int
  erCount :: nat
  erErrors :: "ErrorEntry list"

record SnapshotResponse =
  snStatus :: StatusResponse
  snOverview :: Overview_t
  snTraffic :: TrafficResponse
  snDomains :: "DomainStat list"
  snRoutes :: RoutesResponse
  snNodes :: "NodeInfo list"
  snErrors :: "ErrorEntry list"
  snConnections :: "SessionView list"
  snDNS :: DNSStat
  snGeneratedAt :: instant

datatype payload =
    NoBody
  | ErrorBody string int
  | HealthBody string int int
  | DashboardPage
  | StatusBody StatusResponse
  | OverviewBody Overview_t string
  | ConnectionsBody ConnectionsResponse
  | TrafficBody TrafficResponse
  | DomainsBody DomainsResponse
  | RoutesBody RoutesResponse
  | DNSBody DNSStat
  | ErrorsBody ErrorsResponse
  | NodesBody NodesResponse
  | SnapshotBody SnapshotResponse
  | ResetBody int
  | ProfileBody string

section \<open>Dependencies\<close>

text \<open>The orders in which \<^verbatim>\<open>range\<close> loops visit the maps of the collector.\<close>

record range_orders =
  roDomains :: order
  roNodes :: "NodeStat list \<Rightarrow> NodeStat list"
  roSessions :: "Session list \<Rightarrow> Session list"

record Deps =
  dpVersion :: string
  dpInfo :: "SystemInfo option"

definition MaxLimit :: int where "MaxLimit = 1000"
definition MaxDomainLimit :: int where "MaxDomainLimit = 500"
definition MaxErrorLimit :: int where "MaxErrorLimit = 500"
definition MaxPoints :: nat where "MaxPoints = 720"

definition api_info :: "Deps \<Rightarrow> SystemInfo" where
  "api_info dp = (case dpInfo dp of None \<Rightarrow> zero_info\<lparr>siVersion := dpVersion dp\<rparr> | Some info \<Rightarrow> info)"

section \<open>Handlers\<close>

definition writeError :: "nat \<Rightarrow> string \<Rightarrow> instant \<Rightarrow> nat \<times> payload" where
  "writeError code msg now = (code, ErrorBody msg (Unix now))"

definition handleNotFound :: "api_request \<Rightarrow> instant \<Rightarrow> nat \<times> payload" where
  "handleNotFound r now = writeError 404 (''unknown endpoint '' @ rPath r) now"

definition handleHealth :: "Deps \<Rightarrow> api_server \<Rightarrow> instant \<Rightarrow> nat \<times> payload" where
  "handleHealth dp s now = (200, HealthBody (dpVersion dp) (Unix now) ((now - asStart s) sdiv second_ns))"

definition handleDashboard :: "api_request \<Rightarrow> instant \<Rightarrow> nat \<times> payload" where
  "handleDashboard r now =
     (if rMethod r \<noteq> ''GET'' \<and> rMethod r \<noteq> ''HEAD'' then writeError 405 (''method '' @ rMethod r @ '' not allowed'') now
      else (200, DashboardPage))"

text \<open>The traffic of a node, by name; a later row of the same name would win.\<close>

definition merge_traffic :: "NodeStat list \<Rightarrow> NodeInfo list \<Rightarrow> NodeInfo list" where
  "merge_traffic traffic infos =
     (let byName = map_of (rev (map (\<lambda>n. (nName n, n)) traffic)) in
      map (\<lambda>ni. case byName (niName ni) of
                  None \<Rightarrow> ni
                | Some t \<Rightarrow> ni\<lparr>niConns := nConns t, niUpload := nUpload t, niDownload := nDownload t\<rparr>) infos)"

definition history_info :: "Collector \<Rightarrow> instant \<Rightarrow> HistoryInfo" where
  "history_info c now =
     (let g = cfg c; (oldest, newest) = HistoryWindow c now in
      \<lparr>hBucketSeconds = BucketInterval g sdiv second_ns, hRetentionBucket = HistoryMinutes g, hOldest = Unix oldest,
       hNewest = Unix newest, hPersistFile = File g\<rparr>)"

definition handleStatus :: "range_orders \<Rightarrow> Deps \<Rightarrow> instant \<Rightarrow> Collector \<Rightarrow> StatusResponse" where
  "handleStatus ro dp now c =
     (let info = api_info dp;
          info = (if siVersion info = [] then info\<lparr>siVersion := dpVersion dp\<rparr> else info);
          info = info\<lparr>siNodes := merge_traffic (Nodes (roNodes ro) c) (siNodes info)\<rparr>;
          started = StartTime c
      in \<lparr>stInfo = info, stNow = Unix now, stUptime = (now - started) sdiv second_ns, stStarted = Unix started,
          stHistory = history_info c now\<rparr>)"

definition handleOverview :: "range_orders \<Rightarrow> instant \<Rightarrow> Collector \<Rightarrow> Overview_t \<times> Collector" where
  "handleOverview ro now c = Overview (roDomains ro) c now"

definition handleConnections ::
  "range_orders \<Rightarrow> (string \<times> string) list \<Rightarrow> instant \<Rightarrow> Collector \<Rightarrow> ConnectionsResponse \<times> Collector" where
  "handleConnections ro q now c =
     (let opt = \<lparr>aLimit = intParam (Get q ''limit'') 100 1 MaxLimit, aProto = Get q ''proto'', aDecision = Get q ''decision'',
                 aHost = Get q ''host''\<rparr>;
          (conns, c') = ActiveSessions (roSessions ro) c now opt
      in (\<lparr>cnNow = Unix now, cnCount = length conns, cnConnections = conns\<rparr>, c'))"

definition newest_points :: "SeriesPoint list \<Rightarrow> SeriesPoint list" where
  "newest_points points = (if MaxPoints < length points then drop (length points - MaxPoints) points else points)"

definition traffic_response :: "duration \<Rightarrow> string \<Rightarrow> string \<Rightarrow> instant \<Rightarrow> Collector \<Rightarrow> TrafficResponse \<times> Collector" where
  "traffic_response def rangeText stepText now c =
     (let spn = parseSpan rangeText def;
          step = parseStep stepText spn;
          (points, c') = Series c now (now - spn) step
      in (\<lparr>tfRange = Itoa (spn sdiv second_ns) @ ''s'', tfStepSecond = step sdiv second_ns, tfFrom = Unix (now - spn),
           tfTo = Unix now, tfPoints = newest_points points\<rparr>, c'))"

definition handleTraffic :: "(string \<times> string) list \<Rightarrow> instant \<Rightarrow> Collector \<Rightarrow> TrafficResponse \<times> Collector" where
  "handleTraffic q now c = traffic_response hour_ns (Get q ''range'') (Get q ''step'') now c"

definition handleDomains :: "range_orders \<Rightarrow> (string \<times> string) list \<Rightarrow> instant \<Rightarrow> Collector \<Rightarrow> DomainsResponse" where
  "handleDomains ro q now c =
     (let limit = intParam (Get q ''limit'') 50 1 MaxDomainLimit;
          ord = Get q ''order'';
          ord = (if ord \<noteq> ''conns'' \<and> ord \<noteq> ''bytes'' then ''bytes'' else ord);
          ds = Domains (roDomains ro) c limit ord
      in \<lparr>dmNow = Unix now, dmCount = length ds, dmDomains = ds\<rparr>)"

definition ratio :: "int \<Rightarrow> int \<Rightarrow> rat" where
  "ratio part whole = (if 0 < whole then of_int part / of_int whole else 0)"

definition routes_response :: "range_orders \<Rightarrow> int \<Rightarrow> Overview_t \<Rightarrow> instant \<Rightarrow> Collector \<Rightarrow> RoutesResponse" where
  "routes_response ro topN ov now c =
     (let conns = cConns (oDirect ov) + cConns (oProxy ov);
          total = Counters_Total (oDirect ov) + Counters_Total (oProxy ov)
      in \<lparr>rtNow = Unix now, rtTotals = oTotals ov, rtDirect = oDirect ov, rtProxy = oProxy ov,
          rtDirectConnRatio = ratio (cConns (oDirect ov)) conns, rtProxyConnRatio = ratio (cConns (oProxy ov)) conns,
          rtDirectBytesRatio = ratio (Counters_Total (oDirect ov)) total,
          rtProxyBytesRatio = ratio (Counters_Total (oProxy ov)) total,
          rtTopDirectDomains = TopDomainsByDecision (roDomains ro) c topN DecisionDirect ''bytes'',
          rtTopProxyDomains = TopDomainsByDecision (roDomains ro) c topN DecisionProxy ''bytes''\<rparr>)"

definition handleRoutes :: "range_orders \<Rightarrow> (string \<times> string) list \<Rightarrow> instant \<Rightarrow> Collector \<Rightarrow> RoutesResponse \<times> Collector" where
  "handleRoutes ro q now c =
     (let topN = intParam (Get q ''limit'') 10 1 MaxDomainLimit;
          (ov, c') = Overview (roDomains ro) c now
      in (routes_response ro topN ov now c', c'))"

definition handleDNS :: "range_orders \<Rightarrow> (string \<times> string) list \<Rightarrow> Collector \<Rightarrow> DNSStat" where
  "handleDNS ro q c = DNSStats (roDomains ro) c (intParam (Get q ''limit'') 20 1 MaxDomainLimit)"

definition handleErrors :: "(string \<times> string) list \<Rightarrow> instant \<Rightarrow> Collector \<Rightarrow> ErrorsResponse" where
  "handleErrors q now c =
     (let limit = nat (intParam (Get q ''limit'') 100 1 MaxErrorLimit);
          scope = ToLower (Get q ''scope'');
          all = Errors c DefaultErrorLimit;
          all = (if scope \<noteq> [] then filter (\<lambda>e. EqualFold (eScope e) scope) all else all);
          all = (if limit < length all then drop (length all - limit) all else all)
      in \<lparr>erNow = Unix now, erCount = length all, erErrors = all\<rparr>)"

definition handleNodes :: "range_orders \<Rightarrow> Deps \<Rightarrow> instant \<Rightarrow> Collector \<Rightarrow> NodesResponse" where
  "handleNodes ro dp now c =
     (let ns = merge_traffic (Nodes (roNodes ro) c) (siNodes (api_info dp))
      in \<lparr>nrNow = Unix now, nrCount = length ns, nrNodes = ns\<rparr>)"

definition snapshot_response ::
  "range_orders \<Rightarrow> Deps \<Rightarrow> instant \<Rightarrow> TrafficResponse \<Rightarrow> Overview_t \<Rightarrow> SessionView list \<Rightarrow> Collector \<Rightarrow> SnapshotResponse" where
  "snapshot_response ro dp now traffic ov conns c =
     (let info = api_info dp;
          started = StartTime c
      in \<lparr>snStatus = \<lparr>stInfo = info, stNow = Unix now, stUptime = (now - started) sdiv second_ns, stStarted = Unix started,
            stHistory = history_info c now\<rparr>,
          snOverview = ov, snTraffic = traffic, snDomains = Domains (roDomains ro) c 200 ''bytes'',
          snRoutes = routes_response ro 20 ov now c, snNodes = siNodes info, snErrors = Errors c 100, snConnections = conns,
          snDNS = DNSStats (roDomains ro) c 50, snGeneratedAt = now\<rparr>)"

definition handleSnapshot ::
  "range_orders \<Rightarrow> Deps \<Rightarrow> (string \<times> string) list \<Rightarrow> instant \<Rightarrow> Collector \<Rightarrow> SnapshotResponse \<times> Collector" where
  "handleSnapshot ro dp q now c =
     (let (traffic, c) = traffic_response (24 * hour_ns) (Get q ''range'') (Get q ''step'') now c;
          (ov, c) = Overview (roDomains ro) c now;
          (conns, c) = ActiveSessions (roSessions ro) c now \<lparr>aLimit = 200, aProto = [], aDecision = [], aHost = []\<rparr>
      in (snapshot_response ro dp now traffic ov conns c, c))"

definition handleReset :: "instant \<Rightarrow> Collector \<Rightarrow> payload \<times> Collector" where
  "handleReset now c = (ResetBody (Unix now), Reset c now)"

section \<open>Serving a request\<close>

definition run_endpoint ::
  "range_orders \<Rightarrow> Deps \<Rightarrow> api_server \<Rightarrow> endpoint \<Rightarrow> api_request \<Rightarrow> instant \<Rightarrow> Collector \<Rightarrow> (nat \<times> payload) \<times> Collector" where
  "run_endpoint ro dp s e r now c =
     (let q = rQuery r in
      case e of
        EDashboard \<Rightarrow> (handleDashboard r now, c)
      | ENotFound \<Rightarrow> (handleNotFound r now, c)
      | EHealth \<Rightarrow> (handleHealth dp s now, c)
      | EStatus \<Rightarrow> ((200, StatusBody (handleStatus ro dp now c)), c)
      | EOverview \<Rightarrow> (let (ov, c') = handleOverview ro now c in ((200, OverviewBody ov (dpVersion dp)), c'))
      | EConnections \<Rightarrow> (let (x, c') = handleConnections ro q now c in ((200, ConnectionsBody x), c'))
      | ETraffic \<Rightarrow> (let (x, c') = handleTraffic q now c in ((200, TrafficBody x), c'))
      | EDomains \<Rightarrow> ((200, DomainsBody (handleDomains ro q now c)), c)
      | ERoutes \<Rightarrow> (let (x, c') = handleRoutes ro q now c in ((200, RoutesBody x), c'))
      | EDNS \<Rightarrow> ((200, DNSBody (handleDNS ro q c)), c)
      | EErrors \<Rightarrow> ((200, ErrorsBody (handleErrors q now c)), c)
      | ENodes \<Rightarrow> ((200, NodesBody (handleNodes ro dp now c)), c)
      | ESnapshot \<Rightarrow> (let (x, c') = handleSnapshot ro dp q now c in ((200, SnapshotBody x), c'))
      | EReset \<Rightarrow> (let (x, c') = handleReset now c in ((200, x), c'))
      | EProfile kind \<Rightarrow> ((200, ProfileBody kind), c))"

definition refuse :: "verdict \<Rightarrow> api_request \<Rightarrow> instant \<Rightarrow> nat \<times> payload" where
  "refuse v r now =
     (case v of
        Preflight \<Rightarrow> (204, NoBody)
      | MethodNotAllowed \<Rightarrow> writeError 405 (''method '' @ rMethod r @ '' not allowed'') now
      | AddressForbidden \<Rightarrow> writeError 403 ''client address not allowed'' now
      | Unauthorized \<Rightarrow> writeError 401 ''missing or invalid token'' now
      | TokenForbidden \<Rightarrow> writeError 403 ''token lacks permission for this endpoint'' now
      | Passed \<Rightarrow> (200, NoBody))"

record api_response =
  arStatus :: nat
  arBody :: payload
  arCORS :: "string option"
  arAllow :: "string list"

definition serve ::
  "range_orders \<Rightarrow> Deps \<Rightarrow> api_server \<Rightarrow> api_request \<Rightarrow> instant \<Rightarrow> Collector \<Rightarrow> api_response \<times> Collector" where
  "serve ro dp s r now c =
     (case api_gate s r of
        Redirect \<Rightarrow> (\<lparr>arStatus = 301, arBody = NoBody, arCORS = None, arAllow = []\<rparr>, c)
      | Open e \<Rightarrow>
          (let ((code, body), c') = run_endpoint ro dp s e r now c
           in (\<lparr>arStatus = code, arBody = body, arCORS = None, arAllow = []\<rparr>, c'))
      | Gated e v \<Rightarrow>
          (let ((code, body), c') = (if v = Passed then run_endpoint ro dp s e r now c else (refuse v r now, c))
           in (\<lparr>arStatus = code, arBody = body, arCORS = applyCORS s r,
                arAllow = (if v = MethodNotAllowed then (case endpoint_gate e of Some (_, ms) \<Rightarrow> ms | None \<Rightarrow> []) else [])\<rparr>, c')))"

section \<open>Readings only read\<close>

definition counted :: "Collector \<Rightarrow> Counters \<times> Counters \<times> Counters \<times> DNSStat \<times> table \<times> table \<times> (string \<times> NodeStat) list \<times> ErrorEntry list" where
  "counted c = (totals c, direct c, proxy c, dns c, dnsNames c, domains c, nodes c, errs c)"

definition session_books :: "Session \<Rightarrow> int \<times> int \<times> int \<times> int \<times> int \<times> bool" where
  "session_books s = (sId s, sUpload s, sDownload s, sPendingUp s, sPendingDown s, sDone s)"

definition reads_only :: "Collector \<Rightarrow> Collector \<Rightarrow> bool" where
  "reads_only c c' \<longleftrightarrow> counted c' = counted c \<and> active c' = active c \<and> nextID c' = nextID c \<and> cfg c' = cfg c \<and> start c' = start c
     \<and> map (\<lambda>(i, s). (i, session_books s)) (sessions c') = map (\<lambda>(i, s). (i, session_books s)) (sessions c)"

lemma reads_only_refl [simp]: "reads_only c c"
  by (simp add: reads_only_def)

lemma reads_only_trans: "reads_only a b \<Longrightarrow> reads_only b c \<Longrightarrow> reads_only a c"
  by (simp add: reads_only_def)

lemma reads_only_rotate [simp]: "reads_only c (rotateLocked c now)"
  by (simp add: reads_only_def counted_def)

lemma session_books_sample [simp]: "session_books (snd (sample now s)) = session_books s"
  and session_books_view [simp]: "session_books (snd (view s now)) = session_books s"
  by (simp_all add: session_books_def sample_def view_def rates_def Let_def)

lemma map_update_same:
  assumes "distinct (map fst m)" and "map_of m i = Some s" and "f s' = f s"
  shows "map (\<lambda>(i, s). (i, f s)) (AList.update i s' m) = map (\<lambda>(i, s). (i, f s)) m"
  using assms by (induction m) auto

lemma put_session_reads_only:
  assumes "sessions_ok c" and "map_of (sessions c) i = Some s" and "session_books s' = session_books s"
  shows "reads_only c (put_session i s' c)" and "sessions_ok (put_session i s' c)"
proof -
  show "reads_only c (put_session i s' c)"
    using assms map_update_same [of "sessions c" i s session_books s']
    by (simp add: reads_only_def counted_def put_session_def sessions_ok_def)
  show "sessions_ok (put_session i s' c)"
    using assms by (intro sessions_ok_put) (simp_all add: session_books_def)
qed

definition stored :: "Collector \<Rightarrow> Session \<Rightarrow> bool" where
  "stored c s \<longleftrightarrow> (\<exists>t. map_of (sessions c) (sId s) = Some t \<and> session_books s = session_books t)"

lemma stored_put:
  assumes "stored c s" and "stored c s'"
  shows "stored (put_session (sId s') s' c) s"
  using assms by (auto simp: stored_def put_session_def update_conv' session_books_def)

lemma store_sessions_reads_only:
  assumes "sessions_ok c" and "list_all (stored c) ss"
  shows "reads_only c (store_sessions ss c) \<and> sessions_ok (store_sessions ss c) \<and> (\<forall>s. stored c s \<longrightarrow> stored (store_sessions ss c) s)"
  using assms
proof (induction ss arbitrary: c)
  case (Cons s ss)
  obtain t where t: "map_of (sessions c) (sId s) = Some t" "session_books s = session_books t"
    using Cons.prems(2) by (auto simp: stored_def)
  note put = put_session_reads_only [OF Cons.prems(1) t]
  have "list_all (stored (put_session (sId s) s c)) ss"
    using Cons.prems(2) stored_put by (auto simp: list_all_iff)
  from Cons.IH [OF put(2) this] show ?case
    using put(1) Cons.prems(2) stored_put reads_only_trans by (auto simp: store_sessions_def)
qed (simp add: store_sessions_def)

lemma live_sessions_stored:
  assumes "sessions_ok c" and "range_order rng" and "s \<in> set (live_sessions rng c opt)"
  shows "stored c s"
proof -
  obtain i where "map_of (sessions c) i = Some s"
    using assms(3) by (auto simp: live_sessions_def range_orderD(2) [OF assms(2)] map_filter_def)
  moreover have "sId s = i" using assms(1) map_of_SomeD [OF calculation] unfolding sessions_ok_def by auto
  ultimately show ?thesis by (auto simp: stored_def)
qed

lemma set_busiest: "set (busiest now n all) \<subseteq> (\<lambda>s. snd (sample now s)) ` set all"
proof
  fix x assume "x \<in> set (busiest now n all)"
  then obtain p where "p \<in> sample now ` set all" "x = snd p"
    by (auto simp: busiest_def Let_def dest!: in_set_takeD)
  then show "x \<in> (\<lambda>s. snd (sample now s)) ` set all" by blast
qed

lemma ActiveSessions_reads_only:
  assumes "sessions_ok c" and "range_order rng"
  shows "reads_only c (snd (ActiveSessions rng c now opt))" and "sessions_ok (snd (ActiveSessions rng c now opt))"
proof -
  define opt' where "opt' = (if aLimit opt \<le> 0 then opt\<lparr>aLimit := 100\<rparr> else opt)"
  define all where "all = sort_slice (by_key_desc sId) (live_sessions rng c opt')"
  have st: "stored c s" if "s \<in> set all" for s
    using that live_sessions_stored [OF assms] by (simp add: all_def)
  have smp: "stored d (snd (sample now s))" if "stored d s" for d s
    using that by (simp add: stored_def)
  have vw: "stored d (snd (view s now))" if "stored d s" for d s
    using that session_books_view [of s now] unfolding stored_def session_books_def by simp
  define trunc where "trunc \<longleftrightarrow> aLimit opt' < int (length all)"
  define c1 where "c1 = (if trunc then store_sessions (map (\<lambda>s. snd (sample now s)) all) c else c)"
  define shown where "shown = (if trunc then busiest now (nat (aLimit opt')) all else all)"
  have c1: "reads_only c c1" "sessions_ok c1" "stored c s \<Longrightarrow> stored c1 s" for s
    using store_sessions_reads_only [OF assms(1), of "map (\<lambda>s. snd (sample now s)) all"] assms(1) st smp
    by (auto simp: c1_def list_all_iff)
  have "stored c s" if "s \<in> set shown" for s
    using that st smp set_busiest [of now "nat (aLimit opt')" all] by (auto simp: shown_def split: if_splits)
  then have "list_all (stored c1) (map (\<lambda>s. snd (view s now)) shown)"
    using c1(3) vw by (auto simp: list_all_iff)
  from store_sessions_reads_only [OF c1(2) this] c1(1)
  show "reads_only c (snd (ActiveSessions rng c now opt))" and "sessions_ok (snd (ActiveSessions rng c now opt))"
    unfolding ActiveSessions_def Let_def opt'_def [symmetric] all_def [symmetric] trunc_def [symmetric]
      c1_def [symmetric] shown_def [symmetric]
    by (auto intro: reads_only_trans)
qed

lemma sessions_ok_rotate [simp]: "sessions_ok (rotateLocked c now) = sessions_ok c"
  by (rule sessions_ok_cong) simp_all

lemma Series_snd [simp]: "snd (Series c now since step) = rotateLocked c now"
  by (simp add: Series_def Let_def)

lemma Overview_snd [simp]: "snd (Overview rng c now) = rotateLocked c now"
  by (simp add: Overview_def Let_def)

lemma traffic_response_snd [simp]: "snd (traffic_response d rt stp now c) = rotateLocked c now"
  by (simp add: traffic_response_def Let_def split: prod.splits)
    (metis Series_snd snd_conv)

lemma handleSnapshot_snd:
  "snd (handleSnapshot ro dp q now c) =
     snd (ActiveSessions (roSessions ro) (rotateLocked (rotateLocked c now) now) now \<lparr>aLimit = 200, aProto = [], aDecision = [], aHost = []\<rparr>)"
  by (simp only: handleSnapshot_def split_beta Let_def snd_conv traffic_response_snd Overview_snd)

lemma run_endpoint_reads_only:
  assumes "sessions_ok c" and "range_order (roSessions ro)" and "e \<noteq> EReset"
  shows "reads_only c (snd (run_endpoint ro dp s e r now c))" and "sessions_ok (snd (run_endpoint ro dp s e r now c))"
proof -
  have snap: "reads_only c (snd (handleSnapshot ro dp q now c)) \<and> sessions_ok (snd (handleSnapshot ro dp q now c))" for q
  proof -
    have twice: "reads_only c (rotateLocked (rotateLocked c now) now)"
      by (rule reads_only_trans [OF reads_only_rotate reads_only_rotate])
    have "sessions_ok (rotateLocked (rotateLocked c now) now)" using assms(1) by simp
    from ActiveSessions_reads_only [OF this assms(2)] show ?thesis
      unfolding handleSnapshot_snd using reads_only_trans [OF twice] by blast
  qed
  have conns: "reads_only c (snd (handleConnections ro q now c)) \<and> sessions_ok (snd (handleConnections ro q now c))" for q
    using ActiveSessions_reads_only [OF assms(1,2)] by (simp add: handleConnections_def Let_def split_beta)
  show "reads_only c (snd (run_endpoint ro dp s e r now c))" and "sessions_ok (snd (run_endpoint ro dp s e r now c))"
    using assms snap [of "rQuery r"] conns [of "rQuery r"]
    by (cases e; simp add: run_endpoint_def Let_def split_beta handleOverview_def handleTraffic_def handleRoutes_def)+
qed

lemma reset_gate:
  assumes "api_gate s r = Gated EReset Passed"
  shows "rMethod r = ''POST'' \<and> rPath r = ''/api/v1/reset'' \<and> requestToken r \<noteq> [] \<and> requestToken r = apToken (asCfg s)
    \<and> addressRejected s r = AddressOk"
proof -
  obtain need methods where m: "mux (route_table (asCfg s)) (rMethod r) (rPath r) = Some (Some EReset)"
    and g: "endpoint_gate EReset = Some (need, methods)" and p: "route s need methods r = Passed"
    using api_gate_Gated [OF assms] by auto
  then have "rPath r = ''/api/v1/reset''"
    using mux_entry [OF m] route_table_subtrees [of _ EReset "asCfg s"] by (auto simp: route_table_exact)
  then show ?thesis using g p by (auto simp: endpoint_gate_def route_Passed token_grants_def)
qed

text \<open>C22. Only a reset changes what has been counted. Serving any request either is the reset, which takes a POST to its path
  with the admin token from an allowed address, or leaves the totals, the split, the tables of domains, nodes and names, the
  errors, the DNS counters and the bytes of every session as they were.\<close>

theorem only_reset_changes_counts:
  assumes "sessions_ok c" and "range_order (roSessions ro)" and "serve ro dp s r now c = (resp, c')"
  shows "reads_only c c'
     \<or> c' = Reset c now \<and> arStatus resp = 200 \<and> rMethod r = ''POST'' \<and> rPath r = ''/api/v1/reset''
       \<and> requestToken r \<noteq> [] \<and> requestToken r = apToken (asCfg s) \<and> addressRejected s r = AddressOk"
proof (cases "api_gate s r = Gated EReset Passed")
  case True
  then have "c' = Reset c now" "arStatus resp = 200"
    using assms(3) by (auto simp: serve_def run_endpoint_def handleReset_def)
  moreover have "rMethod r = ''POST''" "rPath r = ''/api/v1/reset''" "requestToken r \<noteq> []" "requestToken r = apToken (asCfg s)"
    "addressRejected s r = AddressOk"
    using reset_gate [OF True] by blast+
  ultimately show ?thesis by blast
next
  case False
  have notOpen: "api_gate s r \<noteq> Open EReset"
    by (auto simp: api_gate_def endpoint_gate_def split: option.splits endpoint.splits)
  obtain e where "c' = c \<or> e \<noteq> EReset \<and> c' = snd (run_endpoint ro dp s e r now c)"
    using assms(3) False notOpen by (cases "api_gate s r") (auto simp: serve_def split_beta split: if_splits)
  then show ?thesis using run_endpoint_reads_only(1) [OF assms(1,2)] by auto
qed

definition payload_bounded :: "payload \<Rightarrow> bool" where
  "payload_bounded b =
     (case b of
        TrafficBody t \<Rightarrow> length (tfPoints t) \<le> 720
      | ConnectionsBody x \<Rightarrow> cnCount x = length (cnConnections x) \<and> cnCount x \<le> 1000
      | DomainsBody x \<Rightarrow> dmCount x = length (dmDomains x) \<and> dmCount x \<le> 500
      | RoutesBody x \<Rightarrow> length (rtTopDirectDomains x) \<le> 500 \<and> length (rtTopProxyDomains x) \<le> 500
      | DNSBody x \<Rightarrow> length (qTopDomains x) \<le> 500
      | ErrorsBody x \<Rightarrow> erCount x = length (erErrors x) \<and> erCount x \<le> 200
      | SnapshotBody x \<Rightarrow> length (tfPoints (snTraffic x)) \<le> 720 \<and> length (snDomains x) \<le> 200 \<and> length (snErrors x) \<le> 100
          \<and> length (snConnections x) \<le> 200 \<and> length (qTopDomains (snDNS x)) \<le> 50
          \<and> length (rtTopDirectDomains (snRoutes x)) \<le> 20 \<and> length (rtTopProxyDomains (snRoutes x)) \<le> 20
      | _ \<Rightarrow> True)"

lemma length_limit_to: "0 < n \<Longrightarrow> length (limit_to n xs) \<le> nat n"
  by (simp add: limit_to_take)

lemma length_ActiveSessions:
  assumes "0 < aLimit opt" shows "length (fst (ActiveSessions rng c now opt)) \<le> nat (aLimit opt)"
proof -
  have "length (busiest now n all) \<le> n" for n all
    by (simp add: busiest_def Let_def)
  then show ?thesis using assms by (auto simp: ActiveSessions_def Let_def)
qed

lemma length_readings:
  assumes "0 < n"
  shows "length (Domains rng c n ord) \<le> nat n" and "length (TopDomainsByDecision rng c n d ord) \<le> nat n"
    and "length (qTopDomains (DNSStats rng c n)) \<le> nat n" and "length (Errors c n) \<le> nat n"
  using assms
  by (simp_all add: Domains_def topDomainsLocked_def TopDomainsByDecision_def DNSStats_def dnsSnapshotLocked_def topFromLocked_def
      Errors_def Let_def length_limit_to) linarith

lemma length_newest_points: "length (newest_points ps) \<le> 720"
  by (simp add: newest_points_def MaxPoints_def)

lemma intParam_range: "lo \<le> d \<Longrightarrow> d \<le> hi \<Longrightarrow> lo \<le> intParam raw d lo hi \<and> intParam raw d lo hi \<le> hi"
  by (simp add: intParam_def split: option.splits)

lemma handler_bounds:
  "payload_bounded (TrafficBody (fst (traffic_response d rt stp now c)))"
  "payload_bounded (ConnectionsBody (fst (handleConnections ro q now c)))"
  "payload_bounded (DomainsBody (handleDomains ro q now c))"
  "payload_bounded (RoutesBody (fst (handleRoutes ro q now c)))"
  "payload_bounded (DNSBody (handleDNS ro q c))"
  "payload_bounded (ErrorsBody (handleErrors q now c))"
  "payload_bounded (SnapshotBody (fst (handleSnapshot ro dp q now c)))"
proof -
  note lims = MaxLimit_def MaxDomainLimit_def MaxErrorLimit_def
  show "payload_bounded (TrafficBody (fst (traffic_response d rt stp now c)))" for d rt stp now c
    by (simp add: payload_bounded_def traffic_response_def Let_def split_beta length_newest_points)
  have conns: "length (fst (ActiveSessions rng c now \<lparr>aLimit = n, aProto = p, aDecision = d, aHost = h\<rparr>)) \<le> nat n" if "0 < n"
    for rng c now n p d h
    using length_ActiveSessions [of "\<lparr>aLimit = n, aProto = p, aDecision = d, aHost = h\<rparr>" rng c now] that by simp
  show "payload_bounded (ConnectionsBody (fst (handleConnections ro q now c)))"
    using conns [of "intParam (Get q ''limit'') 100 1 MaxLimit"] intParam_range [of 1 100 1000 "Get q ''limit''"]
    by (fastforce simp: payload_bounded_def handleConnections_def Let_def split_beta lims intro: order_trans)
  have lim: "0 < intParam raw d 1 MaxDomainLimit \<and> nat (intParam raw d 1 MaxDomainLimit) \<le> 500" if "1 \<le> d" "d \<le> 500" for raw d
    using intParam_range [of 1 d 500 raw] that by (simp add: lims nat_le_iff)
  show "payload_bounded (DomainsBody (handleDomains ro q now c))"
    using length_readings(1) [of "intParam (Get q ''limit'') 50 1 MaxDomainLimit" "roDomains ro" c] lim [of 50 "Get q ''limit''"]
    by (auto simp: payload_bounded_def handleDomains_def Let_def intro: order_trans)
  show "payload_bounded (RoutesBody (fst (handleRoutes ro q now c)))"
    using length_readings(2) [of "intParam (Get q ''limit'') 10 1 MaxDomainLimit" "roDomains ro"] lim [of 10 "Get q ''limit''"]
    by (auto simp: payload_bounded_def handleRoutes_def routes_response_def Let_def split_beta intro: order_trans)
  show "payload_bounded (DNSBody (handleDNS ro q c))"
    using length_readings(3) [of "intParam (Get q ''limit'') 20 1 MaxDomainLimit" "roDomains ro" c] lim [of 20 "Get q ''limit''"]
    by (auto simp: payload_bounded_def handleDNS_def intro: order_trans)
  have errs: "length (Errors c DefaultErrorLimit) \<le> 200"
    using length_readings(4) [of DefaultErrorLimit c] by (simp add: DefaultErrorLimit_def)
  then show "payload_bounded (ErrorsBody (handleErrors q now c))"
    using le_trans [OF length_filter_le errs]
    by (auto simp: payload_bounded_def handleErrors_def Let_def intro: order_trans [OF less_imp_le])
  show "payload_bounded (SnapshotBody (fst (handleSnapshot ro dp q now c)))"
    using length_readings(1) [of 200 "roDomains ro"] length_readings(4) [of 100] length_readings(3) [of 50 "roDomains ro"]
      length_readings(2) [of 20 "roDomains ro"] conns [of 200 "roSessions ro"]
    by (simp add: payload_bounded_def handleSnapshot_def snapshot_response_def routes_response_def Let_def split_beta
        traffic_response_def length_newest_points)
qed

text \<open>C37. No query makes the server build a large answer: at most 720 points of history, 1000 connections, 500 domains or names and
  200 errors, whatever the limits, ranges and steps asked for, with the count that is reported the length of the list; the
  combined snapshot is bounded in each of its parts.\<close>

theorem responses_bounded:
  "payload_bounded (arBody (fst (serve ro dp s r now c)))"
proof -
  have run: "payload_bounded (snd (fst (run_endpoint ro dp s e r now c)))" for e
    using handler_bounds
    by (cases e; simp add: run_endpoint_def Let_def split_beta handleTraffic_def)
      (simp_all add: payload_bounded_def handleDashboard_def handleNotFound_def handleHealth_def handleReset_def writeError_def)
  have "payload_bounded (snd (refuse v r now))" for v
    by (cases v) (simp_all add: refuse_def writeError_def payload_bounded_def)
  then show ?thesis
    using run by (cases "api_gate s r") (simp_all add: serve_def split_beta payload_bounded_def [of NoBody])
qed

text \<open>The nodes of a status are the configured ones, in their order: each shows the connections and bytes recorded for its name, or
  none, its other fields are the manager's, and a node that is no longer configured does not appear whatever was recorded
  for it. The list of nodes is the same; the combined snapshot shows the configured nodes without their traffic.\<close>

theorem status_nodes:
  assumes "distinct (map fst (nodes c))" and "\<forall>(k, n) \<in> set (nodes c). nName n = k" and "range_order (roNodes ro)"
    and "dpInfo dp = Some info"
  shows "siNodes (stInfo (handleStatus ro dp now c)) =
      map (\<lambda>ni. case map_of (nodes c) (niName ni) of None \<Rightarrow> ni
                | Some t \<Rightarrow> ni\<lparr>niConns := nConns t, niUpload := nUpload t, niDownload := nDownload t\<rparr>) (siNodes info)
    \<and> nrNodes (handleNodes ro dp now c) = siNodes (stInfo (handleStatus ro dp now c))
    \<and> snNodes (fst (handleSnapshot ro dp q now c)) = siNodes info"
proof -
  have names: "map (\<lambda>n. (nName n, n)) (map snd (nodes c)) = nodes c" and keys: "map (nName \<circ> snd) (nodes c) = map fst (nodes c)"
    unfolding map_map using assms(2) by (force intro!: map_idI, force)
  have "distinct (map nName (Nodes (roNodes ro) c))"
    using assms(1) by (simp add: Nodes_def range_orderD(4) [OF assms(3)] keys)
  moreover have "set (rev (map (\<lambda>n. (nName n, n)) (Nodes (roNodes ro) c))) = set (nodes c)"
    using arg_cong [OF names, of set] by (simp add: Nodes_def range_orderD(2) [OF assms(3)] image_image)
  ultimately have "map_of (rev (map (\<lambda>n. (nName n, n)) (Nodes (roNodes ro) c))) = map_of (nodes c)"
    using assms(1) by (subst map_of_inject_set) (simp_all add: rev_map [symmetric] comp_def)
  then show ?thesis
    using assms(4)
    by (simp add: handleStatus_def handleNodes_def handleSnapshot_def snapshot_response_def api_info_def merge_traffic_def Let_def
        split_beta)
qed

definition example_orders :: range_orders where
  "example_orders = \<lparr>roDomains = rev, roNodes = rev, roSessions = rev\<rparr>"

definition example_look :: api_request where
  "example_look = \<lparr>rMethod = ''GET'', rPath = ''/api/v1/snapshot'', rRemoteAddr = ''10.0.0.1:40000'',
     rHeaders = [(''Authorization'', ''Bearer look'')], rQuery = [(''range'', ''7d'')]\<rparr>"

theorem only_reset_changes_counts_witness:
  "api_gate example_api example_look = Gated ESnapshot Passed
   \<and> reads_only (New_collector 0 test_config)
        (snd (serve example_orders \<lparr>dpVersion = ''1'', dpInfo = None\<rparr> example_api example_look 60000000000 (New_collector 0 test_config)))"
proof -
  have "sessions_ok (New_collector 0 test_config)"
    by (simp add: sessions_ok_def New_collector_def Let_def)
  moreover have "api_gate example_api example_look = Gated ESnapshot Passed" by code_simp
  ultimately show ?thesis
    using only_reset_changes_counts [OF _ _ surjective_pairing, of "New_collector 0 test_config" example_orders
        "\<lparr>dpVersion = ''1'', dpInfo = None\<rparr>" example_api example_look 60000000000]
    by (auto simp: example_orders_def example_look_def)
qed

definition example_info :: SystemInfo where
  "example_info = zero_info\<lparr>siNodes := map (\<lambda>name. \<lparr>niName = name, niServer = ''h:1'', niProto = ''tcp'', niPriority = 1, niBandwidth = 0,
     niRTTMs = 5, niAlive = True, niActive = True, niActiveConns = 0, niConns = 0, niUpload = 0, niDownload = 0\<rparr>) [''a'', ''b'']\<rparr>"

theorem status_nodes_witness:
  "map (\<lambda>n. (niName n, niConns n, niUpload n))
     (siNodes (stInfo (handleStatus example_orders \<lparr>dpVersion = ''1'', dpInfo = Some example_info\<rparr> 0
        ((New_collector 0 test_config)\<lparr>nodes := [(''gone'', new_node ''gone''), (''b'', (new_node ''b'')\<lparr>nConns := 2, nUpload := 7\<rparr>)]\<rparr>))))
   = [(''a'', 0, 0), (''b'', 2, 7)]"
proof -
  let ?c = "(New_collector 0 test_config)\<lparr>nodes := [(''gone'', new_node ''gone''), (''b'', (new_node ''b'')\<lparr>nConns := 2, nUpload := 7\<rparr>)]\<rparr>"
  have "distinct (map fst (nodes ?c))" "\<forall>(k, n) \<in> set (nodes ?c). nName n = k" "range_order (roNodes example_orders)"
    "dpInfo \<lparr>dpVersion = ''1'', dpInfo = Some example_info\<rparr> = Some example_info"
    by (simp_all add: new_node_def example_orders_def)
  from status_nodes [OF this, of 0] show ?thesis by (simp add: example_info_def)
qed

end
