(* ===== verification/Engine.thy ===== *)
theory Engine
  imports Engine_Config Dns_Front Api_Server Proxy_Http
begin

text \<open>
  \<^verbatim>\<open>core/engine.go\<close>: the engine that builds the router, the statistics, the upstream manager, the DNS server, the two
  proxies and the statistics interface, wires them together, and takes them down.

  What the operating system grants (addresses to bind, files) and what the nodes answer is the argument \<open>engine_env\<close>.
  A component that the sources share through a pointer is held once by the engine; the router is put into the DNS server
  again after the loop that adds to it. Each component has a list of what it holds open. When the engine lets go of a
  component, what that still holds goes to \<open>eLost\<close>, so that a missing \<^verbatim>\<open>Stop\<close> shows there.
\<close>

section \<open>What is held open\<close>

datatype resource = GeoMapping | SnapshotSaver | HealthLoop | UpstreamClient handle | DnsSocket service | CacheReaper
  | Socks5Listener | HttpListener | ApiListener

text \<open>A router with its GeoIP file open or not, and a collector with its saver running or not.\<close>

type_synonym open_router = "Router \<times> bool"
type_synonym open_collector = "Collector \<times> bool"
type_synonym proxy_server = "Manager Socks5Config \<times> listener_state"

definition router_holds :: "open_router \<Rightarrow> resource list" where
  "router_holds r = (if snd r then [GeoMapping] else [])"

definition collector_holds :: "open_collector \<Rightarrow> resource list" where
  "collector_holds c = (if snd c then [SnapshotSaver] else [])"

definition manager_holds :: "Manager \<Rightarrow> resource list" where
  "manager_holds m = (if closed m then [] else [HealthLoop]) @ map UpstreamClient (List.map_filter client (runtimes m))"

definition dns_holds :: "dns_front \<Rightarrow> resource list" where
  "dns_holds d = map DnsSocket (dfOpen d @ dfLost d) @ (if janitor_runs d then [CacheReaper] else [])"

definition listener_holds :: "resource \<Rightarrow> listener_state \<Rightarrow> resource list" where
  "listener_holds res l = (if lsListening l then [res] else [])"

definition api_holds :: "api_server \<Rightarrow> resource list" where
  "api_holds a = (if asListening a then [ApiListener] else [])"

section \<open>The engine\<close>

record engine =
  eCfg :: EngineConfig
  eRouter :: "open_router option"
  eDns :: "dns_front option"
  eSocks5 :: "proxy_server option"
  eHttp :: "proxy_server option"
  eMgr :: "Manager option"
  eCollector :: "open_collector option"
  eApi :: "api_server option"
  eRunning :: bool
  eFiles :: files
  eLost :: "resource list"

record engine_env =
  enRouter :: RouterEnv
  enWorld :: world
  enNow :: instant
  enProbed :: instant
  enBind :: bind_env
  enCanListen :: "resource \<Rightarrow> string \<Rightarrow> bool"
  enToken :: string
  enGrow :: "nat \<Rightarrow> nat"
  enReadFails :: bool
  enFaults :: faults
  enOrders :: range_orders

definition engine_defaults :: "EngineConfig \<Rightarrow> EngineConfig" where
  "engine_defaults c = c
     \<lparr>ecLocalSocks5 := or_default (ecLocalSocks5 c) ''127.0.0.1:10808'',
      ecDNSListen := or_default (ecDNSListen c) ''127.0.0.1:53'',
      ecDirectDNS := or_default (ecDirectDNS c) ''1.1.1.1:53'',
      ecRemoteDoH := or_default (ecRemoteDoH c) ''https://1.1.1.1/dns-query'',
      ecSPPProto := or_default (ecSPPProto c) ''tcp''\<rparr>"

definition NewEngine :: "files \<Rightarrow> EngineConfig \<Rightarrow> engine" where
  "NewEngine fs c = \<lparr>eCfg = engine_defaults c, eRouter = None, eDns = None, eSocks5 = None, eHttp = None, eMgr = None,
     eCollector = None, eApi = None, eRunning = False, eFiles = fs, eLost = []\<rparr>"

section \<open>Taking down\<close>

definition drop_api :: "engine \<Rightarrow> engine" where
  "drop_api e = (case eApi e of None \<Rightarrow> e
     | Some a \<Rightarrow> e\<lparr>eApi := None, eLost := eLost e @ api_holds (api_Stop a)\<rparr>)"

definition drop_socks5 :: "engine \<Rightarrow> engine" where
  "drop_socks5 e = (case eSocks5 e of None \<Rightarrow> e
     | Some (_, l) \<Rightarrow> e\<lparr>eSocks5 := None, eLost := eLost e @ listener_holds Socks5Listener (server_Stop l)\<rparr>)"

definition drop_http :: "engine \<Rightarrow> engine" where
  "drop_http e = (case eHttp e of None \<Rightarrow> e
     | Some (_, l) \<Rightarrow> e\<lparr>eHttp := None, eLost := eLost e @ listener_holds HttpListener (http_Stop l)\<rparr>)"

definition drop_dns :: "engine \<Rightarrow> engine" where
  "drop_dns e = (case eDns e of None \<Rightarrow> e
     | Some d \<Rightarrow> e\<lparr>eDns := None, eLost := eLost e @ dns_holds (dns_Stop d)\<rparr>)"

definition drop_manager :: "engine \<Rightarrow> engine" where
  "drop_manager e = (case eMgr e of None \<Rightarrow> e
     | Some m \<Rightarrow> e\<lparr>eMgr := None, eLost := eLost e @ manager_holds (Close_manager m)\<rparr>)"

definition Router_Close :: "open_router \<Rightarrow> open_router" where
  "Router_Close r = (fst r, False)"

definition drop_router :: "engine \<Rightarrow> engine" where
  "drop_router e = (case eRouter e of None \<Rightarrow> e
     | Some r \<Rightarrow> e\<lparr>eRouter := None, eLost := eLost e @ router_holds (Router_Close r)\<rparr>)"

definition drop_collector :: "engine_env \<Rightarrow> engine \<Rightarrow> engine" where
  "drop_collector env e = (case eCollector e of None \<Rightarrow> e
     | Some (c, _) \<Rightarrow> e\<lparr>eCollector := None, eLost := eLost e @ collector_holds (c, False),
         eFiles := Close (roDomains (enOrders env)) (roNodes (enOrders env)) (enFaults env) c (enNow env) (eFiles e)\<rparr>)"

definition cleanupServices :: "engine_env \<Rightarrow> engine \<Rightarrow> engine" where
  "cleanupServices env e =
     drop_collector env (drop_router (drop_manager (drop_dns (drop_http (drop_socks5 (drop_api e))))))"

section \<open>Starting\<close>

datatype engine_error = NoNodes | ManagerFailed | DnsInitFailed | DnsStartFailed start_error | Socks5Failed | HttpProxyFailed
  | ApiInitFailed api_error | ApiStartFailed

definition router_options :: "EngineConfig \<Rightarrow> Options" where
  "router_options c =
     \<lparr>DirectDomains = ecDirectDomains c, ProxyDomains = [], DirectCIDRs = ecDirectCIDRs c, DisableBuiltin = False,
      GeoIPFile = ecGeoIPFile c, ChinaDomainFiles = (if ecChinaDomainsFile c \<noteq> [] then [ecChinaDomainsFile c] else []),
      GFWDomainFiles = (if ecGFWDomainsFile c \<noteq> [] then [ecGFWDomainsFile c] else []), SkipCountry = ecSkipCountry c\<rparr>"

definition engine_nodes :: "EngineConfig \<Rightarrow> SppNode list" where
  "engine_nodes c =
     (if ecSPPNodes c = [] \<and> ecSPPServer c \<noteq> []
      then [\<lparr>ndName = ''default_node'', ndServer = ecSPPServer c, ndServerProto = ecSPPProto c, ndKey = ecSPPKey c,
              ndEncrypt = ecSPPEncrypt c, ndCompress = ecSPPCompress c, ndPriority = 0, ndBandwidth = 0, ndKcpFecData = 0,
              ndKcpFecParity = 0, ndRdnsDomain = ecSPPRdnsDomain c, ndRdnsUpstream = ecSPPRdnsUpstream c,
              ndRdnsPsk = ecSPPRdnsPsk c, ndRdnsQueryType = ecSPPRdnsQueryType c\<rparr>]
      else ecSPPNodes c)"

definition historyMinutes :: "int \<Rightarrow> int" where
  "historyMinutes hours =
     (if hours \<le> 0 then DefaultHistoryMinutes else (if 24 * 30 < hours then 24 * 30 else hours) * 60)"

definition stats_config :: "EngineConfig \<Rightarrow> Config" where
  "stats_config c = \<lparr>HistoryMinutes = historyMinutes (ecStatsHistoryHours c), BucketInterval = 0, File = ecStatsFile c,
     SaveInterval = DefaultSaveInterval, DomainLimit = 0, ErrorLimit = 0\<rparr>"

definition sppHost :: "string \<Rightarrow> string" where
  "sppHost server =
     (let host = (case SplitHostPort server of None \<Rightarrow> server | Some (h, _) \<Rightarrow> if h = [] then server else h)
      in ToLower (Trim host ''.''))"

definition add_node_host :: "SppNode \<Rightarrow> Router \<Rightarrow> Router" where
  "add_node_host n r = (let host = sppHost (ndServer n) in if host \<noteq> [] \<and> ParseIP host = None then AddDirectDomain r host else r)"

definition dns_settings :: "EngineConfig \<Rightarrow> string \<Rightarrow> Router \<Rightarrow> Collector \<Rightarrow> dns_config" where
  "dns_settings c socks r col =
     \<lparr>dcListenAddr = ecDNSListen c, dcDoHListenAddr = ecDoHListen c, dcDoTListenAddr = ecDoTListen c, dcTLSCertFile = ecTLSCertFile c,
      dcTLSKeyFile = ecTLSKeyFile c, dcDoHURL = ecRemoteDoH c, dcDirectDNS = ecDirectDNS c, dcSocks5Addr = socks, dcRouter = Some r,
      dcEnableIPv6 = ecEnableIPv6 c, dcStats = Some col\<rparr>"

definition proxy_settings :: "world \<Rightarrow> EngineConfig \<Rightarrow> string \<Rightarrow> Router \<Rightarrow> Manager Socks5Config" where
  "proxy_settings w c addr r =
     \<lparr>ListenAddr = addr, Username = ecProxyUsername c, Password = ecProxyPassword c, cfgRouter = Some r,
      cfgUpstream = Some (manager_upstream w), ActiveNode = Some ActiveNodeName, EnableIPv6 = ecEnableIPv6 c, IdleTimeout = 0\<rparr>"

definition api_settings :: "EngineConfig \<Rightarrow> api_config" where
  "api_settings c =
     \<lparr>apListenAddr = ecAPIListen c, apToken = ecAPIToken c, apReadonlyToken = ecAPIReadonlyToken c, apAllowedCIDRs = ecAPIAllowedCIDRs c,
      apClientCIDRs = ecAPIClientCIDRs c, apTrustedProxies = ecAPITrustedProxies c, apAllowedOrigins = ecAPIOrigins c,
      apDashboard = ecAPIDashboard c, apPProf = ecAPIPProf c, apReadTimeout = 0, apWriteTimeout = 0, apIdleTimeout = 0\<rparr>"

definition fail_start :: "engine_env \<Rightarrow> engine_error \<Rightarrow> engine \<Rightarrow> engine_error option \<times> engine" where
  "fail_start env err e = (Some err, cleanupServices env e)"

text \<open>The stages of \<^verbatim>\<open>Start\<close>, each with its error path. A local server that fails to start is let go of.\<close>

definition start_core :: "engine_env \<Rightarrow> engine \<Rightarrow> engine_error option \<times> engine" where
  "start_core env e =
     (let c = eCfg e;
          r = NewRouterWithOptions (enRouter env) (router_options c);
          e = e\<lparr>eRouter := Some (r, geoipLoaded r)\<rparr>
      in if engine_nodes c = [] then fail_start env NoNodes e
         else
           let col = New (enGrow env) (enReadFails env) (enNow env) (eFiles e) (stats_config c);
               e = e\<lparr>eCollector := Some (col, File (stats_config c) \<noteq> [])\<rparr>
           in case NewManager (enWorld env) (enNow env) (enProbed env) (engine_nodes c) (ecLocalSocks5 c) of
                None \<Rightarrow> fail_start env ManagerFailed e
              | Some m \<Rightarrow> (None, e\<lparr>eMgr := Some m\<rparr>))"

definition start_dns :: "engine_env \<Rightarrow> engine \<Rightarrow> engine_error option \<times> engine" where
  "start_dns env e =
     (case (eRouter e, eCollector e, eMgr e) of
        (Some (r, geo), Some (col, _), Some m) \<Rightarrow>
          (let (socks, m) = Socks5Addr (enWorld env) m; e = e\<lparr>eMgr := Some m\<rparr> in
           case NewServer (dns_settings (eCfg e) socks r col) of
             None \<Rightarrow> fail_start env DnsInitFailed e
           | Some d \<Rightarrow>
               let r = fold add_node_host (engine_nodes (eCfg e)) r;
                   e = e\<lparr>eRouter := Some (r, geo)\<rparr>;
                   d = d\<lparr>dfServer := (dfServer d)\<lparr>router := Some r\<rparr>\<rparr>
               in case dns_Start (enBind env) d of
                    (Some err, d) \<Rightarrow> fail_start env (DnsStartFailed err) (e\<lparr>eLost := eLost e @ dns_holds (dns_Stop d)\<rparr>)
                  | (None, d) \<Rightarrow> (None, e\<lparr>eDns := Some d\<rparr>))
      | _ \<Rightarrow> (None, e))"

definition start_socks5 :: "engine_env \<Rightarrow> engine \<Rightarrow> engine_error option \<times> engine" where
  "start_socks5 env e =
     (let c = eCfg e in
      case eRouter e of
        None \<Rightarrow> (None, e)
      | Some (r, _) \<Rightarrow>
          if ecSocks5Listen c = [] then (None, e)
          else
            let g = NewSocks5Server (proxy_settings (enWorld env) c (ecSocks5Listen c) r)
            in case server_Start (enCanListen env Socks5Listener (ListenAddr g)) server_new of
                 (False, l) \<Rightarrow> fail_start env Socks5Failed (e\<lparr>eLost := eLost e @ listener_holds Socks5Listener l\<rparr>)
               | (True, l) \<Rightarrow> (None, e\<lparr>eSocks5 := Some (g, l)\<rparr>))"

definition start_http :: "engine_env \<Rightarrow> engine \<Rightarrow> engine_error option \<times> engine" where
  "start_http env e =
     (let c = eCfg e in
      case eRouter e of
        None \<Rightarrow> (None, e)
      | Some (r, _) \<Rightarrow>
          if ecHTTPListen c = [] then (None, e)
          else
            let g = NewHTTPServer (proxy_settings (enWorld env) c (ecHTTPListen c) r)
            in case http_Start (enCanListen env HttpListener (ListenAddr g)) server_new of
                 (False, l) \<Rightarrow> fail_start env HttpProxyFailed (e\<lparr>eLost := eLost e @ listener_holds HttpListener l\<rparr>)
               | (True, l) \<Rightarrow> (None, e\<lparr>eHttp := Some (g, l)\<rparr>))"

definition start_api :: "engine_env \<Rightarrow> engine \<Rightarrow> engine_error option \<times> engine" where
  "start_api env e =
     (let c = eCfg e in
      if ecAPIListen c = [] then (None, e)
      else case New_api (enToken env) (enNow env) (api_settings c) of
        Inl err \<Rightarrow> fail_start env (ApiInitFailed err) e
      | Inr a \<Rightarrow>
          (case api_Start (enCanListen env ApiListener (apListenAddr (asCfg a))) (enNow env) a of
             (False, a) \<Rightarrow> fail_start env ApiStartFailed (e\<lparr>eLost := eLost e @ api_holds (api_Stop a)\<rparr>)
           | (True, a) \<Rightarrow> (None, e\<lparr>eApi := Some a\<rparr>)))"

definition stage ::
  "(engine \<Rightarrow> engine_error option \<times> engine) \<Rightarrow> engine_error option \<times> engine \<Rightarrow> engine_error option \<times> engine" where
  "stage f p = (case p of (Some err, e) \<Rightarrow> (Some err, e) | (None, e) \<Rightarrow> f e)"

definition Start :: "engine_env \<Rightarrow> engine \<Rightarrow> engine_error option \<times> engine" where
  "Start env e =
     (if eRunning e then (None, e)
      else stage (\<lambda>e. (None, e\<lparr>eRunning := True\<rparr>))
             (stage (start_api env) (stage (start_http env) (stage (start_socks5 env) (stage (start_dns env) (start_core env e))))))"

definition Stop :: "engine_env \<Rightarrow> engine \<Rightarrow> engine" where
  "Stop env e = (if \<not> eRunning e then e else cleanupServices env (e\<lparr>eRunning := False\<rparr>))"

section \<open>What it reports\<close>

definition activeNodeName :: "engine \<Rightarrow> string" where
  "activeNodeName e = (case eMgr e of None \<Rightarrow> [] | Some m \<Rightarrow> ActiveNodeName m)"

definition node_info :: "NodeStatus \<Rightarrow> NodeInfo" where
  "node_info n = \<lparr>niName = nsName n, niServer = nsServer n, niProto = nsProto n, niPriority = nsPriority n,
     niBandwidth = nsBandwidth n, niRTTMs = nsRTTMs n, niAlive = nsAlive n, niActive = nsActive n,
     niActiveConns = nsActiveConns n, niConns = 0, niUpload = 0, niDownload = 0\<rparr>"

definition APIInfo :: "string \<Rightarrow> engine \<Rightarrow> SystemInfo" where
  "APIInfo version e =
     (let c = eCfg e in
      \<lparr>siVersion = version, siRunning = eRunning e, siIPv6 = ecEnableIPv6 c,
       siListeners = \<lparr>lDNS = ecDNSListen c, lDoH = ecDoHListen c, lDoT = ecDoTListen c, lSocks5 = ecSocks5Listen c,
                      lHTTP = ecHTTPListen c, lAPI = ecAPIListen c\<rparr>,
       siRouter = (case eRouter e of
                     None \<Rightarrow> siRouter zero_info
                   | Some (r, _) \<Rightarrow> let i = Router_Info r in
                       \<lparr>riDirectDomains = iDirectDomains i, riProxyDomains = iProxyDomains i, riDirectCIDRs = iDirectCIDRs i,
                        riGeoIP = iGeoIP i, riSkipCountry = iSkipCountry i\<rparr>),
       siNodes = (case eMgr e of None \<Rightarrow> [] | Some m \<Rightarrow> map node_info (NodeStatuses m))\<rparr>)"

definition Stats :: "engine \<Rightarrow> Collector option" where
  "Stats e = map_option fst (eCollector e)"

end
