(* ===== verification/Engine_Lifecycle.thy ===== *)
theory Engine_Lifecycle
  imports Engine
begin

text \<open>
  The life of the engine of \<open>Engine\<close>: a relation for its starts, its stops and the work of its services, the invariant that
  nothing is left behind, what a successful start has built, and what the command line guarantees before it starts one.
\<close>

section \<open>Nothing is left behind\<close>

definition empty_engine :: "engine \<Rightarrow> bool" where
  "empty_engine e \<longleftrightarrow> eRouter e = None \<and> eDns e = None \<and> eSocks5 e = None \<and> eHttp e = None \<and> eMgr e = None
     \<and> eCollector e = None \<and> eApi e = None"

text \<open>What the engine holds when it is stopped now, apart from what it has lost already.\<close>

definition stoppable :: "engine \<Rightarrow> bool" where
  "stoppable e \<longleftrightarrow>
     (case eDns e of None \<Rightarrow> True | Some d \<Rightarrow> dns_holds (dns_Stop d) = [])
     \<and> (case eSocks5 e of None \<Rightarrow> True | Some (_, l) \<Rightarrow> \<not> lsClosed l)
     \<and> (case eHttp e of None \<Rightarrow> True | Some (_, l) \<Rightarrow> \<not> lsClosed l)
     \<and> (case eMgr e of None \<Rightarrow> True | Some m \<Rightarrow> \<not> closed m)
     \<and> (case eApi e of None \<Rightarrow> True | Some a \<Rightarrow> \<not> asClosed a)"

lemma stopped_holds:
  "\<not> asClosed a \<Longrightarrow> api_holds (api_Stop a) = []"
  "\<not> lsClosed l \<Longrightarrow> listener_holds res (server_Stop l) = []"
  "\<not> closed m \<Longrightarrow> manager_holds (Close_manager m) = []"
  "router_holds (Router_Close r) = []" "collector_holds (c, False) = []"
proof -
  have "List.map_filter client (map (\<lambda>rt. rt\<lparr>client := None\<rparr>) rts) = []" for rts :: "nodeRuntime list"
    by (induction rts) (simp_all add: map_filter_simps)
  then show "\<not> closed m \<Longrightarrow> manager_holds (Close_manager m) = []"
    by (simp add: manager_holds_def Close_manager_def close_flag_def close_clients_def)
qed (simp_all add: api_holds_def api_Stop_def listener_holds_def server_Stop_def router_holds_def Router_Close_def collector_holds_def)

lemma drops:
  "stoppable e \<Longrightarrow> drop_api e = e\<lparr>eApi := None\<rparr>"
  "stoppable e \<Longrightarrow> drop_socks5 e = e\<lparr>eSocks5 := None\<rparr>"
  "stoppable e \<Longrightarrow> drop_http e = e\<lparr>eHttp := None\<rparr>"
  "stoppable e \<Longrightarrow> drop_dns e = e\<lparr>eDns := None\<rparr>"
  "stoppable e \<Longrightarrow> drop_manager e = e\<lparr>eMgr := None\<rparr>"
  "drop_router e = e\<lparr>eRouter := None\<rparr>"
  "\<exists>fs. drop_collector env e = e\<lparr>eCollector := None, eFiles := fs\<rparr>"
  by (cases e; auto simp: drop_api_def drop_socks5_def drop_http_def drop_dns_def drop_manager_def drop_router_def
      drop_collector_def stoppable_def stopped_holds split: option.splits)+

lemma stoppable_without:
  "stoppable e \<Longrightarrow> stoppable (e\<lparr>eApi := None\<rparr>)" "stoppable e \<Longrightarrow> stoppable (e\<lparr>eSocks5 := None\<rparr>)"
  "stoppable e \<Longrightarrow> stoppable (e\<lparr>eHttp := None\<rparr>)" "stoppable e \<Longrightarrow> stoppable (e\<lparr>eDns := None\<rparr>)"
  "stoppable e \<Longrightarrow> stoppable (e\<lparr>eMgr := None\<rparr>)"
  by (simp_all add: stoppable_def)

lemma cleanupServices_clean:
  assumes "stoppable e"
  shows "\<exists>fs. cleanupServices env e = e\<lparr>eApi := None, eSocks5 := None, eHttp := None, eDns := None, eMgr := None, eRouter := None,
    eCollector := None, eFiles := fs\<rparr>"
  using assms drops(7) [of env]
  by (simp add: cleanupServices_def drops(1-6) stoppable_without)

definition idle :: "engine \<Rightarrow> bool" where
  "idle e \<longleftrightarrow> \<not> eRunning e \<and> eLost e = [] \<and> eRouter e = None \<and> eDns e = None \<and> eSocks5 e = None \<and> eHttp e = None
     \<and> eMgr e = None \<and> eCollector e = None \<and> eApi e = None"

definition building :: "engine \<Rightarrow> bool" where
  "building e \<longleftrightarrow> \<not> eRunning e \<and> eLost e = [] \<and> stoppable e"

lemma fail_start_idle: "building e \<Longrightarrow> fail_start env err e = (Some err, cleanupServices env e) \<and> idle (cleanupServices env e)
    \<and> eCfg (cleanupServices env e) = eCfg e"
  using cleanupServices_clean [of e env] by (auto simp: fail_start_def building_def idle_def)

definition stage_ok :: "EngineConfig \<Rightarrow> engine_error option \<times> engine \<Rightarrow> bool" where
  "stage_ok c p \<longleftrightarrow> eCfg (snd p) = c \<and> (case fst p of None \<Rightarrow> building (snd p) | Some _ \<Rightarrow> idle (snd p))"

lemma stage_ok_fail: "building e \<Longrightarrow> eCfg e = c \<Longrightarrow> stage_ok c (fail_start env err e)"
  using fail_start_idle [of e env err] by (simp add: stage_ok_def)

lemma stage_okI: "stage_ok c p \<Longrightarrow> (\<And>e. building e \<Longrightarrow> eCfg e = c \<Longrightarrow> stage_ok c (f e)) \<Longrightarrow> stage_ok c (stage f p)"
proof (cases "fst p")
  case None
  assume "stage_ok c p" "\<And>e. building e \<Longrightarrow> eCfg e = c \<Longrightarrow> stage_ok c (f e)"
  with None show ?thesis by (cases p) (simp add: stage_def stage_ok_def)
next
  case (Some err)
  assume "stage_ok c p"
  with Some show ?thesis by (cases p) (simp add: stage_def)
qed

lemma closed_NewManager: "NewManager w now now' ns addr = Some m \<Longrightarrow> \<not> closed m"
  by (simp add: NewManager_def newManager_state(5))

lemma closed_Socks5Addr: "closed (snd (Socks5Addr w m)) = closed m"
  by (auto simp: Socks5Addr_def PickNode_def release_conn_def Let_def split: prod.splits option.splits if_splits)


lemma NewServer_stops:
  assumes "NewServer g = Some d" and "dns_Start env (d\<lparr>dfServer := sv\<rparr>) = (err, d')"
  shows "dns_holds (dns_Stop d') = []"
proof -
  have d: "dfOpen (d\<lparr>dfServer := sv\<rparr>) = []" "\<not> dfStopped (d\<lparr>dfServer := sv\<rparr>)" "\<not> dfJanitor (d\<lparr>dfServer := sv\<rparr>)" "dfLost d = []"
    using NewServer_fresh [OF assms(1)] by simp_all
  show ?thesis
  proof (cases "start_failure env (dfConfig (d\<lparr>dfServer := sv\<rparr>))")
    case None
    then show ?thesis
      using dns_Start_ok [OF d(1) None] assms(2) d
      by (auto simp: dns_holds_def dns_Stop_def shutdownListeners_def janitor_runs_def)
  next
    case (Some e)
    then show ?thesis using dns_Start_fails [OF d(1-3) Some] assms(2) d(4) by (auto simp: dns_holds_def)
  qed
qed

lemma building_simps:
  "building (e\<lparr>eRouter := r\<rparr>) = building e" "building (e\<lparr>eCollector := c\<rparr>) = building e"
  "building (e\<lparr>eMgr := Some m\<rparr>) \<longleftrightarrow> building (e\<lparr>eMgr := None\<rparr>) \<and> \<not> closed m"
  "building (e\<lparr>eApi := Some a\<rparr>) \<longleftrightarrow> building (e\<lparr>eApi := None\<rparr>) \<and> \<not> asClosed a"
  "building (e\<lparr>eSocks5 := Some (g, l)\<rparr>) \<longleftrightarrow> building (e\<lparr>eSocks5 := None\<rparr>) \<and> \<not> lsClosed l"
  "building (e\<lparr>eHttp := Some (g, l)\<rparr>) \<longleftrightarrow> building (e\<lparr>eHttp := None\<rparr>) \<and> \<not> lsClosed l"
  "building (e\<lparr>eDns := Some d\<rparr>) \<longleftrightarrow> building (e\<lparr>eDns := None\<rparr>) \<and> dns_holds (dns_Stop d) = []"
  by (auto simp: building_def stoppable_def)

lemma building_without:
  "building e \<Longrightarrow> building (e\<lparr>eApi := None\<rparr>)" "building e \<Longrightarrow> building (e\<lparr>eSocks5 := None\<rparr>)"
  "building e \<Longrightarrow> building (e\<lparr>eHttp := None\<rparr>)" "building e \<Longrightarrow> building (e\<lparr>eDns := None\<rparr>)"
  "building e \<Longrightarrow> building (e\<lparr>eMgr := None\<rparr>)"
  by (auto simp: building_def stoppable_without)

lemma idle_building: "idle e \<Longrightarrow> building e"
  by (simp add: idle_def building_def stoppable_def)

lemma stage_ok_done: "stage_ok c (None, e) \<longleftrightarrow> eCfg e = c \<and> building e"
  by (simp add: stage_ok_def)

lemma eLost_Nil: "e\<lparr>eLost := eLost e @ []\<rparr> = e"
  by (cases e) simp

lemma start_core_ok: "building e \<Longrightarrow> stage_ok (eCfg e) (start_core env e)"
  by (auto simp: start_core_def Let_def stage_ok_done building_simps building_without closed_NewManager
      intro!: stage_ok_fail split: option.splits)

lemma start_dns_ok:
  assumes "building e" shows "stage_ok (eCfg e) (start_dns env e)"
proof (cases "(eRouter e, eCollector e, eMgr e)")
  case (fields er ec em)
  show ?thesis
  proof (cases "er = None \<or> ec = None \<or> em = None")
    case True
    then show ?thesis using assms fields by (auto simp: start_dns_def stage_ok_done split: option.splits)
  next
    case False
    then obtain r geo col sv m where f: "eRouter e = Some (r, geo)" "eCollector e = Some (col, sv)" "eMgr e = Some m"
      using fields by auto
    obtain socks m' where sa: "Socks5Addr (enWorld env) m = (socks, m')" by fastforce
    have "\<not> closed m" using assms f(3) by (simp add: building_def stoppable_def)
    then have "\<not> closed m'" using closed_Socks5Addr [of "enWorld env" m] sa by simp
    then have b: "building (e\<lparr>eMgr := Some m'\<rparr>)" using assms by (simp add: building_simps building_without)
    let ?r = "fold add_node_host (engine_nodes (eCfg e)) r"
    show ?thesis
    proof (cases "NewServer (dns_settings (eCfg e) socks r col)")
      case None
      then show ?thesis using b by (simp add: start_dns_def f sa stage_ok_fail)
    next
      case (Some d)
      obtain err d' where ds: "dns_Start (enBind env) (d\<lparr>dfServer := (dfServer d)\<lparr>router := Some ?r\<rparr>\<rparr>) = (err, d')" by fastforce
      have "dns_holds (dns_Stop d') = []" by (rule NewServer_stops [OF Some ds])
      then show ?thesis
        using b Some ds
        by (cases err) (auto simp: start_dns_def f sa stage_ok_done building_simps building_without intro!: stage_ok_fail)
    qed
  qed
qed

lemma start_proxies_ok:
  assumes "building e"
  shows "stage_ok (eCfg e) (start_socks5 env e)" and "stage_ok (eCfg e) (start_http env e)"
  using assms
  by (auto simp: start_socks5_def start_http_def Let_def stage_ok_done building_simps building_without server_Start_def server_new_def
      listener_holds_def intro!: stage_ok_fail split: option.splits prod.splits if_splits bool.splits)

lemma start_api_ok:
  assumes "building e" shows "stage_ok (eCfg e) (start_api env e)"
proof -
  have "\<not> asClosed a" if "New_api tok now c = Inr a" for tok now c a
    using that by (auto simp: New_api_def Let_def split: sum.splits)
  then show ?thesis
    using assms
    by (auto simp: start_api_def Let_def stage_ok_done building_simps building_without api_Start_def stopped_holds
        intro!: stage_ok_fail split: sum.splits if_splits)
qed

lemma Start_stages:
  assumes "idle e" shows "case Start env e of (Some err, e') \<Rightarrow> idle e' \<and> eCfg e' = eCfg e
    | (None, e') \<Rightarrow> eRunning e' \<and> eLost e' = [] \<and> stoppable e' \<and> eCfg e' = eCfg e"
proof -
  define p where "p = stage (start_api env) (stage (start_http env) (stage (start_socks5 env) (stage (start_dns env) (start_core env e))))"
  have "stage_ok (eCfg e) p"
    unfolding p_def using start_core_ok [OF idle_building [OF assms]] start_dns_ok start_proxies_ok start_api_ok
    by (metis stage_okI)
  moreover have "Start env e = stage (\<lambda>e. (None, e\<lparr>eRunning := True\<rparr>)) p"
    using assms by (simp add: Start_def idle_def p_def)
  ultimately show ?thesis
    by (cases p) (auto simp: stage_def stage_ok_def building_def stoppable_def split: option.splits)
qed


text \<open>The engine and what runs inside it: a start, a stop, or a step of the services, which change their own state but do not
  close a manager.\<close>

inductive engine_step :: "engine \<Rightarrow> engine \<Rightarrow> bool" where
  started: "Start env e = (res, e') \<Longrightarrow> engine_step e e'"
| stopped: "engine_step e (Stop env e)"
| worked: "(\<And>m. closed (f m) = closed m) \<Longrightarrow>
    engine_step e (e\<lparr>eMgr := map_option f (eMgr e), eCollector := map_option (\<lambda>(c, b). (g c, b)) (eCollector e),
      eDns := map_option (\<lambda>d. d\<lparr>dfServer := h (dfServer d)\<rparr>) (eDns e)\<rparr>)"

definition engine_inv :: "engine \<Rightarrow> bool" where
  "engine_inv e \<longleftrightarrow> idle e \<or> eRunning e \<and> eLost e = [] \<and> stoppable e"

lemma Stop_idle: "engine_inv e \<Longrightarrow> idle (Stop env e)"
  using cleanupServices_clean [of "e\<lparr>eRunning := False\<rparr>" env]
  by (auto simp: Stop_def engine_inv_def idle_def stoppable_def)

lemma dns_holds_server: "dns_holds (dns_Stop (d\<lparr>dfServer := sv\<rparr>)) = dns_holds (dns_Stop d)"
  by (simp add: dns_holds_def dns_Stop_def shutdownListeners_def janitor_runs_def)

interpretation engine: transition_invariant engine_step engine_inv
proof unfold_locales
  fix e e' assume inv: "engine_inv e" and step: "engine_step e e'"
  from step show "engine_inv e'"
  proof cases
    case (started env res)
    show ?thesis
    proof (cases "eRunning e")
      case True
      then show ?thesis using inv started by (simp add: Start_def)
    next
      case False
      then have "idle e" using inv by (simp add: engine_inv_def)
      from Start_stages [OF this, of env] started show ?thesis by (cases res) (auto simp: engine_inv_def)
    qed
  next
    case (stopped env)
    then show ?thesis using Stop_idle [OF inv] by (simp add: engine_inv_def)
  next
    case (worked f g h)
    then show ?thesis
      using inv by (auto simp: engine_inv_def idle_def stoppable_def dns_holds_server split: option.splits)
  qed
qed

text \<open>C15. The engine leaves nothing behind. In every state it can reach from a fresh one by starts, stops and the work of its services, no
  component was let go of while it held a socket, a client, the GeoIP file or a running task; when it is not running it
  has no component at all; a stop brings it there and a second stop changes nothing; and a start that fails, at whichever
  of its stages, has already taken down everything it had built.\<close>

theorem engine_leaves_nothing:
  assumes "engine_step\<^sup>*\<^sup>* (NewEngine fs c) e"
  shows "eLost e = [] \<and> (eRunning e \<or> empty_engine e)
    \<and> empty_engine (Stop env e) \<and> \<not> eRunning (Stop env e) \<and> eLost (Stop env e) = [] \<and> Stop env' (Stop env e) = Stop env e
    \<and> (\<forall>err e'. Start env e = (Some err, e') \<longrightarrow> empty_engine e' \<and> \<not> eRunning e' \<and> eLost e' = [] \<and> Stop env' e' = e')"
proof -
  have "engine_inv (NewEngine fs c)" by (simp add: engine_inv_def idle_def NewEngine_def)
  then have inv: "engine_inv e" using assms by (rule engine.steps_inv [rotated])
  have idle: "idle x \<longleftrightarrow> empty_engine x \<and> \<not> eRunning x \<and> eLost x = []" for x by (auto simp: idle_def empty_engine_def)
  have "idle e'" if st: "Start env e = (Some err, e')" for err e'
  proof (cases "eRunning e")
    case True
    then show ?thesis using st by (simp add: Start_def)
  next
    case False
    then have "idle e" using inv by (simp add: engine_inv_def)
    from Start_stages [OF this, of env] st show ?thesis by simp
  qed
  moreover have "idle (Stop env e)" by (rule Stop_idle [OF inv])
  moreover have "eLost e = []" "eRunning e \<or> empty_engine e" using inv idle by (auto simp: engine_inv_def)
  ultimately show ?thesis unfolding idle by (simp add: Stop_def)
qed

section \<open>What a start builds\<close>

lemma stage_None: "stage f p = (None, e') \<longleftrightarrow> (\<exists>e. p = (None, e) \<and> f e = (None, e'))"
  by (cases p) (auto simp: stage_def split: option.splits)

lemma fail_start_None [simp]: "fail_start env err e \<noteq> (None, e')"
  by (simp add: fail_start_def)

lemma ShouldDirectDomain_add: "ShouldDirectDomain (AddDirectDomain r d) h \<longleftrightarrow> ShouldDirectDomain r h \<or> rule_covers d h"
  by (auto simp: ShouldDirectDomain_def AddDirectDomain_def matchListed_iff hostSet_add_eq rule_covers_def)

lemma add_node_host_keeps: "ShouldDirectDomain r h \<Longrightarrow> ShouldDirectDomain (add_node_host n r) h"
  by (simp add: add_node_host_def Let_def ShouldDirectDomain_add)

lemma fold_add_keeps: "ShouldDirectDomain r h \<Longrightarrow> ShouldDirectDomain (fold add_node_host ns r) h"
  by (induction ns arbitrary: r) (simp_all add: add_node_host_keeps)

definition node_host :: "SppNode \<Rightarrow> string option" where
  "node_host n = (let host = sppHost (ndServer n) in if host \<noteq> [] \<and> ParseIP host = None then Some host else None)"

lemma rule_covers_self: "norm_domain d \<noteq> [] \<Longrightarrow> rule_covers d d"
  by (simp add: rule_covers_def label_suffix_def)

lemma norm_sppHost: "norm_domain (sppHost s) = sppHost s"
  by (simp add: norm_domain_def sppHost_def Let_def ToLower_Trim_dot [symmetric])

lemma node_hosts_direct:
  "n \<in> set ns \<Longrightarrow> node_host n = Some h \<Longrightarrow> ShouldDirectDomain (fold add_node_host ns r) h"
proof (induction ns arbitrary: r)
  case (Cons x ns)
  show ?case
  proof (cases "n = x")
    case True
    then have "rule_covers h h" "add_node_host x r = AddDirectDomain r h"
      using Cons.prems(2) norm_sppHost [of "ndServer n"]
      by (auto simp: node_host_def add_node_host_def Let_def intro!: rule_covers_self split: if_splits)
    then show ?thesis by (simp add: fold_add_keeps ShouldDirectDomain_add)
  next
    case False
    then show ?thesis using Cons by simp
  qed
qed simp

lemma start_core_None:
  assumes "start_core env e = (None, e1)"
  shows "\<exists>r col m. e1 = e\<lparr>eRouter := Some (r, geoipLoaded r), eCollector := Some (col, ecStatsFile (eCfg e) \<noteq> []), eMgr := Some m\<rparr>"
  using assms by (auto simp: start_core_def Let_def stats_config_def split: if_splits option.splits)

lemma start_dns_None:
  assumes "start_dns env e = (None, e2)" and "eRouter e = Some (r, geo)" and "eCollector e = Some (col, b)" and "eMgr e = Some m"
  shows "\<exists>m' d. e2 = e\<lparr>eMgr := Some m', eRouter := Some (fold add_node_host (engine_nodes (eCfg e)) r, geo), eDns := Some d\<rparr>
    \<and> router (dfServer d) = Some (fold add_node_host (engine_nodes (eCfg e)) r) \<and> dfOpen d = services (dfConfig d)
    \<and> dcDoHListenAddr (dfConfig d) = ecDoHListen (eCfg e) \<and> dcDoTListenAddr (dfConfig d) = ecDoTListen (eCfg e)"
proof -
  obtain socks m' where sa: "Socks5Addr (enWorld env) m = (socks, m')" by fastforce
  let ?r = "fold add_node_host (engine_nodes (eCfg e)) r"
  obtain d where d: "NewServer (dns_settings (eCfg e) socks r col) = Some d"
    using assms by (auto simp: start_dns_def sa Let_def split: option.splits)
  let ?d = "d\<lparr>dfServer := (dfServer d)\<lparr>router := Some ?r\<rparr>\<rparr>"
  obtain d' where st: "dns_Start (enBind env) ?d = (None, d')"
    and e2: "e2 = e\<lparr>eMgr := Some m', eRouter := Some (?r, geo), eDns := Some d'\<rparr>"
    using assms by (auto simp: start_dns_def sa Let_def d split: option.splits prod.splits)
  have fresh: "dfOpen ?d = []" "\<not> dfStopped ?d" "\<not> dfJanitor ?d"
    and c: "dcDoHListenAddr (dfConfig ?d) = ecDoHListen (eCfg e)" "dcDoTListenAddr (dfConfig ?d) = ecDoTListen (eCfg e)"
    using NewServer_fresh [OF d] by (simp_all add: dns_settings_def)
  have "start_failure (enBind env) (dfConfig ?d) = None"
  proof (rule ccontr)
    assume "start_failure (enBind env) (dfConfig ?d) \<noteq> None"
    then obtain err where "start_failure (enBind env) (dfConfig ?d) = Some err" by blast
    from dns_Start_fails [OF fresh this] st show False by simp
  qed
  from dns_Start_ok [OF fresh(1) this] st have d': "d' = ?d\<lparr>dfOpen := services (dfConfig ?d), dfJanitor := True\<rparr>" by simp
  show ?thesis
    by (rule exI [of _ m'], rule exI [of _ d']) (use e2 c in \<open>simp add: d'\<close>)
qed


lemma start_proxies_None:
  "start_socks5 env e = (None, e') \<Longrightarrow> eRouter e = Some (r, geo) \<Longrightarrow>
     if ecSocks5Listen (eCfg e) = [] then e' = e
     else \<exists>l. e' = e\<lparr>eSocks5 := Some (NewSocks5Server (proxy_settings (enWorld env) (eCfg e) (ecSocks5Listen (eCfg e)) r), l)\<rparr> \<and> lsListening l"
  "start_http env e = (None, e') \<Longrightarrow> eRouter e = Some (r, geo) \<Longrightarrow>
     if ecHTTPListen (eCfg e) = [] then e' = e
     else \<exists>l. e' = e\<lparr>eHttp := Some (NewHTTPServer (proxy_settings (enWorld env) (eCfg e) (ecHTTPListen (eCfg e)) r), l)\<rparr> \<and> lsListening l"
  by (auto simp: start_socks5_def start_http_def Let_def server_Start_def server_new_def split: if_splits)

lemma start_api_None:
  "start_api env e = (None, e') \<Longrightarrow>
     if ecAPIListen (eCfg e) = [] then e' = e
     else \<exists>a. e' = e\<lparr>eApi := Some a\<rparr> \<and> asListening a"
  by (auto simp: start_api_def Let_def api_Start_def split: if_splits sum.splits)

lemma named_host_decision:
  assumes "node_host n = Some h" and "ShouldDirectDomain r h"
  shows "Decide geo r h ip = Direct \<longleftrightarrow> \<not> ShouldProxyDomain r h"
proof -
  have "h \<noteq> []" "decide_target h ip = (h, canonicalIP ip)"
    using assms(1) decide_target_name [of h ip] by (auto simp: node_host_def Let_def split: if_splits)
  then show ?thesis using assms(2) by (simp add: Decide_def)
qed



text \<open>A start succeeds when there is a node and the system grants every address.\<close>

definition grants_all :: "engine_env \<Rightarrow> bool" where
  "grants_all env \<longleftrightarrow> (\<forall>sv addr. can_bind (enBind env) sv addr) \<and> (\<forall>cert key. can_load (enBind env) cert key)
     \<and> (\<forall>res addr. enCanListen env res addr)"

lemma start_dns_succeeds:
  assumes "grants_all env" and "eRouter e = Some (r, geo)" and "eCollector e = Some (col, b)" and "eMgr e = Some m"
    and "ecDoTListen (eCfg e) = []"
  shows "\<exists>e'. start_dns env e = (None, e') \<and> eCfg e' = eCfg e"
proof -
  obtain socks m' where sa: "Socks5Addr (enWorld env) m = (socks, m')" by fastforce
  obtain d where d: "NewServer (dns_settings (eCfg e) socks r col) = Some d"
    using assms(5) by (simp add: NewServer_def dns_settings_def Let_def)
  let ?d = "d\<lparr>dfServer := (dfServer d)\<lparr>router := Some (fold add_node_host (engine_nodes (eCfg e)) r)\<rparr>\<rparr>"
  have "dfOpen ?d = []" "start_failure (enBind env) (dfConfig ?d) = None"
    using NewServer_fresh [OF d] assms(1) by (simp_all add: start_failure_def grants_all_def)
  from dns_Start_ok [OF this] show ?thesis
    using assms(2-4) d by (simp add: start_dns_def sa Let_def)
qed

lemma start_proxies_succeed:
  assumes "grants_all env"
  shows "\<exists>e'. start_socks5 env e = (None, e') \<and> eCfg e' = eCfg e" and "\<exists>e'. start_http env e = (None, e') \<and> eCfg e' = eCfg e"
proof -
  have yes: "enCanListen env res addr" for res addr using assms by (simp add: grants_all_def)
  show "\<exists>e'. start_socks5 env e = (None, e') \<and> eCfg e' = eCfg e"
    by (cases "eRouter e"; cases "ecSocks5Listen (eCfg e) = []") (auto simp: start_socks5_def Let_def server_Start_def server_new_def yes)
  show "\<exists>e'. start_http env e = (None, e') \<and> eCfg e' = eCfg e"
    by (cases "eRouter e"; cases "ecHTTPListen (eCfg e) = []") (auto simp: start_http_def Let_def server_Start_def server_new_def yes)
qed

lemma Start_succeeds:
  assumes "idle e" and "grants_all env" and "engine_nodes (eCfg e) \<noteq> []" and "ecDoTListen (eCfg e) = []" and "ecAPIListen (eCfg e) = []"
  shows "\<exists>e'. Start env e = (None, e')"
proof -
  obtain r col b m e1 where e1: "start_core env e = (None, e1)" "eCfg e1 = eCfg e" "eRouter e1 = Some (r, geoipLoaded r)"
    "eCollector e1 = Some (col, b)" "eMgr e1 = Some m"
    using assms(3) by (simp add: start_core_def Let_def NewManager_def newManager_def)
  obtain e2 where e2: "start_dns env e1 = (None, e2)" "eCfg e2 = eCfg e"
    using start_dns_succeeds [OF assms(2) e1(3-5)] assms(4) e1(2) by auto
  obtain e3 where e3: "start_socks5 env e2 = (None, e3)" "eCfg e3 = eCfg e"
    using start_proxies_succeed(1) [OF assms(2), of e2] e2(2) by auto
  obtain e4 where e4: "start_http env e3 = (None, e4)" "eCfg e4 = eCfg e"
    using start_proxies_succeed(2) [OF assms(2), of e3] e3(2) by auto
  have "start_api env e4 = (None, e4)" using assms(5) e4(2) by (simp add: start_api_def Let_def)
  then show ?thesis
    using e1(1) e2(1) e3(1) e4(1) assms(1) by (simp add: Start_def idle_def stage_def)
qed

definition example_env :: engine_env where
  "example_env = \<lparr>enRouter = \<lparr>DefaultChinaMainDomains = [], DefaultDirectTLDs = [], DefaultReservedCIDRs = [], geoOpen = (\<lambda>_. False),
       osStat = (\<lambda>_. False), readLines = (\<lambda>_. None)\<rparr>,
     enWorld = test_world, enNow = 0, enProbed = 1, enBind = \<lparr>can_bind = (\<lambda>_ _. True), can_load = (\<lambda>_ _. True)\<rparr>,
     enCanListen = (\<lambda>_ _. True), enToken = ''t'', enGrow = (\<lambda>n. n), enReadFails = False,
     enFaults = \<lparr>mkdir_fails = False, write_fails = False, partial = None, rename_fails = False\<rparr>, enOrders = example_orders\<rparr>"

definition example_engine :: engine where
  "example_engine = NewEngine Map.empty ((cli_config default_flags)\<lparr>ecSPPServer := ''Spp.Example.com.:8888''\<rparr>)"

lemma example_engine_facts:
  "idle example_engine" "grants_all example_env" "map node_host (engine_nodes (eCfg example_engine)) = [Some ''spp.example.com'']"
  "ecDoTListen (eCfg example_engine) = []" "ecAPIListen (eCfg example_engine) = []" "ecSocks5Listen (eCfg example_engine) \<noteq> []"
proof -
  show "map node_host (engine_nodes (eCfg example_engine)) = [Some ''spp.example.com'']" by code_simp
qed (simp_all add: idle_def example_engine_def NewEngine_def grants_all_def example_env_def engine_defaults_def cli_config_def
    default_flags_def Let_def)

theorem engine_leaves_nothing_witness:
  "\<exists>e. Start example_env example_engine = (None, e) \<and> engine_step\<^sup>*\<^sup>* example_engine (Stop example_env e)
     \<and> eRunning e \<and> empty_engine (Stop example_env e) \<and> eLost (Stop example_env e) = []"
proof -
  note f = example_engine_facts
  have "engine_nodes (eCfg example_engine) \<noteq> []" using f(3) by auto
  then obtain e where e: "Start example_env example_engine = (None, e)"
    using Start_succeeds [OF f(1,2) _ f(4,5)] by blast
  then have step: "engine_step\<^sup>*\<^sup>* example_engine e" by (meson engine_step.started r_into_rtranclp)
  then have "engine_step\<^sup>*\<^sup>* example_engine (Stop example_env e)" by (meson engine_step.stopped rtranclp.rtrancl_into_rtrancl)
  moreover have "eRunning e" using Start_stages [OF f(1), of example_env] e by simp
  moreover have "empty_engine (Stop example_env e)" "eLost (Stop example_env e) = []"
    using engine_leaves_nothing [OF step [unfolded example_engine_def], of example_env example_env] by blast+
  ultimately show ?thesis using e by blast
qed


text \<open>The history an engine keeps is between one hour and thirty days of minutes, a day when nothing is configured, and its
  collector never starts with room for none.\<close>

lemma historyMinutes_bounds:
  "60 \<le> historyMinutes hours \<and> historyMinutes hours \<le> 43200 \<and> (hours \<le> 0 \<longrightarrow> historyMinutes hours = 1440)
   \<and> (0 < hours \<and> hours \<le> 720 \<longrightarrow> historyMinutes hours = 60 * hours)"
  by (simp add: historyMinutes_def DefaultHistoryMinutes_def)


section \<open>The command line\<close>

lemma stage_error: "fst p \<noteq> Some err \<Longrightarrow> (\<And>e. fst (f e) \<noteq> Some err) \<Longrightarrow> fst (stage f p) \<noteq> Some err"
  by (cases p) (auto simp: stage_def split: option.splits)

lemma later_errors:
  "fst (start_dns env e) \<noteq> Some NoNodes" "fst (start_socks5 env e) \<noteq> Some NoNodes" "fst (start_http env e) \<noteq> Some NoNodes"
  "fst (start_api env e) \<noteq> Some NoNodes"
  by (auto simp: start_dns_def start_socks5_def start_http_def start_api_def fail_start_def Let_def
      split: option.splits prod.splits sum.splits bool.splits)

lemma Start_not_NoNodes:
  assumes "engine_nodes (eCfg e) \<noteq> []" shows "fst (Start env e) \<noteq> Some NoNodes"
proof -
  have "fst (start_core env e) \<noteq> Some NoNodes"
    using assms by (auto simp: start_core_def Let_def fail_start_def split: option.splits)
  then have "fst (stage (\<lambda>e. (None, e\<lparr>eRunning := True\<rparr>)) (stage (start_api env) (stage (start_http env) (stage (start_socks5 env)
      (stage (start_dns env) (start_core env e)))))) \<noteq> Some NoNodes"
    by (intro stage_error later_errors) simp_all
  then show ?thesis by (simp add: Start_def)
qed

text \<open>The command line launches an engine only when there is something to connect to: the configuration it hands over, from flags
  and file, has a node, so that the engine never refuses it for lacking one; and when the statistics interface is on, the
  statistics are kept in a file.\<close>

theorem cli_launch:
  assumes "run load (Some fl) = Launch c"
  shows "engine_nodes (eCfg (NewEngine fs c)) \<noteq> [] \<and> fst (Start env (NewEngine fs c)) \<noteq> Some NoNodes
    \<and> (ecAPIListen c \<noteq> [] \<longrightarrow> File (stats_config c) \<noteq> []) \<and> (flConfig fl = [] \<longrightarrow> ecSPPServer c = flSppServer fl)"
proof -
  have c: "\<not> (ecSPPServer c = [] \<and> ecSPPNodes c = [])" "ecAPIListen c \<noteq> [] \<longrightarrow> ecStatsFile c \<noteq> []"
    using assms by (auto simp: run_def Let_def split: if_splits option.splits)
  have flags: "flConfig fl = [] \<longrightarrow> ecSPPServer c = flSppServer fl"
    using assms by (auto simp: run_def Let_def cli_config_def split: if_splits)
  have "ecSPPNodes (engine_defaults c) = ecSPPNodes c" "ecSPPServer (engine_defaults c) = ecSPPServer c"
    by (simp_all add: engine_defaults_def)
  then have nodes: "engine_nodes (eCfg (NewEngine fs c)) \<noteq> []"
    using c(1) by (cases "ecSPPNodes c = []") (simp_all add: engine_nodes_def NewEngine_def)
  moreover have "fst (Start env (NewEngine fs c)) \<noteq> Some NoNodes"
    using Start_not_NoNodes [OF nodes] .
  ultimately show ?thesis using c(2) flags by (simp add: stats_config_def)
qed

theorem cli_launch_witness:
  "\<forall>env. \<exists>c. run (\<lambda>_. None) (Some (default_flags\<lparr>flSppServer := ''h:1'', flApi := '':9090''\<rparr>)) = Launch c
     \<and> fst (Start env (NewEngine Map.empty c)) \<noteq> Some NoNodes \<and> File (stats_config c) = ''stats.json''"
proof
  fix env
  let ?fl = "default_flags\<lparr>flSppServer := ''h:1'', flApi := '':9090''\<rparr>"
  obtain c where c: "run (\<lambda>_. None) (Some ?fl) = Launch c" "File (stats_config c) = ''stats.json''"
    by (simp add: run_def default_flags_def cli_config_def stats_config_def Let_def)
  then show "\<exists>c. run (\<lambda>_. None) (Some ?fl) = Launch c \<and> fst (Start env (NewEngine Map.empty c)) \<noteq> Some NoNodes
      \<and> File (stats_config c) = ''stats.json''"
    using cli_launch [OF c(1), of Map.empty env] by blast
qed

end
