(* ===== verification/Background.thy ===== *)
theory Background
  imports Manager_Leases Dns_Front Stats_Persist
begin

text \<open>
  What runs beside the services: the health checks of \<^verbatim>\<open>core/sppclient/manager.go\<close>, the saver of \<^verbatim>\<open>core/stats/stats.go\<close> and the
  reaper of \<^verbatim>\<open>core/dns/server.go\<close>, each a loop over a ticker and a channel that stops it; the wrappers around the
  clients of the libraries; and the choice of a working directory in \<^verbatim>\<open>core/launch/launch.go\<close>.

  A loop is a function of the events of its life, in the order in which they happen: a tick its \<^verbatim>\<open>select\<close> takes, the stop, and
  what the rest of the program does to the shared state in the meantime. A loop whose events end without a stop is still
  waiting.
\<close>

section \<open>Loops\<close>

datatype ('t, 's) loop_event = Stopping | Tick 't | Meanwhile "'s \<Rightarrow> 's"

fun elsewhere :: "('t, 's) loop_event list \<Rightarrow> 's \<Rightarrow> 's" where
  "elsewhere [] s = s"
| "elsewhere (Meanwhile f # es) s = elsewhere es (f s)"
| "elsewhere (_ # es) s = elsewhere es s"

fun ticker_loop :: "('t \<Rightarrow> 's \<Rightarrow> 's) \<Rightarrow> ('t, 's) loop_event list \<Rightarrow> 's \<Rightarrow> 's" where
  "ticker_loop act [] s = s"
| "ticker_loop act (Stopping # es) s = elsewhere es s"
| "ticker_loop act (Tick t # es) s = ticker_loop act es (act t s)"
| "ticker_loop act (Meanwhile f # es) s = ticker_loop act es (f s)"

text \<open>The loop of the health checks also takes the trigger; a tick carries the instants before and after the probes, and
  whether it came from the trigger, whose channel it empties. A tick of the saver carries the collector as it is then, which
  the saver only reads; its state are the files.\<close>

definition health_check :: "world \<Rightarrow> bool \<times> instant \<times> instant \<Rightarrow> Manager \<Rightarrow> Manager" where
  "health_check w t m =
     (case t of (triggered, now, now') \<Rightarrow> checkNodes w now now' (if triggered then m\<lparr>checkPending := False\<rparr> else m))"

definition healthLoop :: "world \<Rightarrow> (bool \<times> instant \<times> instant, Manager) loop_event list \<Rightarrow> Manager \<Rightarrow> Manager" where
  "healthLoop w = ticker_loop (health_check w)"

definition saveLoop ::
  "order \<Rightarrow> (NodeStat list \<Rightarrow> NodeStat list) \<Rightarrow> (Collector \<times> faults \<times> instant, files) loop_event list \<Rightarrow> files \<Rightarrow> files" where
  "saveLoop rng rngN = ticker_loop (\<lambda>(c, io, now) fs. snd (Save rng rngN io c now fs))"

definition janitorLoop :: "(instant, DnsServer) loop_event list \<Rightarrow> DnsServer \<Rightarrow> DnsServer" where
  "janitorLoop = ticker_loop sweepExpired"

lemma elsewhere_append [simp]: "elsewhere (es @ es') s = elsewhere es' (elsewhere es s)"
  by (induction es s rule: elsewhere.induct) simp_all

lemma ticker_loop_stops: "ticker_loop act (es @ Stopping # later) s = elsewhere later (ticker_loop act es s)"
  by (induction act es s rule: ticker_loop.induct) simp_all

lemma ticker_loop_ticks: "ticker_loop act (map Tick ts) s = fold act ts s"
  by (induction ts arbitrary: s) simp_all

text \<open>What every action and everything else keeps, the loop keeps.\<close>

lemma elsewhere_keeps: "P s \<Longrightarrow> (\<And>f s. Meanwhile f \<in> set es \<Longrightarrow> P s \<Longrightarrow> P (f s)) \<Longrightarrow> P (elsewhere es s)"
  by (induction es s rule: elsewhere.induct) auto

lemma ticker_loop_keeps:
  "P s \<Longrightarrow> (\<And>t s. Tick t \<in> set es \<Longrightarrow> P s \<Longrightarrow> P (act t s)) \<Longrightarrow> (\<And>f s. Meanwhile f \<in> set es \<Longrightarrow> P s \<Longrightarrow> P (f s))
    \<Longrightarrow> P (ticker_loop act es s)"
proof (induction act es s rule: ticker_loop.induct)
  case (2 act es s)
  then show ?case using elsewhere_keeps [of P s es] by simp
qed auto

lemma Save_path:
  "snd (Save rng rngN io c now fs) (File (cfg c)) \<in> {fs (File (cfg c)), Some (Snapshot_doc (take_snapshot rng rngN c now))}"
  by (simp add: Save_def Let_def)

section \<open>The clients of the libraries\<close>

text \<open>A wrapper around a library client, the SPP client and the pingtunnel client alike: the client it wraps and the flag
  \<^verbatim>\<open>closed\<close>. A missing wrapper is \<open>None\<close>. The stops of library clients are recorded in order.\<close>

record client_wrapper =
  cwClient :: "handle option"
  cwClosed :: bool

definition Client_Close :: "client_wrapper \<times> handle list \<Rightarrow> client_wrapper \<times> handle list" where
  "Client_Close p =
     (case p of (c, stops) \<Rightarrow>
        if cwClosed c then (c, stops)
        else (c\<lparr>cwClosed := True\<rparr>, case cwClient c of Some h \<Rightarrow> stops @ [h] | None \<Rightarrow> stops))"

definition Client_HasRecentTraffic :: "(handle \<Rightarrow> duration \<Rightarrow> bool) \<Rightarrow> client_wrapper option \<Rightarrow> duration \<Rightarrow> bool" where
  "Client_HasRecentTraffic traffic c window =
     (case c of
        None \<Rightarrow> False
      | Some c \<Rightarrow> if cwClosed c then False else (case cwClient c of None \<Rightarrow> False | Some h \<Rightarrow> traffic h window))"

definition pingTunnel_Close :: "client_wrapper \<times> handle list \<Rightarrow> client_wrapper \<times> handle list" where
  "pingTunnel_Close p =
     (case p of (c, stops) \<Rightarrow>
        if cwClosed c then (c, stops) else (c\<lparr>cwClosed := True\<rparr>, stops @ (case cwClient c of Some h \<Rightarrow> [h] | None \<Rightarrow> [])))"

definition pingTunnel_HasRecentTraffic :: "(handle \<Rightarrow> duration) \<Rightarrow> client_wrapper option \<Rightarrow> duration \<Rightarrow> bool" where
  "pingTunnel_HasRecentTraffic rtt c window =
     (case c of
        None \<Rightarrow> False
      | Some c \<Rightarrow> \<not> cwClosed c \<and> (case cwClient c of None \<Rightarrow> False | Some h \<Rightarrow> 0 < rtt h))"

lemma Client_Close_once:
  "Client_Close (Client_Close p) = Client_Close p" "pingTunnel_Close (pingTunnel_Close p) = pingTunnel_Close p"
  "\<not> Client_HasRecentTraffic traffic (Some (fst (Client_Close p))) window"
  "\<not> pingTunnel_HasRecentTraffic rtt (Some (fst (pingTunnel_Close p))) window"
  by (cases p; simp add: Client_Close_def pingTunnel_Close_def Client_HasRecentTraffic_def pingTunnel_HasRecentTraffic_def)+

section \<open>The working directory\<close>

record launch_env =
  leGetwd :: "string option"
  leUserConfigDir :: "string option"
  leUserCacheDir :: "string option"
  leUserHomeDir :: "string option"
  leTempDir :: string
  leCreate :: "string \<Rightarrow> bool"
  leMkdirAll :: "string \<Rightarrow> bool"
  leChdir :: "string \<Rightarrow> bool"

text \<open>The directories are the cleaned absolute paths the system returns, so \<^verbatim>\<open>filepath.Join\<close> appends; \<open>leCreate\<close> says whether a
  file can be created, and the probe is removed again.\<close>

definition dirWritable :: "launch_env \<Rightarrow> string \<Rightarrow> bool" where
  "dirWritable e dir = leCreate e (dir @ ''/.yellowsocks-write-test'')"

definition work_dirs :: "launch_env \<Rightarrow> string list" where
  "work_dirs e =
     (let under = (\<lambda>d suffix. case d of Some p \<Rightarrow> if p \<noteq> [] then [p @ suffix] else [] | None \<Rightarrow> [])
      in under (leUserConfigDir e) ''/YellowSocks'' @ under (leUserCacheDir e) ''/YellowSocks''
         @ under (leUserHomeDir e) ''/Documents/YellowSocks'' @ under (Some (leTempDir e)) ''/YellowSocks'')"

fun try_dirs :: "launch_env \<Rightarrow> string list \<Rightarrow> string option \<Rightarrow> bool \<times> string option" where
  "try_dirs e [] wd = (False, wd)"
| "try_dirs e (d # ds) wd =
     (if \<not> leMkdirAll e d then try_dirs e ds wd
      else if \<not> dirWritable e d then try_dirs e ds wd
      else if leChdir e d then (True, Some d)
      else try_dirs e ds wd)"

definition EnsureWritableWorkDir :: "launch_env \<Rightarrow> bool \<times> string option" where
  "EnsureWritableWorkDir e =
     (case leGetwd e of
        Some cwd \<Rightarrow> if dirWritable e cwd then (True, Some cwd) else try_dirs e (work_dirs e) (Some cwd)
      | None \<Rightarrow> try_dirs e (work_dirs e) None)"

lemma try_dirs_result:
  "try_dirs e ds wd = (True, Some d) \<Longrightarrow> d \<in> set ds \<and> dirWritable e d"
  "try_dirs e ds wd = (True, None) \<Longrightarrow> False"
  "try_dirs e ds wd = (False, wd') \<Longrightarrow> wd' = wd \<and> (\<forall>d \<in> set ds. \<not> (leMkdirAll e d \<and> dirWritable e d \<and> leChdir e d))"
  by (induction ds) (auto split: if_splits)



end
