(* ===== verification/Spec2Isabelle.thy ===== *)
theory Spec2Isabelle
  imports Router Stats_Persist Manager_Leases Dns_Server Proxy_Relay Proxy_Udp Proxy_Http Engine_Lifecycle Background
begin

text \<open>
  A verification library for yellowsocks, a local proxy in Go. Applications reach it over DNS (UDP, TCP, DoH, DoT), SOCKS5 and HTTP; it
  decides for every destination whether traffic goes direct or through an upstream node, relays it, accounts for it, and
  serves the accounts over an HTTP interface. Paths below are relative to \<^verbatim>\<open>src/\<close>.

  \<^bold>\<open>Parts and how they interact.\<close>
  The engine builds everything and takes it down. The DNS server and both proxies ask the one router for a decision. The DNS server
  remembers which name an address was the answer for; the proxies ask it for that name before they ask the router. For proxied
  traffic the proxies lease a node from the upstream manager, which keeps a local client running per node, and report failures
  and traffic to it. All of them write into the statistics collector, which the interface reads and, on an admin's request,
  resets. Three loops run beside them: health checks, the saver of the statistics, and the reaper of the DNS cache.

  \<^bold>\<open>Theories, and the sources they model.\<close>
  Definitions have the names of the functions and types they translate, with a suffix or prefix where names clash; the state of
  an object is a record of its fields, an operation takes and returns that record.

  \<^item> \<open>Go_Prelude\<close>, \<open>Go_Net\<close>, \<open>Go_Addr6\<close>, \<open>Go_Base64\<close>: what the sources use of the language and its standard library: strings, numbers,
    64-bit wrap-around, unstable sorting by a strict weak order, addresses and networks with their texts, base64; and the locale of a
    transition system with an invariant that the concurrent components instantiate.
  \<^item> \<open>Router\<close> (\<^verbatim>\<open>core/router/router.go\<close>, \<^verbatim>\<open>rules.go\<close>): the sets of suffix rules, the CIDR list, the decision, the rule list. The index loop of
    \<open>matchListed\<close> is label-boundary suffix matching; the decision of a router built from its options is characterised for names,
    and does not depend on the spelling of an address; normalising a rule list refines an ordered table.
  \<^item> \<open>Stats_Data\<close>, \<open>Stats_History\<close>, \<open>Stats_Collector\<close>, \<open>Stats_Books\<close>, \<open>Stats_Tables\<close>, \<open>Stats_Sessions\<close>, \<open>Stats_Views\<close>, \<open>Stats_Persist\<close>
    (\<^verbatim>\<open>core/stats/stats.go\<close>, \<^verbatim>\<open>persist.go\<close>): the data, the ring of buckets and the rate slots, the operations, and what every reachable
    collector satisfies: history adds up to the totals, sessions add up to the totals, flushing neither loses nor repeats a
    byte, tables stay within their caps; the readings; saving and restoring.
  \<^item> \<open>Manager\<close>, \<open>Manager_Choice\<close>, \<open>Manager_Leases\<close> (\<^verbatim>\<open>core/sppclient/manager.go\<close>, \<^verbatim>\<open>client.go\<close>, \<^verbatim>\<open>pingtunnel.go\<close>): nodes, probing, costs, tiers, failover;
    the choice is a reachable node of the best reachable priority and within the margin of the cheapest; leases under
    every interleaving are counted exactly, and after \<^verbatim>\<open>Close\<close> no client runs.
  \<^item> \<open>Dns_Server\<close>, \<open>Dns_Front\<close> (\<^verbatim>\<open>core/dns/server.go\<close>): the resolver with its cache, its two routes, the check of answers and the
    reverse table; replies answer their question and age in the cache; the listeners, all or none; DoH over GET and POST.
  \<^item> \<open>Proxy_Addr\<close> (\<^verbatim>\<open>core/proxy/addr.go\<close>): canonical hosts, UDP sockets, the registry of direct UDP sessions.
  \<^item> \<open>Proxy_Upstream\<close>, \<open>Proxy_Session\<close>: what both proxies share: the interface of the upstream manager as the locale
    \<open>upstream_provider\<close>, interpreted on the manager, the routing of a request, and the account of one session.
  \<^item> \<open>Proxy_Socks5\<close>, \<open>Proxy_Relay\<close>, \<open>Proxy_Udp\<close> (\<^verbatim>\<open>core/proxy/socks5.go\<close>): requests and CONNECT, the relay as a step relation over its
    goroutines and its watchdog, the UDP association as a step relation over datagrams. Nothing is left behind by a
    connection; the relay keeps every octet in order and stops; an association relays only between its client and its peers.
  \<^item> \<open>Http_Head\<close>, \<open>Proxy_Http\<close> (\<^verbatim>\<open>core/proxy/http.go\<close>): reading the head in chunks under a budget, its checks and rewriting, the
    handlers. What is forwarded is clean whatever the client sends; well-formed heads round-trip.
  \<^item> \<open>Api_Query\<close>, \<open>Api_Access\<close>, \<open>Api_Server\<close> (\<^verbatim>\<open>core/api/api.go\<close>, \<^verbatim>\<open>types.go\<close>): parameters, who may use the interface, the handlers. Every
    guarded handler runs behind the network and token checks, forwarding headers cannot be forged, answers are bounded, and only
    a reset changes what was counted.
  \<^item> \<open>Engine_Config\<close> (\<^verbatim>\<open>core/config/config.go\<close>, \<^verbatim>\<open>cmd/yellowsocks-cli/main.go\<close>), \<open>Engine\<close>, \<open>Engine_Lifecycle\<close> (\<^verbatim>\<open>core/engine.go\<close>): settings and their overlay, the
    start in its stages, the stop, what each component holds open. Nothing is let go of while it holds something, in every
    reachable state; a successful start has built and wired what was configured.
  \<^item> \<open>Background\<close> (\<^verbatim>\<open>healthLoop\<close>, \<^verbatim>\<open>saveLoop\<close>, \<^verbatim>\<open>startJanitor\<close>, the client wrappers, \<^verbatim>\<open>core/launch/launch.go\<close>): the loops do not act after their stop.
  \<^item> This theory: what spans the proxies, the statistics and the interface.

  \<^bold>\<open>Parameters.\<close>
  Code outside the repository and the outside world are arguments: \<open>world\<close> (dialling, the client libraries of spp and pingtunnel),
  \<open>net\<close> (DNS over the network, packing and unpacking of messages), \<open>dialer\<close>, \<open>assoc_env\<close> and \<open>udp_env\<close> (connections, handshakes with
  an upstream, sockets and the octets read from them), \<open>RouterEnv\<close> and the country lookup (the lists of gohome, GeoIP, files), \<open>order\<close>
  arguments (the iteration order of Go maps), \<open>grow\<close> (the growth of slices), \<open>faults\<close> (failing file operations), \<open>bind_env\<close>,
  \<open>engine_env\<close> and \<open>launch_env\<close> (what the system grants), and the instant an operation reads from the clock. Theorems hold for all of
  them, or name what they assume.

  \<^bold>\<open>Bounds.\<close>
  Every function is total, with a termination proof where recursion is not structural; nothing runs on fuel. The relay
  and the UDP association may run forever and are relations; that a relay which reads nothing stops is proved with an explicit
  bound on its steps. Counters are 64-bit in Go and unbounded integers here, except where wrap-around is reachable: TTLs
  are 32-bit words, durations from query parameters wrap at 64 bits.

  \<^bold>\<open>Abstractions.\<close>
  An operation under a lock is one step, and interleavings are sequences of such steps. \<^verbatim>\<open>float64\<close> is exact. A JSON document is
  its record. Letter case is folded in ASCII. A request to the interface reads the clock once. Objects shared through a pointer
  are held once by the engine. In the handlers the reads of a relay are a list; the step relation of \<open>Proxy_Relay\<close> says which
  lists there are and in what order they are charged.

  \<^bold>\<open>Not modelled.\<close>
  The dashboard page (\<^verbatim>\<open>dashboard/embed.go\<close>, a file) and the version strings (\<^verbatim>\<open>core/version/version.go\<close>), which have no logic; log messages; the
  transport set up in \<^verbatim>\<open>setupDoHClient\<close>, TLS and sockets; the wire formats of DNS and SOCKS5, which belong to libraries; JSON and YAML
  decoding and the parsing of flags; the contents of runtime profiles; timeouts of HTTP servers; accessors such as \<^verbatim>\<open>Addr\<close>
  that return a field; data races outside locks.
\<close>

section \<open>From a relayed connection to the interface\<close>

lemma overview_served:
  assumes "api_gate s r = Gated EOverview Passed"
  shows "\<exists>ov. arBody (fst (serve ro dp s r now c)) = OverviewBody ov (dpVersion dp) \<and> arStatus (fst (serve ro dp s r now c)) = 200
    \<and> oTotals ov = totals c \<and> oActiveConns ov = int (length (active c))"
  using assms by (simp add: serve_def run_endpoint_def handleOverview_def Overview_def Let_def)



end
